(* ===== verification/Easy_Prelude.thy ===== *)
theory Easy_Prelude
  imports "HOL-Library.Word"
begin

text \<open>
  Shared vocabulary of the Easy::jit development.

  The program throws C++ exceptions, has assertions, relies on preconditions of the functions it
  calls and refuses programs at compile time with \<open>static_assert\<close>. All of these are values of one
  type \<open>fault\<close>, and an operation that can end in one of them returns \<open>'a result\<close>, the sum
  \<open>fault + 'a\<close>. \<open>bindR\<close> sequences such operations the way statements of C++ follow one another;
  \<open>mapR\<close> is a loop that stops at the first fault.

  The standard \<open>unordered_map\<close> is modelled by its documented interface, over an association list
  and the key comparison the program supplies: \<open>um_find\<close> and \<open>um_emplace\<close> (which keeps an entry
  that is already there). The locale \<open>key_equality\<close> states what the clients rely on, a comparison
  that is symmetric and transitive, and proves the laws of the map from that; reflexivity is not
  assumed, because the comparison of \<open>Context\<close> objects is not reflexive.
\<close>

named_theorems easy_simps \<open>executable definitions of the model, to evaluate closed terms\<close>
named_theorems result_simps \<open>rewriting of sequenced results\<close>

subsection \<open>Machine types and faults\<close>

type_synonym byte = "8 word"
type_synonym uint = "32 word"
type_synonym size_t = "64 word"
type_synonym ptr = "64 word"

datatype easy_exception =
    BitcodeNotRegistered
  | BitcodeParseError string
  | ExecutionEngineCreateError string
  | CouldNotOpenFile string

fun what :: "easy_exception \<Rightarrow> string" where
  "what BitcodeNotRegistered = ''Cannot find bitcode.'' @ ''''"
| "what (BitcodeParseError Reason) = ''Cannot parse bitcode for: '' @ Reason"
| "what (ExecutionEngineCreateError Reason) = ''Failed to create execution engine for:'' @ Reason"
| "what (CouldNotOpenFile Reason) =
     ''Failed to file to dump intermediate representation.'' @ Reason"

datatype fault =
    Exception easy_exception
  | StaticAssert string
  | NoOverload
  | AssertionFailure
  | UndefinedBehaviour
  | FatalError string

type_synonym 'a result = "fault + 'a"

definition bindR :: "'a result \<Rightarrow> ('a \<Rightarrow> 'b result) \<Rightarrow> 'b result" where
  "bindR r f = (case r of Inl e \<Rightarrow> Inl e | Inr x \<Rightarrow> f x)"

fun mapR :: "('a \<Rightarrow> 'b result) \<Rightarrow> 'a list \<Rightarrow> 'b list result" where
  "mapR f [] = Inr []"
| "mapR f (x # xs) = bindR (f x) (\<lambda>y. bindR (mapR f xs) (\<lambda>ys. Inr (y # ys)))"

fun foldR :: "('a \<Rightarrow> 's \<Rightarrow> 's result) \<Rightarrow> 'a list \<Rightarrow> 's \<Rightarrow> 's result" where
  "foldR f [] s = Inr s"
| "foldR f (x # xs) s = bindR (f x s) (foldR f xs)"

definition nth_checked :: "'a list \<Rightarrow> nat \<Rightarrow> 'a result" where
  "nth_checked xs i = (if i < length xs then Inr (xs ! i) else Inl UndefinedBehaviour)"

lemma bindR_simps [simp, result_simps]:
  "bindR (Inl e) f = Inl e"
  "bindR (Inr x) f = f x"
  by (simp_all add: bindR_def)

lemma bindR_cong [fundef_cong]:
  "r = r' \<Longrightarrow> (\<And>x. r' = Inr x \<Longrightarrow> f x = f' x) \<Longrightarrow> bindR r f = bindR r' f'"
  by (cases r') (auto simp: bindR_def)

lemma bindR_eq_Inr [result_simps]:
  "bindR r f = Inr y \<longleftrightarrow> (\<exists>x. r = Inr x \<and> f x = Inr y)"
  by (cases r) auto

lemma bindR_eq_Inl [result_simps]:
  "bindR r f = Inl e \<longleftrightarrow> r = Inl e \<or> (\<exists>x. r = Inr x \<and> f x = Inl e)"
  by (cases r) auto

lemma bindR_assoc: "bindR (bindR r f) g = bindR r (\<lambda>x. bindR (f x) g)"
  by (cases r) auto

lemma mapR_cong [fundef_cong]:
  "xs = ys \<Longrightarrow> (\<And>x. x \<in> set ys \<Longrightarrow> f x = g x) \<Longrightarrow> mapR f xs = mapR g ys"
proof (induction ys arbitrary: xs)
  case (Cons y ys)
  then have "mapR f ys = mapR g ys" by simp
  with Cons.prems show ?case by simp
qed simp

lemma foldR_cong [fundef_cong]:
  "xs = ys \<Longrightarrow> s = t \<Longrightarrow> (\<And>x u. x \<in> set ys \<Longrightarrow> f x u = g x u) \<Longrightarrow> foldR f xs s = foldR g ys t"
proof (induction ys arbitrary: xs s t)
  case (Cons y ys)
  then have "foldR f ys = foldR g ys" by (intro ext) simp
  with Cons.prems show ?case by simp
qed simp

lemma foldR_append: "foldR f (xs @ ys) s = bindR (foldR f xs s) (foldR f ys)"
  by (induction xs arbitrary: s) (auto simp: bindR_def split: sum.split)

lemma foldR_invariant:
  "foldR f xs s = Inr t \<Longrightarrow> P s \<Longrightarrow>
     (\<And>x u v. x \<in> set xs \<Longrightarrow> P u \<Longrightarrow> f x u = Inr v \<Longrightarrow> P v) \<Longrightarrow> P t"
proof (induction xs arbitrary: s)
  case (Cons x xs)
  then obtain u where "f x s = Inr u" "foldR f xs u = Inr t" by (auto simp: result_simps)
  with Cons show ?case by (metis list.set_intros)
qed simp

lemma foldR_total:
  "P s \<Longrightarrow> (\<And>x u. x \<in> set xs \<Longrightarrow> P u \<Longrightarrow> \<exists>v. f x u = Inr v \<and> P v) \<Longrightarrow> \<exists>t. foldR f xs s = Inr t \<and> P t"
proof (induction xs arbitrary: s)
  case (Cons x xs)
  from Cons.prems obtain v where "f x s = Inr v" "P v" by (metis list.set_intros(1))
  with Cons show ?case by simp
qed simp

lemma mapR_Inr_iff:
  "mapR f xs = Inr ys \<longleftrightarrow> list_all2 (\<lambda>x y. f x = Inr y) xs ys"
proof (induction xs arbitrary: ys)
  case (Cons x xs)
  then show ?case by (cases ys) (auto simp: result_simps)
qed auto

lemma mapR_length: "mapR f xs = Inr ys \<Longrightarrow> length ys = length xs"
  by (auto simp: mapR_Inr_iff dest: list_all2_lengthD)

lemma mapR_nth: "mapR f xs = Inr ys \<Longrightarrow> i < length xs \<Longrightarrow> f (xs ! i) = Inr (ys ! i)"
  by (auto simp: mapR_Inr_iff dest: list_all2_nthD)

lemma mapR_total: "(\<And>x. x \<in> set xs \<Longrightarrow> f x = Inr (g x)) \<Longrightarrow> mapR f xs = Inr (map g xs)"
  by (induction xs) auto

lemma nth_checked_simps [simp]:
  "i < length xs \<Longrightarrow> nth_checked xs i = Inr (xs ! i)"
  "\<not> i < length xs \<Longrightarrow> nth_checked xs i = Inl UndefinedBehaviour"
  by (simp_all add: nth_checked_def)

lemma nth_checked_eq_Inr [result_simps]:
  "nth_checked xs i = Inr y \<longleftrightarrow> i < length xs \<and> y = xs ! i"
  by (auto simp: nth_checked_def)

fun first_index :: "('a \<Rightarrow> bool) \<Rightarrow> 'a list \<Rightarrow> nat option" where
  "first_index P [] = None"
| "first_index P (x # xs) = (if P x then Some 0 else map_option Suc (first_index P xs))"

lemma first_index_snoc:
  "first_index P (xs @ [x]) = (case first_index P xs of
     Some i \<Rightarrow> Some i | None \<Rightarrow> if P x then Some (length xs) else None)"
  by (induction xs) (auto split: option.split)

lemma first_index_None: "first_index P xs = None \<longleftrightarrow> (\<forall>x \<in> set xs. \<not> P x)"
  by (induction xs) auto

lemma first_index_Some:
  "first_index P xs = Some i \<longleftrightarrow> i < length xs \<and> P (xs ! i) \<and> (\<forall>j<i. \<not> P (xs ! j))"
proof (induction xs arbitrary: i)
  case (Cons x xs)
  then show ?case by (cases i) (auto simp: All_less_Suc2)
qed simp

lemma find_append:
  "List.find P (xs @ ys) = (case List.find P xs of Some x \<Rightarrow> Some x | None \<Rightarrow> List.find P ys)"
  by (induction xs) auto

subsection \<open>The standard unordered map\<close>

fun um_find :: "('k \<Rightarrow> 'k \<Rightarrow> bool) \<Rightarrow> 'k \<Rightarrow> ('k \<times> 'v) list \<Rightarrow> 'v option" where
  "um_find eq k [] = None"
| "um_find eq k ((k', v) # m) = (if eq k' k then Some v else um_find eq k m)"

definition um_emplace ::
    "('k \<Rightarrow> 'k \<Rightarrow> bool) \<Rightarrow> 'k \<Rightarrow> 'v \<Rightarrow> ('k \<times> 'v) list \<Rightarrow> ('k \<times> 'v) list \<times> bool" where
  "um_emplace eq k v m = (case um_find eq k m of None \<Rightarrow> (m @ [(k, v)], True) | Some _ \<Rightarrow> (m, False))"

fun um_index :: "('k \<Rightarrow> 'k \<Rightarrow> bool) \<Rightarrow> 'k \<Rightarrow> ('k \<times> 'v) list \<Rightarrow> nat option" where
  "um_index eq k [] = None"
| "um_index eq k ((k', v) # m) = (if eq k' k then Some 0 else map_option Suc (um_index eq k m))"

definition um_keys_apart :: "('k \<Rightarrow> 'k \<Rightarrow> bool) \<Rightarrow> ('k \<times> 'v) list \<Rightarrow> bool" where
  "um_keys_apart eq m = sorted_wrt (\<lambda>k k'. \<not> eq k k') (map fst m)"

lemma um_find_append:
  "um_find eq k (m @ m') = (case um_find eq k m of None \<Rightarrow> um_find eq k m' | Some v \<Rightarrow> Some v)"
  by (induction m) auto

lemma um_find_None_iff: "um_find eq k m = None \<longleftrightarrow> (\<forall>k' \<in> fst ` set m. \<not> eq k' k)"
  by (induction m) (auto split: if_splits)

lemma um_emplace_snd [simp]: "snd (um_emplace eq k v m) \<longleftrightarrow> um_find eq k m = None"
  by (simp add: um_emplace_def split: option.split)

lemma um_emplace_keys_apart:
  "um_keys_apart eq m \<Longrightarrow> um_keys_apart eq (fst (um_emplace eq k v m))"
  by (auto simp: um_emplace_def um_keys_apart_def sorted_wrt_append um_find_None_iff split: option.split)

lemma um_index_None_iff: "um_index eq k m = None \<longleftrightarrow> um_find eq k m = None"
  by (induction m) (auto split: if_splits)

lemma um_index_append:
  "um_index eq k (m @ m') = (case um_index eq k m of
     None \<Rightarrow> map_option (\<lambda>i. i + length m) (um_index eq k m') | Some i \<Rightarrow> Some i)"
  by (induction m) (auto simp: option.map_comp comp_def option.map_ident split: option.splits)

lemma um_index_Some:
  "um_index eq k m = Some i \<longleftrightarrow>
     i < length m \<and> eq (fst (m ! i)) k \<and> (\<forall>j<i. \<not> eq (fst (m ! j)) k)"
proof (induction m arbitrary: i)
  case (Cons e m)
  show ?case
    by (cases i; cases e) (auto simp: Cons.IH All_less_Suc2)
qed simp

lemma um_find_index: "um_find eq k m = map_option (\<lambda>i. snd (m ! i)) (um_index eq k m)"
  by (induction m) (auto simp: option.map_comp comp_def)

lemma um_find_in: "um_find eq k m = Some v \<Longrightarrow> \<exists>k'. (k', v) \<in> set m \<and> eq k' k"
  by (induction m) (auto split: if_splits)

locale key_equality =
  fixes eq :: "'k \<Rightarrow> 'k \<Rightarrow> bool"
  assumes eq_sym: "eq a b \<Longrightarrow> eq b a"
    and eq_trans: "eq a b \<Longrightarrow> eq b c \<Longrightarrow> eq a c"
begin

lemma eq_left: "eq k k' \<Longrightarrow> eq a k \<longleftrightarrow> eq a k'"
  using eq_sym eq_trans by blast

lemma eq_common: "eq a k \<Longrightarrow> eq a k' \<Longrightarrow> eq k k'"
  using eq_sym eq_trans by blast

lemma find_cong: "eq k k' \<Longrightarrow> um_find eq k m = um_find eq k' m"
  by (induction m) (auto simp: eq_left [of k k'])

lemma find_emplace_same:
  "eq k k \<Longrightarrow> um_find eq k (fst (um_emplace eq k v m)) =
     (case um_find eq k m of None \<Rightarrow> Some v | Some w \<Rightarrow> Some w)"
  by (auto simp: um_emplace_def um_find_append split: option.split)

lemma find_emplace_other:
  "\<not> eq k k' \<Longrightarrow> um_find eq k' (fst (um_emplace eq k v m)) = um_find eq k' m"
  by (auto simp: um_emplace_def um_find_append split: option.split)

lemma find_emplace_kept:
  "um_find eq k' m = Some w \<Longrightarrow> um_find eq k' (fst (um_emplace eq k v m)) = Some w"
  by (auto simp: um_emplace_def um_find_append split: option.split)

lemma emplace_irreflexive: "\<not> eq k k \<Longrightarrow> um_emplace eq k v m = (m @ [(k, v)], True)"
proof -
  assume "\<not> eq k k"
  then have "um_find eq k m = None"
    by (auto simp: um_find_None_iff intro: eq_trans eq_sym)
  then show ?thesis by (simp add: um_emplace_def)
qed

lemma index_cong: "eq k k' \<Longrightarrow> um_index eq k m = um_index eq k' m"
  by (induction m) (auto simp: eq_left [of k k'])

lemma find_irreflexive: "\<not> eq k k \<Longrightarrow> um_find eq k m = None"
  by (auto simp: um_find_None_iff intro: eq_trans eq_sym)

end

interpretation eq_key: key_equality "(=)"
  by unfold_locales auto

end
