(* ===== verification/Easy_Alias.thy ===== *)
theory Easy_Alias
  imports Easy_Prelude
begin

text \<open>
  The alias tracer of the compiler plugin (\<open>pass/MayAliasTracer.h\<close>, \<open>pass/MayAliasTracer.cpp\<close>): which
  functions and global variables may a value handed to \<open>easy::jit\<close> refer to.

  The values of a module are numbered; \<open>node\<close> gives the kind of a value with the operands the tracer
  looks at, \<open>users\<close> the values that use it. The two mutually recursive methods follow the value's sources
  (\<open>mayAliasWithLoadedValues\<close>) and what is stored into it (\<open>mayAliasWithStoredValues\<close>); both mark what they
  have seen and the cycles of a module end there. The model counts the depth of the recursion with fuel,
  and the result \<open>None\<close> is an exhausted count: \<open>tracer_total\<close> shows that a depth of twice the number of
  values is always enough.
\<close>

datatype value_node =
    NFunction
  | NGlobalVariable "nat option"
  | NPHI "nat list"
  | NSelect nat nat nat
  | NAlloca
  | NGetElementPtr nat
  | NBitCast nat
  | NConstGetElementPtr nat
  | NConstBitCast nat
  | NConstExpr "nat list"
  | NConstantArray "nat list"
  | NStore nat nat
  | NMemcpy nat nat
  | NCall nat "nat list"
  | NOther "nat list"

record value_graph =
  node :: "nat \<Rightarrow> value_node"
  users :: "nat \<Rightarrow> nat list"

record MayAliasTracer =
  Loaded :: "nat set"
  Stored :: "nat set"
  GOs :: "nat set"

definition isGlobalObject :: "value_graph \<Rightarrow> nat \<Rightarrow> bool" where
  "isGlobalObject g V = (case node g V of NFunction \<Rightarrow> True | NGlobalVariable i \<Rightarrow> True | _ \<Rightarrow> False)"

definition note_global :: "value_graph \<Rightarrow> nat \<Rightarrow> MayAliasTracer \<Rightarrow> MayAliasTracer" where
  "note_global g V T = (if isGlobalObject g V then T\<lparr>GOs := insert V (GOs T)\<rparr> else T)"

fun forO :: "('a \<Rightarrow> 's \<Rightarrow> 's option) \<Rightarrow> 'a list \<Rightarrow> 's \<Rightarrow> 's option" where
  "forO f [] s = Some s"
| "forO f (x # xs) s = Option.bind (f x s) (forO f xs)"

lemma forO_cong [fundef_cong]:
  "xs = ys \<Longrightarrow> s = t \<Longrightarrow> (\<And>x u. x \<in> set ys \<Longrightarrow> f x u = g x u) \<Longrightarrow> forO f xs s = forO g ys t"
proof (induction ys arbitrary: xs s t)
  case (Cons y ys)
  then have "forO f ys = forO g ys" by (intro ext) simp
  with Cons.prems show ?case by simp
qed simp

fun mayAliasWithStoredValues :: "nat \<Rightarrow> value_graph \<Rightarrow> nat \<Rightarrow> MayAliasTracer \<Rightarrow> MayAliasTracer option"
  and mayAliasWithLoadedValues :: "nat \<Rightarrow> value_graph \<Rightarrow> nat \<Rightarrow> MayAliasTracer \<Rightarrow> MayAliasTracer option" where
  "mayAliasWithStoredValues 0 g V T = None"
| "mayAliasWithStoredValues (Suc n) g V T =
     (if V \<in> Stored T then Some T
      else let T1 = note_global g V (T\<lparr>Stored := insert V (Stored T)\<rparr>)
           in case node g V of
                NMemcpy dst src \<Rightarrow> mayAliasWithLoadedValues n g src T1
              | NStore val pt \<Rightarrow> mayAliasWithLoadedValues n g val T1
              | NAlloca \<Rightarrow> forO (mayAliasWithStoredValues n g) (users g V) T1
              | NGetElementPtr p \<Rightarrow> forO (mayAliasWithStoredValues n g) (users g V) T1
              | NBitCast p \<Rightarrow> forO (mayAliasWithStoredValues n g) (users g V) T1
              | _ \<Rightarrow> Some T1)"
| "mayAliasWithLoadedValues 0 g V T = None"
| "mayAliasWithLoadedValues (Suc n) g V T =
     (if V \<in> Loaded T then Some T
      else let T1 = note_global g V (T\<lparr>Loaded := insert V (Loaded T)\<rparr>)
           in case node g V of
                NPHI ops \<Rightarrow> forO (mayAliasWithLoadedValues n g) ops T1
              | NSelect c t f \<Rightarrow>
                  Option.bind (mayAliasWithLoadedValues n g t T1) (mayAliasWithLoadedValues n g f)
              | NAlloca \<Rightarrow> mayAliasWithStoredValues n g V T1
              | NGetElementPtr p \<Rightarrow> mayAliasWithLoadedValues n g p T1
              | NBitCast p \<Rightarrow> mayAliasWithLoadedValues n g p T1
              | NConstGetElementPtr p \<Rightarrow> mayAliasWithLoadedValues n g p T1
              | NConstBitCast p \<Rightarrow> mayAliasWithLoadedValues n g p T1
              | NGlobalVariable init \<Rightarrow>
                  Option.bind (case init of Some i \<Rightarrow> mayAliasWithLoadedValues n g i T1 | None \<Rightarrow> Some T1)
                    (mayAliasWithStoredValues n g V)
              | NConstantArray ops \<Rightarrow> forO (mayAliasWithLoadedValues n g) ops T1
              | _ \<Rightarrow> Some T1)"

definition MayAliasTracer_new :: "nat \<Rightarrow> value_graph \<Rightarrow> nat \<Rightarrow> MayAliasTracer option" where
  "MayAliasTracer_new n g V =
     mayAliasWithLoadedValues n g V \<lparr>Loaded = {}, Stored = {}, GOs = {}\<rparr>"

definition tracer_count :: "MayAliasTracer \<Rightarrow> nat \<Rightarrow> bool" where
  "tracer_count T GO \<longleftrightarrow> GO \<in> GOs T"

subsection \<open>The relation the tracer computes\<close>

text \<open>
  \<open>VLoad v\<close> is the value \<open>v\<close> as a source, \<open>VStored v\<close> as a place that is stored to. \<open>alias_step\<close> says what one visit
  leads to; the tracer collects the global objects among everything that can be reached.
\<close>

datatype visit = VLoad nat | VStored nat

inductive alias_step :: "value_graph \<Rightarrow> visit \<Rightarrow> visit \<Rightarrow> bool" for g where
  phi: "node g v = NPHI ops \<Longrightarrow> w \<in> set ops \<Longrightarrow> alias_step g (VLoad v) (VLoad w)"
| select_true: "node g v = NSelect c t f \<Longrightarrow> alias_step g (VLoad v) (VLoad t)"
| select_false: "node g v = NSelect c t f \<Longrightarrow> alias_step g (VLoad v) (VLoad f)"
| alloca: "node g v = NAlloca \<Longrightarrow> alias_step g (VLoad v) (VStored v)"
| gep: "node g v = NGetElementPtr p \<Longrightarrow> alias_step g (VLoad v) (VLoad p)"
| bitcast: "node g v = NBitCast p \<Longrightarrow> alias_step g (VLoad v) (VLoad p)"
| const_gep: "node g v = NConstGetElementPtr p \<Longrightarrow> alias_step g (VLoad v) (VLoad p)"
| const_bitcast: "node g v = NConstBitCast p \<Longrightarrow> alias_step g (VLoad v) (VLoad p)"
| initializer: "node g v = NGlobalVariable (Some i) \<Longrightarrow> alias_step g (VLoad v) (VLoad i)"
| variable: "node g v = NGlobalVariable init \<Longrightarrow> alias_step g (VLoad v) (VStored v)"
| array: "node g v = NConstantArray ops \<Longrightarrow> w \<in> set ops \<Longrightarrow> alias_step g (VLoad v) (VLoad w)"
| memcpy: "node g v = NMemcpy dst src \<Longrightarrow> alias_step g (VStored v) (VLoad src)"
| store: "node g v = NStore val pt \<Longrightarrow> alias_step g (VStored v) (VLoad val)"
| alloca_user: "node g v = NAlloca \<Longrightarrow> u \<in> set (users g v) \<Longrightarrow> alias_step g (VStored v) (VStored u)"
| gep_user: "node g v = NGetElementPtr p \<Longrightarrow> u \<in> set (users g v) \<Longrightarrow> alias_step g (VStored v) (VStored u)"
| bitcast_user: "node g v = NBitCast p \<Longrightarrow> u \<in> set (users g v) \<Longrightarrow> alias_step g (VStored v) (VStored u)"

inductive_simps alias_step_L: "alias_step g (VLoad v) x"
inductive_simps alias_step_S: "alias_step g (VStored v) x"

fun value_of :: "visit \<Rightarrow> nat" where
  "value_of (VLoad v) = v"
| "value_of (VStored v) = v"

definition visited :: "MayAliasTracer \<Rightarrow> visit set" where
  "visited T = VLoad ` Loaded T \<union> VStored ` Stored T"

definition mark :: "value_graph \<Rightarrow> visit \<Rightarrow> MayAliasTracer \<Rightarrow> MayAliasTracer" where
  "mark g x T = (case x of
     VLoad v \<Rightarrow> note_global g v (T\<lparr>Loaded := insert v (Loaded T)\<rparr>)
   | VStored v \<Rightarrow> note_global g v (T\<lparr>Stored := insert v (Stored T)\<rparr>))"

fun next_visits :: "value_graph \<Rightarrow> visit \<Rightarrow> visit list" where
  "next_visits g (VLoad v) = (case node g v of
       NPHI ops \<Rightarrow> map VLoad ops
     | NSelect c t f \<Rightarrow> [VLoad t, VLoad f]
     | NAlloca \<Rightarrow> [VStored v]
     | NGetElementPtr p \<Rightarrow> [VLoad p]
     | NBitCast p \<Rightarrow> [VLoad p]
     | NConstGetElementPtr p \<Rightarrow> [VLoad p]
     | NConstBitCast p \<Rightarrow> [VLoad p]
     | NGlobalVariable (Some i) \<Rightarrow> [VLoad i, VStored v]
     | NGlobalVariable None \<Rightarrow> [VStored v]
     | NConstantArray ops \<Rightarrow> map VLoad ops
     | _ \<Rightarrow> [])"
| "next_visits g (VStored v) = (case node g v of
       NMemcpy dst src \<Rightarrow> [VLoad src]
     | NStore val pt \<Rightarrow> [VLoad val]
     | NAlloca \<Rightarrow> map VStored (users g v)
     | NGetElementPtr p \<Rightarrow> map VStored (users g v)
     | NBitCast p \<Rightarrow> map VStored (users g v)
     | _ \<Rightarrow> [])"

lemma next_visits_step: "y \<in> set (next_visits g x) \<longleftrightarrow> alias_step g x y"
  by (cases x) (auto simp: alias_step_L alias_step_S split: value_node.splits option.splits)

fun trace :: "nat \<Rightarrow> value_graph \<Rightarrow> visit \<Rightarrow> MayAliasTracer \<Rightarrow> MayAliasTracer option" where
  "trace 0 g x T = None"
| "trace (Suc n) g x T =
     (if x \<in> visited T then Some T else forO (trace n g) (next_visits g x) (mark g x T))"

lemma forO_map: "forO f (map h xs) s = forO (\<lambda>x. f (h x)) xs s"
  by (induction xs arbitrary: s) (auto split: Option.bind_split)

lemma forO_single: "forO f [x] s = f x s"
  by (cases "f x s") simp_all

lemma forO_pair: "forO f [x, y] s = Option.bind (f x s) (f y)"
proof -
  have "forO f [y] = f y" by (rule ext) (rule forO_single)
  then show ?thesis by simp
qed

lemma methods_are_trace:
  "mayAliasWithStoredValues n g v T = trace n g (VStored v) T"
  "mayAliasWithLoadedValues n g v T = trace n g (VLoad v) T"
proof (induction n arbitrary: v T)
  case (Suc n)
  {
    case 1
    have "mayAliasWithStoredValues n g = (\<lambda>v. trace n g (VStored v))" "mayAliasWithLoadedValues n g = (\<lambda>v. trace n g (VLoad v))"
      using Suc by (auto simp: fun_eq_iff)
    then show ?case
      by (auto simp: visited_def mark_def Let_def forO_map forO_single simp del: forO.simps(2)
          split: value_node.split)
  next
    case 2
    have "mayAliasWithStoredValues n g = (\<lambda>v. trace n g (VStored v))" "mayAliasWithLoadedValues n g = (\<lambda>v. trace n g (VLoad v))"
      using Suc by (auto simp: fun_eq_iff)
    then show ?case
      by (auto simp: visited_def mark_def Let_def forO_map forO_single forO_pair simp del: forO.simps(2)
          split: value_node.split option.split)
  }
qed simp_all

subsection \<open>What a visit adds\<close>

definition traced :: "value_graph \<Rightarrow> visit list \<Rightarrow> MayAliasTracer \<Rightarrow> MayAliasTracer \<Rightarrow> bool" where
  "traced g xs T T' \<longleftrightarrow> visited T \<subseteq> visited T' \<and> set xs \<subseteq> visited T' \<and>
     (\<forall>y \<in> visited T' - visited T. (\<exists>x \<in> set xs. (alias_step g)\<^sup>*\<^sup>* x y) \<and>
        (\<forall>z. alias_step g y z \<longrightarrow> z \<in> visited T')) \<and>
     GOs T' = GOs T \<union> {v \<in> value_of ` (visited T' - visited T). isGlobalObject g v}"

lemma tracedD:
  assumes "traced g xs T T'"
  shows "visited T \<subseteq> visited T'" and "set xs \<subseteq> visited T'"
    and "y \<in> visited T' - visited T \<Longrightarrow> \<exists>x \<in> set xs. (alias_step g)\<^sup>*\<^sup>* x y"
    and "y \<in> visited T' - visited T \<Longrightarrow> alias_step g y z \<Longrightarrow> z \<in> visited T'"
    and "GOs T' = GOs T \<union> {v \<in> value_of ` (visited T' - visited T). isGlobalObject g v}"
  using assms unfolding traced_def by blast+

lemma tracedI:
  assumes "visited T \<subseteq> visited T'" and "set xs \<subseteq> visited T'"
    and "\<And>y. y \<in> visited T' - visited T \<Longrightarrow> \<exists>x \<in> set xs. (alias_step g)\<^sup>*\<^sup>* x y"
    and "\<And>y z. y \<in> visited T' - visited T \<Longrightarrow> alias_step g y z \<Longrightarrow> z \<in> visited T'"
    and "GOs T' = GOs T \<union> {v \<in> value_of ` (visited T' - visited T). isGlobalObject g v}"
  shows "traced g xs T T'"
  using assms unfolding traced_def by blast

lemma visited_mark [simp]: "visited (mark g x T) = insert x (visited T)"
  by (cases x) (auto simp: visited_def mark_def note_global_def)

lemma GOs_mark [simp]:
  "GOs (mark g x T) = (if isGlobalObject g (value_of x) then insert (value_of x) (GOs T) else GOs T)"
  by (cases x) (auto simp: mark_def note_global_def)

lemma traced_refl: "set xs \<subseteq> visited T \<Longrightarrow> traced g xs T T"
  by (simp add: traced_def)

lemma traced_forO:
  assumes "\<And>x T T'. x \<in> set xs \<Longrightarrow> f x T = Some T' \<Longrightarrow> traced g [x] T T'"
  shows "forO f xs T = Some T' \<Longrightarrow> traced g xs T T'"
  using assms
proof (induction xs arbitrary: T)
  case (Cons x xs)
  then obtain T1 where T1: "f x T = Some T1" "forO f xs T1 = Some T'" by (auto simp: bind_eq_Some_conv)
  have a: "traced g [x] T T1" using Cons.prems(2) T1(1) by simp
  have b: "traced g xs T1 T'" using Cons.IH [OF T1(2)] Cons.prems(2) by simp
  note a' = tracedD [OF a] and b' = tracedD [OF b]
  have new: "visited T' - visited T = (visited T1 - visited T) \<union> (visited T' - visited T1)"
    using a'(1) b'(1) by blast
  show ?case
  proof (rule tracedI)
    show "visited T \<subseteq> visited T'" "set (x # xs) \<subseteq> visited T'" using a'(1,2) b'(1,2) by auto
    show "\<exists>u \<in> set (x # xs). (alias_step g)\<^sup>*\<^sup>* u y" if "y \<in> visited T' - visited T" for y
      using that a'(3) [of y] b'(3) [of y] unfolding new by auto
    show "z \<in> visited T'" if "y \<in> visited T' - visited T" "alias_step g y z" for y z
      using that a'(4) [of y z] b'(1) b'(4) [of y z] unfolding new by blast
    show "GOs T' = GOs T \<union> {v \<in> value_of ` (visited T' - visited T). isGlobalObject g v}"
      unfolding b'(5) a'(5) new by blast
  qed
qed (simp add: traced_def)

lemma traced_node:
  assumes "x \<notin> visited T" "traced g (next_visits g x) (mark g x T) T'"
  shows "traced g [x] T T'"
proof -
  note t = tracedD [OF assms(2)]
  have new: "visited T' - visited T = insert x (visited T' - visited (mark g x T))"
    using assms(1) t(1) by auto
  show ?thesis
  proof (rule tracedI)
    show "visited T \<subseteq> visited T'" "set [x] \<subseteq> visited T'" using t(1) by auto
    show "\<exists>u \<in> set [x]. (alias_step g)\<^sup>*\<^sup>* u y" if y: "y \<in> visited T' - visited T" for y
    proof (cases "y = x")
      case False
      with y new t(3) obtain u where "u \<in> set (next_visits g x)" "(alias_step g)\<^sup>*\<^sup>* u y" by blast
      then show ?thesis by (auto simp: next_visits_step intro: converse_rtranclp_into_rtranclp)
    qed simp
    show "z \<in> visited T'" if "y \<in> visited T' - visited T" "alias_step g y z" for y z
    proof (cases "y = x")
      case True
      with that(2) t(2) next_visits_step show ?thesis by blast
    next
      case False
      with that new t(4) show ?thesis by blast
    qed
    show "GOs T' = GOs T \<union> {v \<in> value_of ` (visited T' - visited T). isGlobalObject g v}"
      unfolding t(5) new by auto
  qed
qed

lemma trace_traced: "trace n g x T = Some T' \<Longrightarrow> traced g [x] T T'"
proof (induction n arbitrary: x T T')
  case (Suc n)
  show ?case
  proof (cases "x \<in> visited T")
    case True
    with Suc.prems show ?thesis by (simp add: traced_refl)
  next
    case False
    with Suc.prems have "forO (trace n g) (next_visits g x) (mark g x T) = Some T'" by simp
    from traced_forO [OF _ this] Suc.IH have "traced g (next_visits g x) (mark g x T) T'" by blast
    with False show ?thesis by (rule traced_node)
  qed
qed simp

lemma trace_enough:
  assumes "finite U" and closed: "\<And>y z. y \<in> U \<Longrightarrow> alias_step g y z \<Longrightarrow> z \<in> U"
  shows "x \<in> U \<Longrightarrow> card (U - visited T) < n \<Longrightarrow> \<exists>T'. trace n g x T = Some T'"
proof (induction n arbitrary: x T)
  case (Suc n)
  have loop: "set xs \<subseteq> U \<Longrightarrow> card (U - visited T) < n \<Longrightarrow> \<exists>T'. forO (trace n g) xs T = Some T'" for xs T
  proof (induction xs arbitrary: T)
    case (Cons y ys)
    then obtain T1 where T1: "trace n g y T = Some T1" using Suc.IH [of y T] by auto
    then have "U - visited T1 \<subseteq> U - visited T" using tracedD(1) [OF trace_traced] by blast
    then have "card (U - visited T1) < n"
      using Cons.prems(2) card_mono [of "U - visited T" "U - visited T1"] assms(1) by auto
    with Cons T1 show ?case by auto
  qed simp
  show ?case
  proof (cases "x \<in> visited T")
    case False
    have less: "U - visited (mark g x T) = (U - visited T) - {x}" by auto
    have "card (U - visited (mark g x T)) < card (U - visited T)"
      unfolding less using False Suc.prems(1) assms(1) by (intro card_Diff1_less) auto
    then have "card (U - visited (mark g x T)) < n" using Suc.prems(2) by simp
    moreover have "set (next_visits g x) \<subseteq> U" using closed [OF Suc.prems(1)] next_visits_step by blast
    ultimately show ?thesis using False loop by simp
  qed simp
qed simp

definition alias_reaches :: "value_graph \<Rightarrow> nat \<Rightarrow> nat \<Rightarrow> bool" where
  "alias_reaches g V GO \<longleftrightarrow> (\<exists>y. (alias_step g)\<^sup>*\<^sup>* (VLoad V) y \<and> value_of y = GO)"

lemma new_tracer_reaches:
  assumes "MayAliasTracer_new n g V = Some T"
  shows "tracer_count T GO \<longleftrightarrow> isGlobalObject g GO \<and> alias_reaches g V GO"
proof -
  let ?T0 = "\<lparr>Loaded = {}, Stored = {}, GOs = {}\<rparr>"
  have none: "visited ?T0 = {}" by (simp add: visited_def)
  from assms have "traced g [VLoad V] ?T0 T"
    unfolding MayAliasTracer_new_def methods_are_trace by (rule trace_traced)
  then have start: "VLoad V \<in> visited T"
    and from': "\<And>y. y \<in> visited T \<Longrightarrow> (alias_step g)\<^sup>*\<^sup>* (VLoad V) y"
    and step: "\<And>y z. y \<in> visited T \<Longrightarrow> alias_step g y z \<Longrightarrow> z \<in> visited T"
    and gos: "GOs T = {v \<in> value_of ` visited T. isGlobalObject g v}"
    unfolding traced_def none by auto
  have "y \<in> visited T" if "(alias_step g)\<^sup>*\<^sup>* (VLoad V) y" for y
    using that by (induction rule: rtranclp_induct) (auto intro: start step)
  with from' gos show ?thesis by (auto simp: tracer_count_def alias_reaches_def)
qed

lemma tracer_total:
  assumes "\<forall>v. alias_reaches g V v \<longrightarrow> v < N" and "2 * N < n"
  shows "\<exists>T. MayAliasTracer_new n g V = Some T"
proof -
  let ?U = "{y. (alias_step g)\<^sup>*\<^sup>* (VLoad V) y}"
  have sub: "?U \<subseteq> VLoad ` {..<N} \<union> VStored ` {..<N}"
  proof
    fix y assume "y \<in> ?U"
    then have "value_of y < N" using assms(1) by (auto simp: alias_reaches_def)
    then show "y \<in> VLoad ` {..<N} \<union> VStored ` {..<N}" by (cases y) auto
  qed
  then have fin: "finite ?U" by (rule finite_subset) simp
  have "card ?U \<le> card (VLoad ` {..<N} \<union> VStored ` {..<N})" using sub by (intro card_mono) auto
  also have "\<dots> \<le> card (VLoad ` {..<N}) + card (VStored ` {..<N})" by (rule card_Un_le)
  also have "\<dots> \<le> 2 * N" using card_image_le [of "{..<N}" VLoad] card_image_le [of "{..<N}" VStored] by simp
  finally have "card (?U - visited \<lparr>Loaded = {}, Stored = {}, GOs = {}\<rparr>) < n"
    using assms(2) by (simp add: visited_def)
  with trace_enough [OF fin, of g "VLoad V"] show ?thesis
    unfolding MayAliasTracer_new_def methods_are_trace by (auto intro: rtranclp.rtrancl_into_rtrancl)
qed

text \<open>
  C19. The alias tracer ends and is exact: when only \<open>N\<close> values can be reached, a recursion depth above
  \<open>2 * N\<close> suffices, whatever cycles the module has, and the tracer then answers yes for exactly the functions
  and global variables that the tracing relation leads to from the given value.
\<close>
theorem MayAliasTracer_exact:
  assumes "\<forall>v. alias_reaches g V v \<longrightarrow> v < N" and "2 * N < n"
  shows "\<exists>T. MayAliasTracer_new n g V = Some T \<and>
    (\<forall>GO. tracer_count T GO \<longleftrightarrow> isGlobalObject g GO \<and> alias_reaches g V GO)"
  using tracer_total [OF assms] new_tracer_reaches by blast

definition sample_graph :: value_graph where
  "sample_graph = \<lparr>node = (\<lambda>v. if v = 0 then NAlloca else if v = 1 then NBitCast 0 else if v = 2 then NStore 3 1
       else if v = 3 then NFunction else NOther []),
     users = (\<lambda>v. if v = 0 then [1] else if v = 1 then [2] else [])\<rparr>"

theorem MayAliasTracer_exact_witness:
  "\<exists>T. MayAliasTracer_new 9 sample_graph 0 = Some T \<and> tracer_count T 3 \<and> \<not> tracer_count T 0"
proof -
  have below: "value_of y < 4" if "(alias_step sample_graph)\<^sup>*\<^sup>* (VLoad 0) y" for y
    using that
    by (induction rule: rtranclp_induct) (auto simp: sample_graph_def elim!: alias_step.cases split: if_splits)
  have step: "alias_step sample_graph (VLoad 0) (VStored 0)" "alias_step sample_graph (VStored 0) (VStored 1)"
      "alias_step sample_graph (VStored 1) (VStored 2)" "alias_step sample_graph (VStored 2) (VLoad 3)"
    by (auto simp: alias_step_L alias_step_S sample_graph_def)
  then have "(alias_step sample_graph)\<^sup>*\<^sup>* (VLoad 0) (VLoad 3)" by (meson r_into_rtranclp rtranclp_trans)
  then have "alias_reaches sample_graph 0 3" unfolding alias_reaches_def by force
  moreover have "isGlobalObject sample_graph 3" "\<not> isGlobalObject sample_graph 0"
    by (simp_all add: isGlobalObject_def sample_graph_def)
  ultimately show ?thesis
    using MayAliasTracer_exact [of sample_graph 0 4 9] below by (auto simp: alias_reaches_def)
qed

end
