(* ===== verification/Easy_Context.thy ===== *)
theory Easy_Context
  imports Easy_Prelude
begin

unbundle bit_operations_syntax

text \<open>
  \<open>include/easy/runtime/Context.h\<close>, \<open>runtime/Context.cpp\<close> and the part of \<open>Function\<close> they use: the
  bound arguments of a specialization, the context that collects them, its comparison and its hash.

  A \<open>double\<close> is its IEEE 754 bit pattern, and \<open>double_eq\<close> is the language's \<open>==\<close> on it (a NaN is
  equal to nothing, the two zeros are equal). The object a \<open>ModuleArgument\<close> refers to is compared by
  the address of its LLVM module, as \<open>Function::operator==\<close> does. The values of \<open>std::hash\<close> on the
  standard types are not specified by the language; they are the parameter \<open>H\<close>, and
  \<open>std_hash_ok H\<close> is the one thing the standard requires of them.
\<close>

subsection \<open>Doubles\<close>

definition double_magnitude :: "64 word \<Rightarrow> 64 word" where
  "double_magnitude d = d AND 0x7FFFFFFFFFFFFFFF"

definition double_nan :: "64 word \<Rightarrow> bool" where
  "double_nan d \<longleftrightarrow> double_magnitude d > 0x7FF0000000000000"

definition double_eq :: "64 word \<Rightarrow> 64 word \<Rightarrow> bool" where
  "double_eq a b \<longleftrightarrow> \<not> double_nan a \<and> \<not> double_nan b \<and>
     (a = b \<or> double_magnitude a = 0 \<and> double_magnitude b = 0)"

subsection \<open>Compiled functions, as the context sees them\<close>

record 'm Function =
  Address :: ptr
  M_ptr :: ptr
  M_obj :: 'm

definition Function_eq :: "('m, 'a) Function_scheme \<Rightarrow> ('m, 'b) Function_scheme \<Rightarrow> bool" where
  "Function_eq this other \<longleftrightarrow> M_ptr this = M_ptr other"

subsection \<open>Arguments\<close>

datatype ArgumentKind = AK_Forward | AK_Int | AK_Float | AK_Ptr | AK_Struct | AK_Module

datatype 'm Argument =
    ForwardArgument uint
  | IntArgument "64 word"
  | FloatArgument "64 word"
  | PtrArgument ptr
  | StructArgument "byte list"
  | ModuleArgument "'m Function"

fun kind :: "'m Argument \<Rightarrow> ArgumentKind" where
  "kind (ForwardArgument _) = AK_Forward"
| "kind (IntArgument _) = AK_Int"
| "kind (FloatArgument _) = AK_Float"
| "kind (PtrArgument _) = AK_Ptr"
| "kind (StructArgument _) = AK_Struct"
| "kind (ModuleArgument _) = AK_Module"

fun compareWithSameType :: "'m Argument \<Rightarrow> 'm Argument \<Rightarrow> bool" where
  "compareWithSameType (ForwardArgument a) (ForwardArgument b) = (a = b)"
| "compareWithSameType (IntArgument a) (IntArgument b) = (a = b)"
| "compareWithSameType (FloatArgument a) (FloatArgument b) = double_eq a b"
| "compareWithSameType (PtrArgument a) (PtrArgument b) = (a = b)"
| "compareWithSameType (StructArgument a) (StructArgument b) = (a = b)"
| "compareWithSameType (ModuleArgument f) (ModuleArgument g) = Function_eq f g"
| "compareWithSameType _ _ = False"

definition Argument_eq :: "'m Argument \<Rightarrow> 'm Argument \<Rightarrow> bool" where
  "Argument_eq this Other \<longleftrightarrow> kind this = kind Other \<and> compareWithSameType this Other"

fun as_Forward :: "'m Argument \<Rightarrow> uint option" where
  "as_Forward (ForwardArgument n) = Some n"
| "as_Forward _ = None"

subsection \<open>The hash of an argument\<close>

record std_hash =
  hash_unsigned :: "uint \<Rightarrow> size_t"
  hash_int64 :: "64 word \<Rightarrow> size_t"
  hash_double :: "64 word \<Rightarrow> size_t"
  hash_pointer :: "ptr \<Rightarrow> size_t"

definition std_hash_ok :: "std_hash \<Rightarrow> bool" where
  "std_hash_ok H \<longleftrightarrow> (\<forall>a b. double_eq a b \<longrightarrow> hash_double H a = hash_double H b)"

definition struct_hash :: "std_hash \<Rightarrow> byte list \<Rightarrow> size_t" where
  "struct_hash H Data = fold (\<lambda>c R. R XOR hash_int64 H (scast c)) Data 0"

definition Function_hash :: "std_hash \<Rightarrow> 'm Function \<Rightarrow> size_t" where
  "Function_hash H F = hash_pointer H (M_ptr F)"

fun Argument_hash :: "std_hash \<Rightarrow> 'm Argument \<Rightarrow> size_t" where
  "Argument_hash H (ForwardArgument n) = hash_unsigned H n"
| "Argument_hash H (IntArgument n) = hash_int64 H n"
| "Argument_hash H (FloatArgument d) = hash_double H d"
| "Argument_hash H (PtrArgument p) = hash_pointer H p"
| "Argument_hash H (StructArgument bs) = struct_hash H bs"
| "Argument_hash H (ModuleArgument f) = Function_hash H f"

subsection \<open>The serialized argument buffer\<close>

definition word_le :: "byte list \<Rightarrow> nat" where
  "word_le bs = foldr (\<lambda>b n. unat b + 256 * n) bs 0"

definition serialized_arg :: "byte list \<Rightarrow> byte list result" where
  "serialized_arg serialized =
     (if length serialized < 4 then Inl UndefinedBehaviour
      else let n = word_le (take 4 serialized); data = drop 4 serialized
           in if length data < n then Inl UndefinedBehaviour else Inr (take n data))"

subsection \<open>The context\<close>

record RawBytes =
  bytes :: "byte list"
  reserved_regs :: "string list"

record 'm Context =
  ArgumentMapping :: "'m Argument list"
  OptLevel :: uint
  OptSize :: uint
  DebugFile :: string
  ArgumentLayout :: "ptr list"
  CtxRawBytes :: RawBytes

definition Context_new :: "'m Context" where
  "Context_new = \<lparr>ArgumentMapping = [], OptLevel = 2, OptSize = 0, DebugFile = [],
     ArgumentLayout = [], CtxRawBytes = \<lparr>bytes = [], reserved_regs = []\<rparr>\<rparr>"

definition setArg :: "'m Argument \<Rightarrow> 'm Context \<Rightarrow> 'm Context" where
  "setArg a C = C\<lparr>ArgumentMapping := ArgumentMapping C @ [a]\<rparr>"

definition setParameterIndex :: "uint \<Rightarrow> 'm Context \<Rightarrow> 'm Context" where
  "setParameterIndex param_idx C = setArg (ForwardArgument param_idx) C"

definition setParameterInt :: "64 word \<Rightarrow> 'm Context \<Rightarrow> 'm Context" where
  "setParameterInt val C = setArg (IntArgument val) C"

definition setParameterFloat :: "64 word \<Rightarrow> 'm Context \<Rightarrow> 'm Context" where
  "setParameterFloat val C = setArg (FloatArgument val) C"

definition setParameterPointer :: "ptr \<Rightarrow> 'm Context \<Rightarrow> 'm Context" where
  "setParameterPointer val C = setArg (PtrArgument val) C"

definition setParameterStruct :: "byte list \<Rightarrow> nat \<Rightarrow> 'm Context \<Rightarrow> 'm Context result" where
  "setParameterStruct mem n C =
     (if n \<le> length mem then Inr (setArg (StructArgument (take n mem)) C)
      else Inl UndefinedBehaviour)"

definition setParameterModule :: "'m Function \<Rightarrow> 'm Context \<Rightarrow> 'm Context" where
  "setParameterModule F C = setArg (ModuleArgument F) C"

definition setArgumentLayout :: "ptr \<Rightarrow> 'm Context \<Rightarrow> 'm Context" where
  "setArgumentLayout lid C = C\<lparr>ArgumentLayout := ArgumentLayout C @ [lid]\<rparr>"

definition getLayout :: "'m Context \<Rightarrow> ptr list" where
  "getLayout C = ArgumentLayout C"

definition setParameterTypedPointer :: "ptr \<Rightarrow> 'm Context \<Rightarrow> 'm Context" where
  "setParameterTypedPointer p C = setParameterPointer p C"

definition setParameterTypedStruct :: "byte list \<Rightarrow> nat \<Rightarrow> 'm Context \<Rightarrow> 'm Context result" where
  "setParameterTypedStruct mem sizeof_T C = setParameterStruct mem sizeof_T C"

definition setOptLevel :: "uint \<Rightarrow> uint \<Rightarrow> 'm Context \<Rightarrow> 'm Context" where
  "setOptLevel lvl sz C = C\<lparr>OptLevel := lvl, OptSize := sz\<rparr>"

definition setRawBytes :: "RawBytes \<Rightarrow> 'm Context \<Rightarrow> 'm Context" where
  "setRawBytes raw C = C\<lparr>CtxRawBytes := raw\<rparr>"

definition setDebugFile :: "string \<Rightarrow> 'm Context \<Rightarrow> 'm Context" where
  "setDebugFile File C = C\<lparr>DebugFile := File\<rparr>"

definition getOptLevel :: "'m Context \<Rightarrow> uint \<times> uint" where
  "getOptLevel C = (OptLevel C, OptSize C)"

definition Context_size :: "'m Context \<Rightarrow> nat" where
  "Context_size C = length (ArgumentMapping C)"

definition getArgumentMapping :: "'m Context \<Rightarrow> nat \<Rightarrow> 'm Argument result" where
  "getArgumentMapping C i = nth_checked (ArgumentMapping C) i"

fun args_eq_loop :: "'m Argument list \<Rightarrow> 'm Argument list \<Rightarrow> bool" where
  "args_eq_loop (this_it # these) (other_it # others) =
     (if \<not> Argument_eq this_it other_it then False else args_eq_loop these others)"
| "args_eq_loop _ _ = True"

definition Context_eq :: "'m Context \<Rightarrow> 'm Context \<Rightarrow> bool" where
  "Context_eq this Other =
     (if getOptLevel this \<noteq> getOptLevel Other then False
      else if Context_size this \<noteq> Context_size Other then False
      else args_eq_loop (ArgumentMapping this) (ArgumentMapping Other))"

definition pair_hash :: "('a \<Rightarrow> size_t) \<Rightarrow> ('b \<Rightarrow> size_t) \<Rightarrow> 'a \<times> 'b \<Rightarrow> size_t" where
  "pair_hash hl hr s = hl (fst s) XOR hr (snd s)"

definition Context_hash :: "std_hash \<Rightarrow> 'm Context \<Rightarrow> size_t" where
  "Context_hash H C =
     fold (\<lambda>Arg h. h XOR Argument_hash H Arg) (ArgumentMapping C) 0
       XOR pair_hash (hash_unsigned H) (hash_unsigned H) (getOptLevel C)"

lemmas Context_set_defs [easy_simps] =
  setParameterIndex_def setParameterInt_def setParameterFloat_def setParameterPointer_def
  setParameterStruct_def setParameterModule_def setParameterTypedPointer_def
  setParameterTypedStruct_def setArg_def setOptLevel_def setRawBytes_def setDebugFile_def
  setArgumentLayout_def

subsection \<open>The comparison is a partial equivalence\<close>

lemma double_eq_sym: "double_eq a b \<Longrightarrow> double_eq b a"
  by (auto simp: double_eq_def)

lemma double_eq_trans: "double_eq a b \<Longrightarrow> double_eq b c \<Longrightarrow> double_eq a c"
  by (auto simp: double_eq_def)

lemma double_eq_refl_iff [simp]: "double_eq a a \<longleftrightarrow> \<not> double_nan a"
  by (auto simp: double_eq_def)

lemma compareWithSameType_kind: "compareWithSameType a b \<Longrightarrow> kind a = kind b"
  by (cases "(a, b)" rule: compareWithSameType.cases) auto

lemma Argument_eq_compare: "Argument_eq a b \<longleftrightarrow> compareWithSameType a b"
  using compareWithSameType_kind by (auto simp: Argument_eq_def)

lemma Argument_eq_sym: "Argument_eq a b \<Longrightarrow> Argument_eq b a"
  by (cases "(a, b)" rule: compareWithSameType.cases)
    (auto simp: Argument_eq_compare Function_eq_def intro: double_eq_sym)

lemma Argument_eq_trans: "Argument_eq a b \<Longrightarrow> Argument_eq b c \<Longrightarrow> Argument_eq a c"
  by (cases a; cases b; cases c)
    (auto simp: Argument_eq_compare Function_eq_def intro: double_eq_trans)

fun nan_argument :: "'m Argument \<Rightarrow> bool" where
  "nan_argument (FloatArgument d) = double_nan d"
| "nan_argument _ = False"

lemma Argument_eq_refl_iff: "Argument_eq a a \<longleftrightarrow> \<not> nan_argument a"
  by (cases a) (auto simp: Argument_eq_compare Function_eq_def)

lemma args_eq_loop_list_all2:
  "length as = length bs \<Longrightarrow> args_eq_loop as bs \<longleftrightarrow> list_all2 Argument_eq as bs"
  by (induction as bs rule: list_induct2) auto

lemma Context_eq_iff:
  "Context_eq C D \<longleftrightarrow> getOptLevel C = getOptLevel D \<and>
     list_all2 Argument_eq (ArgumentMapping C) (ArgumentMapping D)"
  by (auto simp: Context_eq_def Context_size_def args_eq_loop_list_all2 dest: list_all2_lengthD)

lemma Context_eq_refl_iff:
  "Context_eq C C \<longleftrightarrow> \<not> list_ex nan_argument (ArgumentMapping C)"
  by (auto simp: Context_eq_iff list_all2_same Argument_eq_refl_iff list_ex_iff)

interpretation Context_key: key_equality Context_eq
proof
  fix C D E :: "'m Context"
  show "Context_eq C D \<Longrightarrow> Context_eq D C"
    by (auto simp: Context_eq_iff list_all2_conv_all_nth intro: Argument_eq_sym)
  show "Context_eq C D \<Longrightarrow> Context_eq D E \<Longrightarrow> Context_eq C E"
    by (auto simp: Context_eq_iff list_all2_conv_all_nth) (blast intro: Argument_eq_trans)
qed

lemma Argument_hash_eq:
  "std_hash_ok H \<Longrightarrow> Argument_eq a b \<Longrightarrow> Argument_hash H a = Argument_hash H b"
  by (cases "(a, b)" rule: compareWithSameType.cases)
    (auto simp: Argument_eq_compare std_hash_ok_def Function_eq_def Function_hash_def)

lemma fold_hash_eq:
  "std_hash_ok H \<Longrightarrow> list_all2 Argument_eq as bs \<Longrightarrow>
     fold (\<lambda>Arg h. h XOR Argument_hash H Arg) as z = fold (\<lambda>Arg h. h XOR Argument_hash H Arg) bs z"
proof (induction as arbitrary: bs z)
  case (Cons a as)
  then obtain b bs' where "bs = b # bs'" "Argument_eq a b" "list_all2 Argument_eq as bs'"
    by (auto simp: list_all2_Cons1)
  with Cons show ?case by (simp add: Argument_hash_eq)
qed simp

text \<open>
  C27. The hash of a context respects its comparison: two contexts that compare equal have the same
  hash, whatever hash the standard library uses for its own types, as long as that hash respects
  \<open>==\<close> on \<open>double\<close>. This is what \<open>unordered_map\<close> requires of its key.
\<close>
theorem Context_hash_eq:
  assumes "std_hash_ok H" and "Context_eq C D"
  shows "Context_hash H C = Context_hash H D"
  using assms by (auto simp: Context_hash_def Context_eq_iff fold_hash_eq)

definition zero_hash_example :: std_hash where
  "zero_hash_example = \<lparr>hash_unsigned = ucast, hash_int64 = (\<lambda>x. x),
     hash_double = (\<lambda>d. if double_magnitude d = 0 then 0 else d), hash_pointer = (\<lambda>p. p)\<rparr>"

theorem Context_hash_eq_witness:
  "Context_eq (setParameterFloat 0 (setParameterInt 7 (Context_new :: unit Context)))
     (setParameterFloat 0x8000000000000000 (setParameterInt 7 (Context_new :: unit Context))) \<and>
   Context_hash zero_hash_example (setParameterFloat 0 (setParameterInt 7 (Context_new :: unit Context))) =
   Context_hash zero_hash_example
     (setParameterFloat 0x8000000000000000 (setParameterInt 7 (Context_new :: unit Context)))"
proof -
  have H: "std_hash_ok zero_hash_example"
    by (auto simp: std_hash_ok_def zero_hash_example_def double_eq_def)
  have eq: "Context_eq (setParameterFloat 0 (setParameterInt 7 (Context_new :: unit Context)))
     (setParameterFloat 0x8000000000000000 (setParameterInt 7 (Context_new :: unit Context)))"
    by (simp add: easy_simps Context_new_def Context_eq_iff getOptLevel_def Argument_eq_compare
        double_eq_def double_magnitude_def double_nan_def)
  from eq Context_hash_eq [OF H eq] show ?thesis by blast
qed

text \<open>
  The comparison of contexts is symmetric and transitive, and a context is equal to itself
  exactly when none of its bound floating-point arguments is a NaN.
\<close>
lemma Context_eq_equivalence:
  "Context_eq C D = Context_eq D C \<and>
   (\<exists>E. Context_eq C E \<and> Context_eq E D) = (Context_eq C D \<and> Context_eq C C \<and> Context_eq D D) \<and>
   Context_eq C C = (\<not> list_ex nan_argument (ArgumentMapping C))"
proof (intro conjI)
  show "Context_eq C D = Context_eq D C"
    using Context_key.eq_sym by blast
  show "(\<exists>E. Context_eq C E \<and> Context_eq E D) = (Context_eq C D \<and> Context_eq C C \<and> Context_eq D D)"
    using Context_key.eq_sym Context_key.eq_trans by blast
  show "Context_eq C C = (\<not> list_ex nan_argument (ArgumentMapping C))"
    by (rule Context_eq_refl_iff)
qed

end
