(* ===== verification/Easy_Tracker.thy ===== *)
theory Easy_Tracker
  imports Easy_Prelude
begin

text \<open>
  \<open>include/easy/runtime/BitcodeTracker.h\<close> and \<open>runtime/BitcodeTracker.cpp\<close>: the registry that the
  static constructors of the compiled program fill (\<open>easy_register\<close>, \<open>easy_register_layout\<close>) and the
  run-time compiler reads.

  The three hash maps are association lists with \<open>emplace\<close>. A \<open>GlobalMapping\<close> array is a list whose
  last entry has no name, behind a pointer that may be null. The bitcode reader of LLVM is the
  parameter \<open>parse\<close>. The locale \<open>function_registry\<close> states what the clients of the tracker rely on.
\<close>

record GlobalMapping =
  gm_Name :: "string option"
  gm_Address :: ptr

record FunctionInfo =
  fi_Name :: string
  fi_Globals :: "GlobalMapping list option"
  fi_Bitcode :: "byte list"
  fi_BitcodeLen :: nat

record LayoutInfo =
  NumFields :: nat

record BitcodeTracker =
  Functions :: "(ptr \<times> FunctionInfo) list"
  NameToAddress :: "(string \<times> ptr) list"
  Layouts :: "(ptr \<times> LayoutInfo) list"

definition TheTracker :: BitcodeTracker where
  "TheTracker = \<lparr>Functions = [], NameToAddress = [], Layouts = []\<rparr>"

definition registerFunction ::
    "ptr \<Rightarrow> string \<Rightarrow> GlobalMapping list option \<Rightarrow> byte list \<Rightarrow> nat \<Rightarrow> BitcodeTracker \<Rightarrow> BitcodeTracker" where
  "registerFunction FPtr Name Globals Bitcode BitcodeLen BT =
     BT\<lparr>Functions := fst (um_emplace (=) FPtr
           \<lparr>fi_Name = Name, fi_Globals = Globals, fi_Bitcode = Bitcode, fi_BitcodeLen = BitcodeLen\<rparr>
           (Functions BT)),
        NameToAddress := fst (um_emplace (=) Name FPtr (NameToAddress BT))\<rparr>"

definition registerLayout :: "ptr \<Rightarrow> nat \<Rightarrow> BitcodeTracker \<Rightarrow> BitcodeTracker" where
  "registerLayout lid N BT = BT\<lparr>Layouts := fst (um_emplace (=) lid \<lparr>NumFields = N\<rparr> (Layouts BT))\<rparr>"

definition hasGlobalMapping :: "BitcodeTracker \<Rightarrow> ptr \<Rightarrow> bool" where
  "hasGlobalMapping BT FPtr \<longleftrightarrow> um_find (=) FPtr (Functions BT) \<noteq> None"

definition getLayoutInfo :: "BitcodeTracker \<Rightarrow> ptr \<Rightarrow> LayoutInfo result" where
  "getLayoutInfo BT lid =
     (case um_find (=) lid (Layouts BT) of None \<Rightarrow> Inl AssertionFailure | Some i \<Rightarrow> Inr i)"

definition getAddress :: "BitcodeTracker \<Rightarrow> string \<Rightarrow> ptr" where
  "getAddress BT Name = (case um_find (=) Name (NameToAddress BT) of None \<Rightarrow> 0 | Some a \<Rightarrow> a)"

definition getNameAndGlobalMapping ::
    "BitcodeTracker \<Rightarrow> ptr \<Rightarrow> (string \<times> GlobalMapping list option) result" where
  "getNameAndGlobalMapping BT FPtr =
     (case um_find (=) FPtr (Functions BT) of
        None \<Rightarrow> Inl (Exception BitcodeNotRegistered)
      | Some Info \<Rightarrow> Inr (fi_Name Info, fi_Globals Info))"

definition getModuleWithContext ::
    "(byte list \<Rightarrow> 'm option) \<Rightarrow> BitcodeTracker \<Rightarrow> ptr \<Rightarrow> 'm result" where
  "getModuleWithContext parse BT FPtr =
     (case um_find (=) FPtr (Functions BT) of
        None \<Rightarrow> Inl (Exception BitcodeNotRegistered)
      | Some Info \<Rightarrow>
          (if length (fi_Bitcode Info) < fi_BitcodeLen Info then Inl UndefinedBehaviour
           else case parse (take (fi_BitcodeLen Info) (fi_Bitcode Info)) of
                  None \<Rightarrow> Inl (Exception (BitcodeParseError (fi_Name Info)))
                | Some M \<Rightarrow> Inr M))"

definition getModule :: "(byte list \<Rightarrow> 'm option) \<Rightarrow> BitcodeTracker \<Rightarrow> ptr \<Rightarrow> 'm result" where
  "getModule parse BT FPtr = getModuleWithContext parse BT FPtr"

text \<open>
  The calls the static constructors make, in the order the program runs them.
\<close>

datatype registration =
    easy_register ptr string "GlobalMapping list option" "byte list" nat
  | easy_register_layout ptr nat

fun run_registration :: "registration \<Rightarrow> BitcodeTracker \<Rightarrow> BitcodeTracker" where
  "run_registration (easy_register FPtr Name Globals Bitcode BitcodeLen) BT =
     registerFunction FPtr Name Globals Bitcode BitcodeLen BT"
| "run_registration (easy_register_layout lid N) BT = registerLayout lid N BT"

definition run_registrations :: "registration list \<Rightarrow> BitcodeTracker \<Rightarrow> BitcodeTracker" where
  "run_registrations rs BT = fold run_registration rs BT"

lemmas tracker_defs [easy_simps] =
  registerFunction_def registerLayout_def hasGlobalMapping_def getLayoutInfo_def getAddress_def
  getNameAndGlobalMapping_def getModuleWithContext_def getModule_def TheTracker_def um_emplace_def

subsection \<open>The interface\<close>

locale function_registry =
  fixes has :: "'t \<Rightarrow> ptr \<Rightarrow> bool"
    and name_of :: "'t \<Rightarrow> ptr \<Rightarrow> (string \<times> 'g) result"
    and module_of :: "'t \<Rightarrow> ptr \<Rightarrow> 'm result"
  assumes has_name: "has t p \<longleftrightarrow> (\<exists>n g. name_of t p = Inr (n, g))"
    and not_has_name: "\<not> has t p \<Longrightarrow> name_of t p = Inl (Exception BitcodeNotRegistered)"
    and not_has_module: "\<not> has t p \<Longrightarrow> module_of t p = Inl (Exception BitcodeNotRegistered)"
    and has_module: "has t p \<Longrightarrow> module_of t p \<noteq> Inl (Exception BitcodeNotRegistered)"
begin

lemma not_registered_iff:
  "name_of t p = Inl (Exception BitcodeNotRegistered) \<longleftrightarrow> \<not> has t p"
  "module_of t p = Inl (Exception BitcodeNotRegistered) \<longleftrightarrow> \<not> has t p"
  using has_name not_has_name not_has_module has_module by force+

lemma guarded_lookup:
  "has t p \<Longrightarrow> bindR (name_of t p) (\<lambda>(n, g). bindR (module_of t p) (\<lambda>m. Inr (f n m))) \<noteq>
     Inl (Exception BitcodeNotRegistered)"
  using has_name [of t p] has_module [of t p] by (auto simp: result_simps)

end

interpretation registry: function_registry hasGlobalMapping getNameAndGlobalMapping
    "getModuleWithContext parse" for parse
  by unfold_locales
    (auto simp: hasGlobalMapping_def getNameAndGlobalMapping_def getModuleWithContext_def
      split: option.splits if_splits)

subsection \<open>Registration and lookup\<close>

lemma find_emplace_eq:
  "um_find (=) k' (fst (um_emplace (=) k v m)) =
     (if um_find (=) k' m = None \<and> k' = k then Some v else um_find (=) k' m)"
  using eq_key.find_emplace_same [of k v m] eq_key.find_emplace_other [of k k' v m]
  by (cases "k = k'") (auto split: option.splits)

lemma run_registrations_Cons:
  "run_registrations (r # rs) BT = run_registrations rs (run_registration r BT)"
  by (simp add: run_registrations_def)

lemma run_registrations_append:
  "run_registrations (rs @ rs') BT = run_registrations rs' (run_registrations rs BT)"
  by (simp add: run_registrations_def)

lemma run_registration_info:
  "um_find (=) p (Functions BT) = Some i \<Longrightarrow> um_find (=) p (Functions (run_registration r BT)) = Some i"
  by (cases r) (auto simp: registerFunction_def registerLayout_def find_emplace_eq)

lemma run_registrations_info:
  "um_find (=) p (Functions BT) = Some i \<Longrightarrow> um_find (=) p (Functions (run_registrations rs BT)) = Some i"
  by (induction rs arbitrary: BT)
    (auto simp: run_registrations_def run_registration_info)

text \<open>What a tracker says of the functions it knows: every name leads to a registered function, every
  registered function's name is known, and no key is stored twice.\<close>

definition tracker_ok :: "BitcodeTracker \<Rightarrow> bool" where
  "tracker_ok BT \<longleftrightarrow>
     (\<forall>n p. um_find (=) n (NameToAddress BT) = Some p \<longrightarrow> hasGlobalMapping BT p) \<and>
     (\<forall>p i. um_find (=) p (Functions BT) = Some i \<longrightarrow> um_find (=) (fi_Name i) (NameToAddress BT) \<noteq> None) \<and>
     distinct (map fst (Functions BT)) \<and> distinct (map fst (NameToAddress BT)) \<and>
     distinct (map fst (Layouts BT))"

lemma um_emplace_distinct:
  "distinct (map fst m) \<Longrightarrow> distinct (map fst (fst (um_emplace (=) k v m)))"
  by (auto simp: um_emplace_def um_find_None_iff split: option.split)

lemma tracker_ok_step: "tracker_ok BT \<Longrightarrow> tracker_ok (run_registration r BT)"
proof (cases r)
  case (easy_register p n g b l)
  assume "tracker_ok BT"
  then show ?thesis
    by (auto simp: easy_register tracker_ok_def registerFunction_def hasGlobalMapping_def
        find_emplace_eq um_emplace_distinct)
next
  case (easy_register_layout lid N)
  assume "tracker_ok BT"
  then show ?thesis
    by (auto simp: easy_register_layout tracker_ok_def registerLayout_def hasGlobalMapping_def
        um_emplace_distinct)
qed

lemma tracker_ok_start: "tracker_ok TheTracker"
  by (simp add: tracker_ok_def TheTracker_def)

lemma tracker_ok_run: "tracker_ok BT \<Longrightarrow> tracker_ok (run_registrations rs BT)"
  by (induction rs arbitrary: BT) (simp_all add: run_registrations_def tracker_ok_step)

text \<open>
  The registry after any sequence of registrations: it is well formed, a name the tracker knows
  always leads to a registered function (so the lookups that follow \<open>getAddress\<close> do not throw), and what is
  recorded for a function never changes afterwards.
\<close>
lemma registrations_well_formed:
  "tracker_ok (run_registrations rs TheTracker) \<and>
   (\<forall>n. getAddress (run_registrations rs TheTracker) n \<noteq> 0 \<longrightarrow>
      hasGlobalMapping (run_registrations rs TheTracker) (getAddress (run_registrations rs TheTracker) n)) \<and>
   (\<forall>p. hasGlobalMapping (run_registrations rs TheTracker) p \<longrightarrow>
      getNameAndGlobalMapping (run_registrations (rs @ rs') TheTracker) p =
        getNameAndGlobalMapping (run_registrations rs TheTracker) p \<and>
      getModuleWithContext parse (run_registrations (rs @ rs') TheTracker) p =
        getModuleWithContext parse (run_registrations rs TheTracker) p)"
proof (intro conjI allI impI)
  let ?BT = "run_registrations rs TheTracker"
  show ok: "tracker_ok ?BT" by (rule tracker_ok_run [OF tracker_ok_start])
  show "hasGlobalMapping ?BT (getAddress ?BT n)" if "getAddress ?BT n \<noteq> 0" for n
    using ok that by (auto simp: tracker_ok_def getAddress_def split: option.splits)
  fix p assume "hasGlobalMapping ?BT p"
  then obtain i where i: "um_find (=) p (Functions ?BT) = Some i" by (auto simp: hasGlobalMapping_def)
  then have "um_find (=) p (Functions (run_registrations (rs @ rs') TheTracker)) = Some i"
    by (simp add: run_registrations_append run_registrations_info)
  with i show "getNameAndGlobalMapping (run_registrations (rs @ rs') TheTracker) p =
        getNameAndGlobalMapping ?BT p"
    and "getModuleWithContext parse (run_registrations (rs @ rs') TheTracker) p =
        getModuleWithContext parse ?BT p"
    by (simp_all add: getNameAndGlobalMapping_def getModuleWithContext_def)
qed

fun registered :: "registration \<Rightarrow> (ptr \<times> string) option" where
  "registered (easy_register p n g b l) = Some (p, n)"
| "registered (easy_register_layout lid N) = None"

definition reg_functions :: "registration list \<Rightarrow> (ptr \<times> string) list" where
  "reg_functions rs = List.map_filter registered rs"

lemma reg_functions_simps [simp]:
  "reg_functions [] = []"
  "reg_functions (easy_register p n g b l # rs) = (p, n) # reg_functions rs"
  "reg_functions (easy_register_layout lid N # rs) = reg_functions rs"
  by (simp_all add: reg_functions_def List.map_filter_simps)

lemma reg_functions_append [simp]: "reg_functions (rs @ rs') = reg_functions rs @ reg_functions rs'"
proof (induction rs)
  case (Cons r rs)
  then show ?case by (cases r) simp_all
qed simp

lemma run_registrations_other:
  "p \<notin> fst ` set (reg_functions rs) \<Longrightarrow>
     um_find (=) p (Functions (run_registrations rs BT)) = um_find (=) p (Functions BT)"
  "n \<notin> snd ` set (reg_functions rs) \<Longrightarrow>
     um_find (=) n (NameToAddress (run_registrations rs BT)) = um_find (=) n (NameToAddress BT)"
proof (induction rs arbitrary: BT)
  case (Cons r rs)
  { case 1
    then show ?case using Cons.IH(1) [of "run_registration r BT"]
      by (cases r)
        (auto simp: run_registrations_Cons registerFunction_def registerLayout_def find_emplace_eq)
  next
    case 2
    then show ?case using Cons.IH(2) [of "run_registration r BT"]
      by (cases r)
        (auto simp: run_registrations_Cons registerFunction_def registerLayout_def find_emplace_eq) }
qed (simp_all add: run_registrations_def)

lemma registered_info:
  assumes "distinct (map fst (reg_functions rs))" and "easy_register p n g b l \<in> set rs"
  shows "um_find (=) p (Functions (run_registrations rs TheTracker)) =
    Some \<lparr>fi_Name = n, fi_Globals = g, fi_Bitcode = b, fi_BitcodeLen = l\<rparr>"
proof -
  from assms(2) obtain xs ys where rs: "rs = xs @ easy_register p n g b l # ys"
    by (auto simp: in_set_conv_decomp)
  have fresh: "p \<notin> fst ` set (reg_functions xs)" "p \<notin> fst ` set (reg_functions ys)"
    using assms(1) by (auto simp: rs)
  have "um_find (=) p (Functions (run_registrations xs TheTracker)) = None"
    using run_registrations_other(1) [OF fresh(1)] by (simp add: TheTracker_def)
  then show ?thesis
    using run_registrations_other(1) [OF fresh(2)]
    by (simp add: rs run_registrations_append run_registrations_Cons registerFunction_def find_emplace_eq)
qed

lemma registered_name:
  assumes "distinct (map snd (reg_functions rs))" and "easy_register p n g b l \<in> set rs"
  shows "um_find (=) n (NameToAddress (run_registrations rs TheTracker)) = Some p"
proof -
  from assms(2) obtain xs ys where rs: "rs = xs @ easy_register p n g b l # ys"
    by (auto simp: in_set_conv_decomp)
  have fresh: "n \<notin> snd ` set (reg_functions xs)" "n \<notin> snd ` set (reg_functions ys)"
    using assms(1) by (auto simp: rs)
  have "um_find (=) n (NameToAddress (run_registrations xs TheTracker)) = None"
    using run_registrations_other(2) [OF fresh(1)] by (simp add: TheTracker_def)
  then show ?thesis
    using run_registrations_other(2) [OF fresh(2)]
    by (simp add: rs run_registrations_append run_registrations_Cons registerFunction_def find_emplace_eq)
qed



text \<open>
  Names are not unique: two translation units may both register a local function under one name.
  Then the second function is registered under its address with that name, but looking its name up
  gives the first one.
\<close>
lemma name_collision:
  "p \<noteq> q \<Longrightarrow>
   getNameAndGlobalMapping (run_registrations [easy_register p n g b l, easy_register q n g' b' l'] TheTracker) q =
     Inr (n, g') \<and>
   getAddress (run_registrations [easy_register p n g b l, easy_register q n g' b' l'] TheTracker) n = p"
  by (simp add: run_registrations_def easy_simps)

end
