(* ===== verification/Easy_IR.thy ===== *)
theory Easy_IR
  imports Easy_Context Easy_Tracker
begin

text \<open>
  The LLVM objects that the passes read and write, and the entry mark of \<open>runtime/Utils.cpp\<close>.

  LLVM itself is not part of the repository. Its types, constants, functions and modules are data
  here, with the constructors and the fields that the program inspects; a function or a global
  variable has an identity (a number, for the C++ pointer) and a name that can change. A pointee
  that refers back to an enclosing type is written \<open>NamedTy\<close>. A constant records the LLVM factory
  call that made it and its operands. A load has its address, its type and
  whether its alias information says that it reads a virtual table. A cast that is inserted right before its only
  user is written in place, as \<open>CastVal\<close>. What LLVM computes is a parameter: the data layout, the
  bitcode reader and writer and the linker are the fields of \<open>llvm_api\<close>, and no definition says
  what they do. \<open>ConstantInt::get\<close> and \<open>ConstantFP::get\<close> require an integer and a floating-point
  type; calling them with another type is undefined behaviour.
\<close>

datatype llvm_type =
    VoidTy
  | IntegerTy nat
  | FloatTy
  | DoubleTy
  | OtherFPTy string
  | PointerTy llvm_type
  | StructTy "llvm_type list"
  | ArrayTy nat llvm_type
  | VectorTy nat llvm_type
  | FunctionTy llvm_type "llvm_type list" bool
  | NamedTy string

fun isPointerTy :: "llvm_type \<Rightarrow> bool" where
  "isPointerTy (PointerTy t) = True"
| "isPointerTy _ = False"

fun isFunctionTy :: "llvm_type \<Rightarrow> bool" where
  "isFunctionTy (FunctionTy r ps va) = True"
| "isFunctionTy _ = False"

datatype fp_lit = FLit "32 word" | DLit "64 word"

datatype ir_constant =
    ConstantInt llvm_type "64 word" bool
  | ConstantFP llvm_type fp_lit
  | ConstantVector "ir_constant list"
  | ConstantStruct llvm_type "ir_constant list"
  | ConstantArray llvm_type "ir_constant list"
  | ConstantPointerNull llvm_type
  | IntToPtr ir_constant llvm_type
  | BitCast ir_constant llvm_type
  | PointerCast ir_constant llvm_type
  | GlobalRef nat

fun ConstantInt_get :: "llvm_type \<Rightarrow> 64 word \<Rightarrow> bool \<Rightarrow> ir_constant result" where
  "ConstantInt_get (IntegerTy w) v s = Inr (ConstantInt (IntegerTy w) v s)"
| "ConstantInt_get (VectorTy n (IntegerTy w)) v s = Inr (ConstantInt (VectorTy n (IntegerTy w)) v s)"
| "ConstantInt_get _ v s = Inl UndefinedBehaviour"

fun ConstantFP_get :: "llvm_type \<Rightarrow> fp_lit \<Rightarrow> ir_constant result" where
  "ConstantFP_get FloatTy v = Inr (ConstantFP FloatTy v)"
| "ConstantFP_get DoubleTy v = Inr (ConstantFP DoubleTy v)"
| "ConstantFP_get (OtherFPTy n) v = Inr (ConstantFP (OtherFPTy n) v)"
| "ConstantFP_get _ v = Inl UndefinedBehaviour"

datatype linkage = ExternalLinkage | PrivateLinkage | InternalLinkage | OtherLinkage string

record inline_asm =
  asm_type :: llvm_type
  asm_string :: string
  asm_constraints :: string
  asm_side_effects :: bool
  asm_align_stack :: bool
  asm_dialect :: nat

datatype ir_value =
    ArgVal nat
  | ConstVal ir_constant
  | InstVal nat
  | CastVal ir_value llvm_type

datatype callee =
    DirectCall nat
  | AsmCall inline_asm
  | IndirectCall ir_value

datatype instr =
    CallInst callee "ir_value list"
  | LoadInst ir_value llvm_type bool
  | RetVoid
  | RetCall
  | OtherInst nat

record ir_function =
  fun_name :: string
  fun_ret :: llvm_type
  fun_params :: "llvm_type list"
  fn_attrs :: "string list"
  param_attrs :: "nat \<Rightarrow> string list"
  fun_linkage :: linkage
  fun_cc :: nat
  fun_body :: "instr list option"

record ir_global =
  gv_name :: string
  gv_type :: llvm_type
  gv_constant :: bool
  gv_linkage :: linkage
  gv_init :: "ir_constant option"

datatype md_operand = MDString string | MDOther nat

record ir_module =
  mod_funs :: "(nat \<times> ir_function) list"
  mod_globals :: "(nat \<times> ir_global) list"
  mod_next :: nat
  named_md :: "(string \<times> md_operand list list) list"

record DataLayout =
  getTypeStoreSize :: "llvm_type \<Rightarrow> nat"
  getTypeAllocSize :: "llvm_type \<Rightarrow> nat"
  getElementOffset :: "llvm_type list \<Rightarrow> nat \<Rightarrow> nat"
  getIntPtrType :: llvm_type

record llvm_api =
  parseBitcodeFile :: "byte list \<Rightarrow> ir_module option"
  WriteBitcodeToFile :: "ir_module \<Rightarrow> byte list"
  linkModules :: "ir_module \<Rightarrow> ir_module \<Rightarrow> ir_module \<times> bool"
  data_layout :: DataLayout

subsection \<open>Reading and updating a module\<close>

definition find_by :: "('a \<Rightarrow> bool) \<Rightarrow> (nat \<times> 'a) list \<Rightarrow> nat option" where
  "find_by P xs = map_option fst (List.find (\<lambda>(i, x). P x) xs)"

definition getFunction_named :: "ir_module \<Rightarrow> string \<Rightarrow> nat option" where
  "getFunction_named M Name = find_by (\<lambda>f. fun_name f = Name) (mod_funs M)"

definition function_at :: "ir_module \<Rightarrow> nat \<Rightarrow> ir_function option" where
  "function_at M i = map_of (mod_funs M) i"

definition global_at :: "ir_module \<Rightarrow> nat \<Rightarrow> ir_global option" where
  "global_at M i = map_of (mod_globals M) i"

definition getNamedValue :: "ir_module \<Rightarrow> string \<Rightarrow> nat option" where
  "getNamedValue M Name =
     (case getFunction_named M Name of
        Some i \<Rightarrow> Some i
      | None \<Rightarrow> find_by (\<lambda>g. gv_name g = Name) (mod_globals M))"

definition update_function :: "nat \<Rightarrow> (ir_function \<Rightarrow> ir_function) \<Rightarrow> ir_module \<Rightarrow> ir_module" where
  "update_function i f M = M\<lparr>mod_funs := map (\<lambda>(j, x). (j, if j = i then f x else x)) (mod_funs M)\<rparr>"

definition update_global :: "nat \<Rightarrow> (ir_global \<Rightarrow> ir_global) \<Rightarrow> ir_module \<Rightarrow> ir_module" where
  "update_global i f M = M\<lparr>mod_globals := map (\<lambda>(j, x). (j, if j = i then f x else x)) (mod_globals M)\<rparr>"

definition add_function :: "ir_function \<Rightarrow> ir_module \<Rightarrow> nat \<times> ir_module" where
  "add_function f M = (mod_next M,
     M\<lparr>mod_funs := mod_funs M @ [(mod_next M, f)], mod_next := Suc (mod_next M)\<rparr>)"

definition add_global :: "ir_global \<Rightarrow> ir_module \<Rightarrow> nat \<times> ir_module" where
  "add_global g M = (mod_next M,
     M\<lparr>mod_globals := mod_globals M @ [(mod_next M, g)], mod_next := Suc (mod_next M)\<rparr>)"

text \<open>Identities of a module are handed out once.\<close>

definition module_ok :: "ir_module \<Rightarrow> bool" where
  "module_ok M \<longleftrightarrow> distinct (map fst (mod_funs M) @ map fst (mod_globals M)) \<and>
     (\<forall>i \<in> set (map fst (mod_funs M) @ map fst (mod_globals M)). i < mod_next M)"

lemma map_of_update_map:
  "map_of (map (\<lambda>(j, x). (j, if j = i then f x else x)) xs) k =
     (if k = i then map_option f (map_of xs k) else map_of xs k)"
  by (induction xs) auto

lemma function_at_update [simp]:
  "function_at (update_function i f M) k =
     (if k = i then map_option f (function_at M k) else function_at M k)"
  "function_at (update_global i g M) k = function_at M k"
  "global_at (update_function i f M) k = global_at M k"
  by (simp_all add: function_at_def global_at_def update_function_def update_global_def map_of_update_map)

lemma module_next_fresh:
  "module_ok M \<Longrightarrow> function_at M (mod_next M) = None \<and> global_at M (mod_next M) = None"
proof -
  assume "module_ok M"
  then have "mod_next M \<notin> set (map fst (mod_funs M) @ map fst (mod_globals M))"
    unfolding module_ok_def by (metis less_irrefl)
  then show ?thesis by (auto simp: function_at_def global_at_def map_of_eq_None_iff)
qed

lemma function_at_add_function:
  assumes "module_ok M"
  shows "function_at (snd (add_function f M)) i = (if i = mod_next M then Some f else function_at M i)"
  using module_next_fresh [OF assms]
  by (auto simp: function_at_def add_function_def map_add_def split: option.split)

lemma module_ok_add:
  "module_ok M \<Longrightarrow> module_ok (snd (add_function f M))"
  "module_ok M \<Longrightarrow> module_ok (snd (add_global g M))"
  by (auto simp: module_ok_def add_function_def add_global_def less_Suc_eq)

lemma update_fst [simp]:
  "map fst (mod_funs (update_function i f M)) = map fst (mod_funs M)"
  "mod_globals (update_function i f M) = mod_globals M"
  "mod_next (update_function i f M) = mod_next M"
  "map fst (mod_globals (update_global i g M)) = map fst (mod_globals M)"
  "mod_funs (update_global i g M) = mod_funs M"
  "mod_next (update_global i g M) = mod_next M"
  by (auto simp: update_function_def update_global_def)

lemma module_ok_update [simp]:
  "module_ok (update_function i f M) \<longleftrightarrow> module_ok M"
  "module_ok (update_global i g M) \<longleftrightarrow> module_ok M"
  by (simp_all add: module_ok_def)

subsection \<open>The entry function of a module\<close>

definition EasyJitMD :: string where "EasyJitMD = ''easy::jit''"

definition EntryTag :: string where "EntryTag = ''entry''"

definition getNamedMetadata :: "ir_module \<Rightarrow> string \<Rightarrow> md_operand list list option" where
  "getNamedMetadata M Name = map_of (named_md M) Name"

definition getOrInsertNamedMetadata :: "string \<Rightarrow> ir_module \<Rightarrow> ir_module" where
  "getOrInsertNamedMetadata Name M =
     (case getNamedMetadata M Name of
        Some _ \<Rightarrow> M | None \<Rightarrow> M\<lparr>named_md := named_md M @ [(Name, [])]\<rparr>)"

definition eraseNamedMetadata :: "string \<Rightarrow> ir_module \<Rightarrow> ir_module" where
  "eraseNamedMetadata Name M = M\<lparr>named_md := filter (\<lambda>e. fst e \<noteq> Name) (named_md M)\<rparr>"

fun entry_operand :: "md_operand list \<Rightarrow> string option" where
  "entry_operand [MDString Entry, MDString Name] = (if Entry \<noteq> EntryTag then None else Some Name)"
| "entry_operand _ = None"

fun entry_loop :: "md_operand list list \<Rightarrow> string result" where
  "entry_loop [] = Inl UndefinedBehaviour"
| "entry_loop (Operand # Operands) =
     (case entry_operand Operand of Some Name \<Rightarrow> Inr Name | None \<Rightarrow> entry_loop Operands)"

definition GetEntryFunctionName :: "ir_module \<Rightarrow> string result" where
  "GetEntryFunctionName M =
     (case getNamedMetadata M EasyJitMD of
        None \<Rightarrow> Inl UndefinedBehaviour | Some operands \<Rightarrow> entry_loop operands)"

definition MarkAsEntry :: "string \<Rightarrow> ir_module \<Rightarrow> ir_module" where
  "MarkAsEntry FName M =
     (let M' = getOrInsertNamedMetadata EasyJitMD M;
          Node = [MDString EntryTag, MDString FName]
      in M'\<lparr>named_md := map (\<lambda>(n, ops). (n, if n = EasyJitMD then ops @ [Node] else ops)) (named_md M')\<rparr>)"

definition UnmarkEntry :: "ir_module \<Rightarrow> ir_module" where
  "UnmarkEntry M = eraseNamedMetadata EasyJitMD (getOrInsertNamedMetadata EasyJitMD M)"

definition CloneModuleWithContext :: "llvm_api \<Rightarrow> ir_module \<Rightarrow> ir_module option" where
  "CloneModuleWithContext L LM = parseBitcodeFile L (WriteBitcodeToFile L LM)"

definition entry_marks :: "ir_module \<Rightarrow> string list" where
  "entry_marks M = List.map_filter entry_operand
     (case getNamedMetadata M EasyJitMD of None \<Rightarrow> [] | Some ops \<Rightarrow> ops)"

lemma entry_loop_marks:
  "entry_loop ops = (case List.map_filter entry_operand ops of
     [] \<Rightarrow> Inl UndefinedBehaviour | n # _ \<Rightarrow> Inr n)"
  by (induction ops) (auto simp: List.map_filter_simps split: option.splits list.splits)

lemma GetEntryFunctionName_marks:
  "GetEntryFunctionName M =
     (case entry_marks M of [] \<Rightarrow> Inl UndefinedBehaviour | n # _ \<Rightarrow> Inr n)"
  by (auto simp: GetEntryFunctionName_def entry_marks_def entry_loop_marks List.map_filter_simps
      split: option.split)

lemma getNamedMetadata_mark:
  "getNamedMetadata (MarkAsEntry n M) EasyJitMD =
     Some ((case getNamedMetadata M EasyJitMD of None \<Rightarrow> [] | Some ops \<Rightarrow> ops) @
       [[MDString EntryTag, MDString n]])"
proof -
  have upd: "map_of (map (\<lambda>(k, ops). (k, if k = m then ops @ [x] else ops)) xs) m =
      map_option (\<lambda>ops. ops @ [x]) (map_of xs m)" for m x and xs :: "(string \<times> md_operand list list) list"
    by (induction xs) auto
  show ?thesis
    by (auto simp: MarkAsEntry_def getNamedMetadata_def getOrInsertNamedMetadata_def Let_def upd
        map_add_def split: option.split)
qed

lemma entry_marks_mark: "entry_marks (MarkAsEntry n M) = entry_marks M @ [n]"
  unfolding entry_marks_def getNamedMetadata_mark
  by (auto simp: List.map_filter_def EntryTag_def split: option.split)

lemma entry_marks_unmark: "entry_marks (UnmarkEntry M) = []"
proof -
  have "getNamedMetadata (UnmarkEntry M) EasyJitMD = None"
    by (auto simp: UnmarkEntry_def eraseNamedMetadata_def getNamedMetadata_def
        map_of_eq_None_iff)
  then show ?thesis by (simp add: entry_marks_def List.map_filter_simps)
qed

text \<open>
  The entry mark: marking a module that has no entry yet makes \<open>GetEntryFunctionName\<close> return that
  name; in a module that has one the first mark stays the answer; \<open>UnmarkEntry\<close> removes all of them, so
  that a module linked into another one does not bring an entry of its own.
\<close>
lemma entry_mark_roundtrip:
  "GetEntryFunctionName (MarkAsEntry n (UnmarkEntry M)) = Inr n \<and>
   GetEntryFunctionName (UnmarkEntry M) = Inl UndefinedBehaviour \<and>
   (GetEntryFunctionName M = Inl UndefinedBehaviour \<longrightarrow> GetEntryFunctionName (MarkAsEntry n M) = Inr n) \<and>
   (\<forall>m. GetEntryFunctionName M = Inr m \<longrightarrow> GetEntryFunctionName (MarkAsEntry n M) = Inr m)"
  by (auto simp: GetEntryFunctionName_marks entry_marks_mark entry_marks_unmark split: list.splits)

definition empty_module :: ir_module where
  "empty_module = \<lparr>mod_funs = [], mod_globals = [], mod_next = 0, named_md = []\<rparr>"

end
