(* ===== verification/Easy_Struct.thy ===== *)
theory Easy_Struct
  imports Easy_IR
begin

text \<open>
  The constants of \<open>runtime/pass/InlineParametersHelper.cpp\<close>: scalars (\<open>GetScalarArgument\<close>), values
  read from the bytes of an object (\<open>GetConstantFromRaw\<close>), pointers to functions and variables whose
  bitcode is registered (\<open>LinkPointerIfPossible\<close>), and the read-only global that stands for a struct
  passed by pointer (\<open>StoreStructFieldPrepare\<close>, \<open>StoreStructFieldAsGlobal\<close>, \<open>GetGlobalStruct\<close>).

  The pointer \<open>Raw\<close> is the list of the bytes from there on; a read beyond its end is undefined
  behaviour. A null \<open>Constant*\<close> is \<open>None\<close>. A type without a size (\<open>void\<close>, a function, an opaque
  struct) has no store size and a vector of no elements does not exist: LLVM asserts on both.
\<close>

definition read_raw :: "nat \<Rightarrow> byte list \<Rightarrow> nat result" where
  "read_raw n Raw = (if length Raw < n then Inl UndefinedBehaviour else Inr (word_le (take n Raw)))"

subsection \<open>Scalars\<close>

fun GetScalarArgument :: "'m Argument \<Rightarrow> llvm_type \<Rightarrow> ir_constant option result" where
  "GetScalarArgument (IntArgument n) T = bindR (ConstantInt_get T n True) (\<lambda>c. Inr (Some c))"
| "GetScalarArgument (FloatArgument d) T = bindR (ConstantFP_get T (DLit d)) (\<lambda>c. Inr (Some c))"
| "GetScalarArgument (PtrArgument p) T =
     bindR (ConstantInt_get (IntegerTy 64) p False) (\<lambda>c.
       if isPointerTy T then Inr (Some (IntToPtr c T)) else Inl UndefinedBehaviour)"
| "GetScalarArgument _ T = Inr None"

fun GetConstantFromRaw :: "DataLayout \<Rightarrow> llvm_type \<Rightarrow> byte list \<Rightarrow> (ir_constant option \<times> nat) result" where
  "GetConstantFromRaw DL (IntegerTy w) Raw =
     (if w = 8 then bindR (read_raw 1 Raw) (\<lambda>v.
        bindR (ConstantInt_get (IntegerTy 8) (of_nat v) False) (\<lambda>c. Inr (Some c, 1)))
      else if w = 16 then bindR (read_raw 2 Raw) (\<lambda>v.
        bindR (ConstantInt_get (IntegerTy 16) (scast (of_nat v :: 16 word)) False) (\<lambda>c. Inr (Some c, 2)))
      else if w = 32 then bindR (read_raw 4 Raw) (\<lambda>v.
        bindR (ConstantInt_get (IntegerTy 32) (scast (of_nat v :: 32 word)) False) (\<lambda>c. Inr (Some c, 4)))
      else if w = 64 then bindR (read_raw 8 Raw) (\<lambda>v.
        bindR (ConstantInt_get (IntegerTy 64) (of_nat v) False) (\<lambda>c. Inr (Some c, 8)))
      else Inr (None, 0))"
| "GetConstantFromRaw DL FloatTy Raw =
     bindR (read_raw 4 Raw) (\<lambda>v.
     bindR (ConstantFP_get FloatTy (FLit (of_nat v))) (\<lambda>c. Inr (Some c, 4)))"
| "GetConstantFromRaw DL DoubleTy Raw =
     bindR (read_raw 8 Raw) (\<lambda>v.
     bindR (ConstantFP_get DoubleTy (DLit (of_nat v))) (\<lambda>c. Inr (Some c, 8)))"
| "GetConstantFromRaw DL (OtherFPTy n) Raw = Inr (None, 0)"
| "GetConstantFromRaw DL VoidTy Raw = Inl UndefinedBehaviour"
| "GetConstantFromRaw DL (FunctionTy r ps va) Raw = Inl UndefinedBehaviour"
| "GetConstantFromRaw DL (NamedTy n) Raw = Inl UndefinedBehaviour"
| "GetConstantFromRaw DL T Raw =
     (let Size = getTypeStoreSize DL T
      in if Size = 0 \<or> length Raw < Size then Inl UndefinedBehaviour
         else let Elements = map (\<lambda>b. ConstantInt (IntegerTy 8) (ucast b) False) (take Size Raw);
                  DataAsI8 = ConstantVector Elements;
                  DataAsT = (if isPointerTy T then IntToPtr (BitCast DataAsI8 (getIntPtrType DL)) T
                             else BitCast DataAsI8 T)
              in Inr (Some DataAsT, Size))"

subsection \<open>Linking a pointer\<close>

definition LinkPointerIfPossible ::
    "llvm_api \<Rightarrow> BitcodeTracker \<Rightarrow> ir_module \<Rightarrow> ptr \<Rightarrow> llvm_type \<Rightarrow>
     (ir_module \<times> ir_constant option) result" where
  "LinkPointerIfPossible L BT M PtrValue PtrTy =
     (if hasGlobalMapping BT PtrValue then
        bindR (getNameAndGlobalMapping BT PtrValue) (\<lambda>(LName, _).
        bindR (getModuleWithContext (parseBitcodeFile L) BT PtrValue) (\<lambda>LM.
          (case linkModules L M LM of (M', link_failed) \<Rightarrow>
             if \<not> link_failed then
               (case getNamedValue M' LName of
                  None \<Rightarrow> Inl UndefinedBehaviour
                | Some GV \<Rightarrow>
                    (case global_at M' GV of
                       Some G \<Rightarrow>
                         Inr (update_global GV (\<lambda>g. g\<lparr>gv_linkage := PrivateLinkage\<rparr>) M',
                              Some (if PointerTy (gv_type G) \<noteq> PtrTy
                                    then PointerCast (GlobalRef GV) PtrTy else GlobalRef GV))
                     | None \<Rightarrow>
                         (case function_at M' GV of
                            Some F \<Rightarrow>
                              Inr (update_function GV (\<lambda>f. f\<lparr>fun_linkage := PrivateLinkage\<rparr>) M',
                                   Some (GlobalRef GV))
                          | None \<Rightarrow> Inl AssertionFailure)))
             else Inr (M', None))))
      else Inr (M, None))"

subsection \<open>Structs\<close>

type_synonym link_state = "ir_module \<times> (ptr \<rightharpoonup> ir_constant option)"

function (sequential) StoreStructFieldPrepare ::
    "llvm_api \<Rightarrow> BitcodeTracker \<Rightarrow> llvm_type \<Rightarrow> byte list \<Rightarrow> link_state \<Rightarrow> link_state result" where
  "StoreStructFieldPrepare L BT (StructTy Ts) Raw st =
     foldR (\<lambda>(Field, T) st. StoreStructFieldPrepare L BT T
         (drop (getElementOffset (data_layout L) Ts Field) Raw) st)
       (enumerate 0 Ts) st"
| "StoreStructFieldPrepare L BT (ArrayTy Fields EleTy) Raw st =
     foldR (\<lambda>Field st. StoreStructFieldPrepare L BT EleTy
         (drop (getTypeAllocSize (data_layout L) EleTy * Field) Raw) st)
       [0..<Fields] st"
| "StoreStructFieldPrepare L BT (PointerTy PTy) Raw (M, Funcs) =
     (if isFunctionTy PTy then
        bindR (read_raw 8 Raw) (\<lambda>p.
          if (of_nat p :: ptr) \<noteq> 0 then
            bindR (LinkPointerIfPossible L BT M (of_nat p) (PointerTy PTy)) (\<lambda>(M', c).
              Inr (M', Funcs(of_nat p \<mapsto> c)))
          else Inr (M, Funcs))
      else Inr (M, Funcs))"
| "StoreStructFieldPrepare L BT Ty Raw st =
     bindR (GetConstantFromRaw (data_layout L) Ty Raw) (\<lambda>_. Inr st)"
  by pat_completeness auto
termination
  by (relation "measure (\<lambda>(L, BT, T, Raw, st). size T)")
    (auto simp: in_set_enumerate_eq less_Suc_eq_le intro!: size_list_estimation' [OF nth_mem])

function (sequential) StoreStructFieldAsGlobal ::
    "DataLayout \<Rightarrow> (ptr \<rightharpoonup> ir_constant option) \<Rightarrow> llvm_type \<Rightarrow> byte list \<Rightarrow> ir_constant option result" where
  "StoreStructFieldAsGlobal DL Funcs (StructTy Ts) Raw =
     bindR (mapR (\<lambda>(Field, T). StoreStructFieldAsGlobal DL Funcs T
              (drop (getElementOffset DL Ts Field) Raw)) (enumerate 0 Ts)) (\<lambda>Constants.
       if None \<in> set Constants then Inl UndefinedBehaviour
       else Inr (Some (ConstantStruct (StructTy Ts) (map the Constants))))"
| "StoreStructFieldAsGlobal DL Funcs (ArrayTy Fields EleTy) Raw =
     bindR (mapR (\<lambda>Field. StoreStructFieldAsGlobal DL Funcs EleTy
              (drop (Field * getTypeAllocSize DL EleTy) Raw)) [0..<Fields]) (\<lambda>Constants.
       if None \<in> set Constants then Inl UndefinedBehaviour
       else Inr (Some (ConstantArray (ArrayTy Fields EleTy) (map the Constants))))"
| "StoreStructFieldAsGlobal DL Funcs (PointerTy PTy) Raw =
     (if isFunctionTy PTy then
        bindR (read_raw 8 Raw) (\<lambda>p.
          if (of_nat p :: ptr) \<noteq> 0
          then Inr (case Funcs (of_nat p) of None \<Rightarrow> None | Some c \<Rightarrow> c)
          else Inr (Some (ConstantPointerNull (PointerTy PTy))))
      else bindR (read_raw 8 Raw) (\<lambda>v.
        bindR (ConstantInt_get (PointerTy (PointerTy PTy)) (of_nat v) False) (\<lambda>c. Inr (Some c))))"
| "StoreStructFieldAsGlobal DL Funcs Ty Raw =
     bindR (GetConstantFromRaw DL Ty Raw) (\<lambda>(FieldValue, dummy). Inr FieldValue)"
  by pat_completeness auto
termination
  by (relation "measure (\<lambda>(DL, Funcs, T, Raw). size T)")
    (auto simp: in_set_enumerate_eq less_Suc_eq_le intro!: size_list_estimation' [OF nth_mem])

definition GetGlobalStruct ::
    "llvm_api \<Rightarrow> BitcodeTracker \<Rightarrow> ir_module \<Rightarrow> byte list \<Rightarrow> llvm_type \<Rightarrow>
     (ir_module \<times> ir_constant) result" where
  "GetGlobalStruct L BT M Struct StructPtrTy =
     (case StructPtrTy of
        PointerTy StructTy' \<Rightarrow>
          bindR (StoreStructFieldPrepare L BT StructTy' Struct (M, Map.empty)) (\<lambda>(M', Funcs).
          bindR (StoreStructFieldAsGlobal (data_layout L) Funcs StructTy' Struct) (\<lambda>CurConstant.
            case add_global \<lparr>gv_name = [], gv_type = StructTy', gv_constant = True,
                gv_linkage = InternalLinkage, gv_init = CurConstant\<rparr> M' of
              (G, M'') \<Rightarrow> Inr (M'', GlobalRef G)))
      | _ \<Rightarrow> Inl UndefinedBehaviour)"

declare StoreStructFieldAsGlobal.simps [easy_simps] StoreStructFieldPrepare.simps [easy_simps]
  GetConstantFromRaw.simps [easy_simps] read_raw_def [easy_simps] word_le_def [easy_simps]

subsection \<open>What the global holds\<close>

text \<open>
  The specification of the initialiser. The memory of a type is a list of leaves, each with its offset
  from the data layout; the constant of a struct or an array has its leaves at the same offsets.
  \<open>encode_leaf\<close> gives the bytes a scalar constant occupies, least significant first (a floating-point
  literal stands for the bits that were read). \<open>leaf_ok\<close> says which leaves the helper can translate and
  \<open>leaf_value\<close> which constant stands for the bytes found there.
\<close>

lemma size_enumerate [termination_simp]:
  "(i, x) \<in> set (enumerate n xs) \<Longrightarrow> size x < Suc (size_list size xs)"
  by (auto simp: in_set_enumerate_eq less_Suc_eq_le intro!: size_list_estimation' [OF nth_mem order.refl])

definition shift_leaves :: "nat \<Rightarrow> (nat \<times> 'a) list \<Rightarrow> (nat \<times> 'a) list" where
  "shift_leaves n xs = map (\<lambda>(o', x). (n + o', x)) xs"

fun type_leaves :: "DataLayout \<Rightarrow> llvm_type \<Rightarrow> (nat \<times> llvm_type) list" where
  "type_leaves DL (StructTy Ts) =
     concat (map (\<lambda>(i, T). shift_leaves (getElementOffset DL Ts i) (type_leaves DL T)) (enumerate 0 Ts))"
| "type_leaves DL (ArrayTy n T) =
     concat (map (\<lambda>i. shift_leaves (i * getTypeAllocSize DL T) (type_leaves DL T)) [0..<n])"
| "type_leaves DL T = [(0, T)]"

lemma size_enumerate_zip [termination_simp]:
  "(i, x, y) \<in> set (enumerate n (zip xs ys)) \<Longrightarrow> size x < Suc (size_list size xs)"
  by (auto simp: in_set_enumerate_eq less_Suc_eq_le dest!: arg_cong [of "(_, _)" _ fst]
      intro!: size_list_estimation' [OF nth_mem order.refl])

fun const_leaves :: "DataLayout \<Rightarrow> llvm_type \<Rightarrow> ir_constant \<Rightarrow> (nat \<times> ir_constant) list" where
  "const_leaves DL (StructTy Ts) (ConstantStruct S cs) =
     concat (map (\<lambda>(i, T, c). shift_leaves (getElementOffset DL Ts i) (const_leaves DL T c))
       (enumerate 0 (zip Ts cs)))"
| "const_leaves DL (ArrayTy n T) (ConstantArray A cs) =
     concat (map (\<lambda>(i, c). shift_leaves (i * getTypeAllocSize DL T) (const_leaves DL T c)) (enumerate 0 cs))"
| "const_leaves DL T c = [(0, c)]"

fun le_bytes :: "nat \<Rightarrow> nat \<Rightarrow> byte list" where
  "le_bytes 0 v = []"
| "le_bytes (Suc n) v = of_nat v # le_bytes n (v div 256)"

fun encode_leaf :: "ir_constant \<Rightarrow> byte list" where
  "encode_leaf (ConstantInt (IntegerTy w) v s) = le_bytes (w div 8) (unat (take_bit w v))"
| "encode_leaf (ConstantFP FloatTy (FLit v)) = le_bytes 4 (unat v)"
| "encode_leaf (ConstantFP DoubleTy (DLit v)) = le_bytes 8 (unat v)"
| "encode_leaf (ConstantVector cs) = concat (map encode_leaf cs)"
| "encode_leaf (BitCast c T) = encode_leaf c"
| "encode_leaf c = []"

fun leaf_size :: "DataLayout \<Rightarrow> llvm_type \<Rightarrow> nat" where
  "leaf_size DL (IntegerTy w) = w div 8"
| "leaf_size DL FloatTy = 4"
| "leaf_size DL DoubleTy = 8"
| "leaf_size DL (PointerTy T) = 8"
| "leaf_size DL (VectorTy n T) = getTypeStoreSize DL (VectorTy n T)"
| "leaf_size DL T = 0"

definition pointer_at :: "byte list \<Rightarrow> ptr" where
  "pointer_at Raw = of_nat (word_le (take 8 Raw))"

fun leaf_type_ok :: "llvm_type \<Rightarrow> bool" where
  "leaf_type_ok (IntegerTy w) \<longleftrightarrow> w \<in> {8, 16, 32, 64}"
| "leaf_type_ok FloatTy \<longleftrightarrow> True"
| "leaf_type_ok DoubleTy \<longleftrightarrow> True"
| "leaf_type_ok (PointerTy T) \<longleftrightarrow> isFunctionTy T"
| "leaf_type_ok (VectorTy n T) \<longleftrightarrow> True"
| "leaf_type_ok T \<longleftrightarrow> False"

definition leaf_ok ::
    "DataLayout \<Rightarrow> (ptr \<Rightarrow> bool) \<Rightarrow> llvm_type \<Rightarrow> byte list \<Rightarrow> bool" where
  "leaf_ok DL linked T Raw \<longleftrightarrow>
     leaf_type_ok T \<and> 0 < leaf_size DL T \<and> leaf_size DL T \<le> length Raw \<and>
     (isPointerTy T \<longrightarrow> pointer_at Raw = 0 \<or> linked (pointer_at Raw))"

definition leaf_value ::
    "DataLayout \<Rightarrow> (ptr \<rightharpoonup> ir_constant option) \<Rightarrow> llvm_type \<Rightarrow> byte list \<Rightarrow> ir_constant \<Rightarrow> bool" where
  "leaf_value DL Funcs T Raw c \<longleftrightarrow>
     (if isPointerTy T
      then (if pointer_at Raw = 0 then c = ConstantPointerNull T else Funcs (pointer_at Raw) = Some (Some c))
      else encode_leaf c = take (leaf_size DL T) Raw)"

lemma byte_less: "unat (b :: byte) < 256"
  using unsigned_less [of b] by simp

lemma le_bytes_word_le: "le_bytes (length bs) (word_le bs) = bs"
proof (induction bs)
  case (Cons b bs)
  have "(256 :: byte) = 0" by simp
  then have "256 * (of_nat n :: byte) = 0" for n by (metis mult_zero_left)
  with Cons byte_less [of b] show ?case by (simp add: word_le_def)
qed simp

lemma word_le_bound: "word_le bs < 256 ^ length bs"
proof (induction bs)
  case (Cons b bs)
  from Cons byte_less [of b] show ?case by (simp add: word_le_def)
qed (simp add: word_le_def)

lemma le_bytes_take: "n \<le> length Raw \<Longrightarrow> le_bytes n (word_le (take n Raw)) = take n Raw"
  using le_bytes_word_le [of "take n Raw"] by simp

lemma word_le_take_bound: "n \<le> length Raw \<Longrightarrow> word_le (take n Raw) < 256 ^ n"
  using word_le_bound [of "take n Raw"] by simp


definition linked_in :: "(ptr \<rightharpoonup> ir_constant option) \<Rightarrow> ptr \<Rightarrow> bool" where
  "linked_in Funcs p \<longleftrightarrow> (\<exists>c. Funcs p = Some (Some c))"

definition leaf_at ::
    "DataLayout \<Rightarrow> (ptr \<rightharpoonup> ir_constant option) \<Rightarrow> byte list \<Rightarrow> nat \<times> llvm_type \<Rightarrow> nat \<times> ir_constant \<Rightarrow> bool" where
  "leaf_at DL Funcs Raw l k \<longleftrightarrow> fst k = fst l \<and> leaf_value DL Funcs (snd l) (drop (fst l) Raw) (snd k)"

fun isAggregateTy :: "llvm_type \<Rightarrow> bool" where
  "isAggregateTy (StructTy Ts) = True"
| "isAggregateTy (ArrayTy n T) = True"
| "isAggregateTy _ = False"

lemma int_leaf_bytes:
  assumes "n \<le> length Raw" "n \<in> {1, 2, 4, 8}"
  shows "le_bytes n (unat (take_bit (8 * n) (of_nat (word_le (take n Raw)) :: 64 word))) = take n Raw"
proof -
  have "word_le (take n Raw) < 2 ^ (8 * n)"
    using word_le_take_bound [OF assms(1)] by (simp add: power_mult)
  moreover from this assms(2) have "word_le (take n Raw) < 2 ^ 64" by auto
  ultimately have "unat (take_bit (8 * n) (of_nat (word_le (take n Raw)) :: 64 word)) = word_le (take n Raw)"
    by (simp add: unsigned_take_bit_eq unat_of_nat take_bit_nat_eq_self)
  then show ?thesis using assms(1) by (simp add: le_bytes_take)
qed

lemma take_bit_scast:
  "take_bit 16 (scast (of_nat v :: 16 word) :: 64 word) = take_bit 16 (of_nat v)"
  "take_bit 32 (scast (of_nat v :: 32 word) :: 64 word) = take_bit 32 (of_nat v)"
  by (rule bit_word_eqI, auto simp: bit_simps min_def dest: le_antisym [of _ "_ :: nat"])+

lemma vector_bytes:
  "concat (map (encode_leaf \<circ> (\<lambda>b. ConstantInt (IntegerTy 8) (ucast b) False)) bs) = bs"
proof (induction bs)
  case (Cons b bs)
  have "(of_nat (unat (take_bit 8 (ucast b :: 64 word))) :: byte) = b"
    by (rule bit_word_eqI) (simp add: bit_simps unsigned_take_bit_eq flip: ucast_id)
  with Cons show ?case by (simp add: numeral_2_eq_2)
qed simp

lemma leaf_constant:
  assumes "StoreStructFieldAsGlobal DL Funcs T Raw = Inr (Some c)" "\<not> isAggregateTy T"
  shows "leaf_value DL Funcs T Raw c \<and> const_leaves DL T c = [(0, c)] \<and> leaf_ok DL (linked_in Funcs) T Raw"
proof (cases T)
  case (IntegerTy w)
  with assms have "w \<in> {8, 16, 32, 64}" by (auto split: if_splits)
  with IntegerTy assms show ?thesis
    using int_leaf_bytes [of 1 Raw] int_leaf_bytes [of 2 Raw] int_leaf_bytes [of 4 Raw] int_leaf_bytes [of 8 Raw]
    by (auto simp: leaf_value_def leaf_ok_def read_raw_def take_bit_scast Suc_le_eq split: if_splits)
next
  case (PointerTy P)
  with assms show ?thesis
    by (cases P) (auto simp: leaf_value_def leaf_ok_def read_raw_def pointer_at_def linked_in_def
        split: if_splits option.splits)
next
  case (VectorTy n E)
  with assms show ?thesis
    by (auto simp: leaf_value_def leaf_ok_def Let_def vector_bytes split: if_splits)
qed (use assms word_le_take_bound [of 4 Raw] word_le_take_bound [of 8 Raw] in
    \<open>auto simp: leaf_value_def leaf_ok_def read_raw_def unat_of_nat take_bit_nat_eq_self le_bytes_take
      split: if_splits\<close>)

lemma leaf_translates:
  assumes "leaf_ok DL (linked_in Funcs) T Raw"
  shows "\<exists>c. StoreStructFieldAsGlobal DL Funcs T Raw = Inr (Some c)"
  using assms
  by (cases T) (auto simp: leaf_ok_def read_raw_def Let_def pointer_at_def linked_in_def
      split: option.splits)

lemma aggregate_iff:
  "bindR (mapR f xs) (\<lambda>Cs. if None \<in> set Cs then Inl UndefinedBehaviour else Inr (Some (K (map the Cs)))) =
     Inr (Some c) \<longleftrightarrow> (\<exists>cs. c = K cs \<and> list_all2 (\<lambda>x c. f x = Inr (Some c)) xs cs)" (is "?l \<longleftrightarrow> ?r")
proof
  assume ?l
  then obtain Cs where Cs: "mapR f xs = Inr Cs" "None \<notin> set Cs" "c = K (map the Cs)"
    by (auto simp: bindR_eq_Inr split: if_splits)
  then have "list_all2 (\<lambda>x c. f x = Inr (Some c)) xs (map the Cs)"
    by (auto simp: mapR_Inr_iff list_all2_conv_all_nth) (metis nth_mem option.collapse)
  with Cs show ?r by blast
next
  assume ?r
  then obtain cs where "c = K cs" "mapR f xs = Inr (map Some cs)"
    by (auto simp: mapR_Inr_iff list.rel_map)
  then show ?l by (auto simp: comp_def)
qed

lemma list_all2_exists: "(\<exists>ys. list_all2 P xs ys) \<longleftrightarrow> (\<forall>x \<in> set xs. \<exists>y. P x y)"
proof (induction xs)
  case (Cons x xs)
  then show ?case by (force simp: list_all2_Cons1)
qed simp

lemma leaf_at_shift:
  "list_all2 (leaf_at DL Funcs (drop n Raw)) ls ks \<Longrightarrow>
   list_all2 (leaf_at DL Funcs Raw) (shift_leaves n ls) (shift_leaves n ks)"
  by (auto simp: shift_leaves_def list.rel_map leaf_at_def add.commute elim!: list_all2_mono)

lemma leaf_ok_shift:
  "(\<forall>l \<in> set (shift_leaves n ls). P (snd l) (drop (fst l) Raw)) \<longleftrightarrow>
   (\<forall>l \<in> set ls. P (snd l) (drop (fst l) (drop n Raw)))"
  by (auto simp: shift_leaves_def add.commute case_prod_unfold)

lemma list_all2_concat_map:
  assumes "length xs = length ys" "\<And>i. i < length xs \<Longrightarrow> list_all2 R (f (xs ! i)) (g (ys ! i))"
  shows "list_all2 R (concat (map f xs)) (concat (map g ys))"
  using assms by (intro concat_transfer [THEN rel_funD]) (auto simp: list_all2_conv_all_nth)

lemma global_constant_leaves:
  "StoreStructFieldAsGlobal DL Funcs T Raw = Inr (Some c) \<Longrightarrow>
   list_all2 (leaf_at DL Funcs Raw) (type_leaves DL T) (const_leaves DL T c)"
proof (induction DL Funcs T Raw arbitrary: c rule: StoreStructFieldAsGlobal.induct)
  case (1 DL Funcs Ts Raw)
  then obtain cs where cs: "c = ConstantStruct (StructTy Ts) cs"
      "list_all2 (\<lambda>(i, T) c. StoreStructFieldAsGlobal DL Funcs T (drop (getElementOffset DL Ts i) Raw) = Inr (Some c))
         (enumerate 0 Ts) cs"
    unfolding StoreStructFieldAsGlobal.simps aggregate_iff by (auto simp: case_prod_unfold)
  have len: "length cs = length Ts" using list_all2_lengthD [OF cs(2)] by simp
  show ?case unfolding cs(1) type_leaves.simps const_leaves.simps
  proof (rule list_all2_concat_map, simp add: len)
    fix i assume i: "i < length (enumerate 0 Ts)"
    with cs(2) have "StoreStructFieldAsGlobal DL Funcs (Ts ! i) (drop (getElementOffset DL Ts i) Raw) = Inr (Some (cs ! i))"
      by (auto simp: list_all2_conv_all_nth nth_enumerate_eq)
    with i 1(1) [of "(i, Ts ! i)" i "Ts ! i"] show "list_all2 (leaf_at DL Funcs Raw)
        (case enumerate 0 Ts ! i of (i, T) \<Rightarrow> shift_leaves (getElementOffset DL Ts i) (type_leaves DL T))
        (case enumerate 0 (zip Ts cs) ! i of (i, T, c) \<Rightarrow> shift_leaves (getElementOffset DL Ts i) (const_leaves DL T c))"
      by (auto simp: nth_enumerate_eq len in_set_enumerate_eq intro!: leaf_at_shift)
  qed
next
  case (2 DL Funcs n T Raw)
  then obtain cs where cs: "c = ConstantArray (ArrayTy n T) cs"
      "list_all2 (\<lambda>i c. StoreStructFieldAsGlobal DL Funcs T (drop (i * getTypeAllocSize DL T) Raw) = Inr (Some c))
         [0..<n] cs"
    unfolding StoreStructFieldAsGlobal.simps aggregate_iff by auto
  have len: "length cs = n" using list_all2_lengthD [OF cs(2)] by simp
  show ?case unfolding cs(1) type_leaves.simps const_leaves.simps
  proof (rule list_all2_concat_map, simp add: len)
    fix i assume i: "i < length [0..<n]"
    with cs(2) have "StoreStructFieldAsGlobal DL Funcs T (drop (i * getTypeAllocSize DL T) Raw) = Inr (Some (cs ! i))"
      by (auto simp: list_all2_conv_all_nth)
    with i 2(1) [of i] show "list_all2 (leaf_at DL Funcs Raw)
        (shift_leaves ([0..<n] ! i * getTypeAllocSize DL T) (type_leaves DL T))
        (case enumerate 0 cs ! i of (i, c) \<Rightarrow> shift_leaves (i * getTypeAllocSize DL T) (const_leaves DL T c))"
      by (auto simp: nth_enumerate_eq len intro!: leaf_at_shift)
  qed
qed (use leaf_constant in \<open>fastforce simp: leaf_at_def simp del: StoreStructFieldAsGlobal.simps\<close>)+

lemma global_constant_exists:
  "(\<exists>c. StoreStructFieldAsGlobal DL Funcs T Raw = Inr (Some c)) \<longleftrightarrow>
   (\<forall>l \<in> set (type_leaves DL T). leaf_ok DL (linked_in Funcs) (snd l) (drop (fst l) Raw))"
proof (induction DL Funcs T Raw rule: StoreStructFieldAsGlobal.induct)
  case (1 DL Funcs Ts Raw)
  then show ?case unfolding StoreStructFieldAsGlobal.simps aggregate_iff
    by (auto simp: list_all2_exists leaf_ok_shift case_prod_unfold)
next
  case (2 DL Funcs n T Raw)
  then show ?case unfolding StoreStructFieldAsGlobal.simps aggregate_iff
    by (auto simp: list_all2_exists leaf_ok_shift)
qed (use leaf_constant leaf_translates in \<open>fastforce simp del: StoreStructFieldAsGlobal.simps\<close>)+

subsection \<open>Linking the functions a struct points to\<close>

lemma LinkPointerIfPossible_registered:
  "LinkPointerIfPossible L BT M p T = Inr (M', Some c) \<Longrightarrow> hasGlobalMapping BT p"
  by (auto simp: LinkPointerIfPossible_def split: if_splits)

lemma LinkPointerIfPossible_unregistered:
  "\<not> hasGlobalMapping BT p \<Longrightarrow> LinkPointerIfPossible L BT M p T = Inr (M, None)"
  by (simp add: LinkPointerIfPossible_def)

lemma prepare_registered:
  "StoreStructFieldPrepare L BT T Raw st = Inr st' \<Longrightarrow>
   (\<forall>p. linked_in (snd st) p \<longrightarrow> hasGlobalMapping BT p) \<Longrightarrow>
   (\<forall>p. linked_in (snd st') p \<longrightarrow> hasGlobalMapping BT p)"
proof (induction L BT T Raw st arbitrary: st' rule: StoreStructFieldPrepare.induct)
  case (1 L BT Ts Raw st)
  show ?case
    by (rule foldR_invariant [where P = "\<lambda>st. \<forall>p. linked_in (snd st) p \<longrightarrow> hasGlobalMapping BT p",
          OF 1(2) [unfolded StoreStructFieldPrepare.simps] 1(3)]) (use 1(1) in auto)
next
  case (2 L BT n T Raw st)
  show ?case
    by (rule foldR_invariant [where P = "\<lambda>st. \<forall>p. linked_in (snd st) p \<longrightarrow> hasGlobalMapping BT p",
          OF 2(2) [unfolded StoreStructFieldPrepare.simps] 2(3)]) (use 2(1) in auto)
next
  case (3 L BT PTy Raw M Funcs)
  then show ?case
    by (auto simp: bindR_eq_Inr linked_in_def dest: LinkPointerIfPossible_registered split: if_splits)
qed (auto simp: bindR_eq_Inr)

definition plain_leaf :: "DataLayout \<Rightarrow> llvm_type \<Rightarrow> byte list \<Rightarrow> bool" where
  "plain_leaf DL T Raw \<longleftrightarrow> \<not> isPointerTy T \<and> leaf_ok DL (\<lambda>_. False) T Raw"

lemma foldR_stays: "(\<And>x. x \<in> set xs \<Longrightarrow> f x s = Inr s) \<Longrightarrow> foldR f xs s = Inr s"
  by (induction xs) auto

lemma leaf_prepare: "plain_leaf DL T Raw \<Longrightarrow> \<exists>x. GetConstantFromRaw DL T Raw = Inr x"
  by (cases T) (auto simp: plain_leaf_def leaf_ok_def read_raw_def Let_def)

lemma prepare_plain:
  "(\<forall>l \<in> set (type_leaves (data_layout L) T). plain_leaf (data_layout L) (snd l) (drop (fst l) Raw)) \<Longrightarrow>
   StoreStructFieldPrepare L BT T Raw st = Inr st"
proof (induction L BT T Raw st rule: StoreStructFieldPrepare.induct)
  case (1 L BT Ts Raw st)
  then show ?case unfolding StoreStructFieldPrepare.simps
    by (intro foldR_stays) (auto simp: leaf_ok_shift case_prod_unfold)
next
  case (2 L BT n T Raw st)
  then show ?case unfolding StoreStructFieldPrepare.simps
    by (intro foldR_stays) (auto simp: leaf_ok_shift mult.commute)
next
  case (3 L BT PTy Raw M Funcs)
  then show ?case by (simp add: plain_leaf_def)
qed (auto dest: leaf_prepare)


definition packed_layout :: DataLayout where
  "packed_layout = \<lparr>
     getTypeStoreSize = (\<lambda>T. case T of IntegerTy w \<Rightarrow> w div 8 | FloatTy \<Rightarrow> 4 | _ \<Rightarrow> 8),
     getTypeAllocSize = (\<lambda>T. case T of IntegerTy w \<Rightarrow> w div 8 | FloatTy \<Rightarrow> 4 | _ \<Rightarrow> 8),
     getElementOffset = (\<lambda>Ts i. 4 * i),
     getIntPtrType = IntegerTy 64\<rparr>"

definition sample_api :: llvm_api where
  "sample_api = \<lparr>parseBitcodeFile = (\<lambda>_. None), WriteBitcodeToFile = (\<lambda>_. []),
     linkModules = (\<lambda>M _. (M, True)), data_layout = packed_layout\<rparr>"




end
