(* ===== verification/Easy_Inline.thy ===== *)
theory Easy_Inline
  imports Easy_Struct
begin

text \<open>
  The pass that specializes a function (\<open>runtime/pass/InlineParameters.cpp\<close> and the layouts of
  \<open>InlineParametersHelper.cpp\<close>). It builds a wrapper that takes the forwarded parameters and calls the
  original function with them and with constants for the bound ones, privatizes the original and
  gives its name to the wrapper.

  The body of the wrapper is the call and the return. \<open>ArgVal p\<close> is parameter number \<open>p\<close> of the wrapper.
  A null \<open>Value*\<close> among the operands is \<open>None\<close>; building a call from it is undefined behaviour.
\<close>

subsection \<open>Layouts\<close>

record HighLevelArg =
  Position :: nat
  FirstParamIdx :: nat
  Types :: "llvm_type list"
  StructByPointer :: bool

record HighLevelLayout =
  StructReturn :: "llvm_type option"
  Args :: "HighLevelArg list"
  Return :: llvm_type

definition HighLevelArg_default :: HighLevelArg where
  "HighLevelArg_default = \<lparr>Position = 0, FirstParamIdx = 0, Types = [], StructByPointer = False\<rparr>"

definition hasStructRetAttr :: "ir_function \<Rightarrow> bool" where
  "hasStructRetAttr F \<longleftrightarrow> ''sret'' \<in> set (param_attrs F 0)"

fun layout_loop :: "llvm_type list \<Rightarrow> nat \<Rightarrow> nat \<Rightarrow> nat \<Rightarrow> HighLevelArg list result" where
  "layout_loop params ParamIdx ArgIdx 0 = Inr []"
| "layout_loop params ParamIdx ArgIdx (Suc n) =
     bindR (nth_checked params ParamIdx) (\<lambda>ParamTy.
     bindR (layout_loop params (ParamIdx + 1) (ArgIdx + 1) n) (\<lambda>rest.
       Inr (\<lparr>Position = ArgIdx, FirstParamIdx = ParamIdx, Types = [ParamTy],
             StructByPointer = isPointerTy ParamTy\<rparr> # rest)))"

definition HighLevelLayout_new :: "ir_function \<Rightarrow> HighLevelLayout result" where
  "HighLevelLayout_new F =
     (if fun_params F = [] then Inl UndefinedBehaviour
      else let sret = (if hasStructRetAttr F then Some (fun_params F ! 0) else None);
               ParamIdx = (if sret \<noteq> None then 1 else 0)
           in bindR (layout_loop (fun_params F) ParamIdx 0 (length (fun_params F))) (\<lambda>args.
                Inr \<lparr>StructReturn = sret, Args = args, Return = fun_ret F\<rparr>))"

definition NNewArgs :: "'m Argument list \<Rightarrow> nat" where
  "NNewArgs C = fold (\<lambda>Arg n. case as_Forward Arg of
     Some k \<Rightarrow> max n (unat (k + 1)) | None \<Rightarrow> n) C 0"

definition keep_forwarded ::
    "'m Context \<Rightarrow> HighLevelLayout \<Rightarrow> nat \<Rightarrow> uint set \<times> HighLevelArg list \<Rightarrow>
     (uint set \<times> HighLevelArg list) result" where
  "keep_forwarded C HLL arg st =
     bindR (getArgumentMapping C arg) (\<lambda>Arg.
       case as_Forward Arg of
         None \<Rightarrow> Inr st
       | Some k \<Rightarrow>
           (if k \<in> fst st then Inr st
            else if unat k < length (snd st)
            then bindR (nth_checked (Args HLL) arg) (\<lambda>A. Inr (insert k (fst st), (snd st)[unat k := A]))
            else Inl UndefinedBehaviour))"

fun set_param_idx :: "nat \<Rightarrow> HighLevelArg list \<Rightarrow> HighLevelArg list" where
  "set_param_idx ParamIdx [] = []"
| "set_param_idx ParamIdx (A # As) =
     A\<lparr>FirstParamIdx := ParamIdx\<rparr> # set_param_idx (ParamIdx + length (Types A)) As"

definition GetNewLayout :: "'m Context \<Rightarrow> HighLevelLayout \<Rightarrow> HighLevelLayout result" where
  "GetNewLayout C HLL =
     (if Context_size C \<noteq> length (Args HLL) then Inl AssertionFailure
      else bindR (foldR (keep_forwarded C HLL) [0..<length (Args HLL)]
                   ({}, replicate (NNewArgs (ArgumentMapping C)) HighLevelArg_default)) (\<lambda>(VisitedArgs, args).
             Inr (HLL\<lparr>Args := set_param_idx 0 args\<rparr>)))"

definition GetWrapperTy :: "HighLevelLayout \<Rightarrow> llvm_type list \<times> llvm_type" where
  "GetWrapperTy HLL =
     ((case StructReturn HLL of Some T \<Rightarrow> [T] | None \<Rightarrow> []) @ concat (map Types (Args HLL)), Return HLL)"

subsection \<open>The operands of the call\<close>

definition GetForwardArgs ::
    "HighLevelArg \<Rightarrow> HighLevelLayout \<Rightarrow> nat \<Rightarrow> HighLevelLayout \<Rightarrow> ir_value list result" where
  "GetForwardArgs ArgInF FHLL wrapper_args WrapperHLL =
     (case List.find (\<lambda>A. Position A = Position ArgInF) (Args WrapperHLL) of
        None \<Rightarrow> Inl UndefinedBehaviour
      | Some ArgInWrapper \<Rightarrow>
          mapR (\<lambda>j. let i = FirstParamIdx ArgInWrapper + j + (if StructReturn FHLL \<noteq> None then 1 else 0)
                    in if i < wrapper_args then Inr (ArgVal i) else Inl UndefinedBehaviour)
            [0..<length (Types ArgInF)])"

fun struct_by_value ::
    "DataLayout \<Rightarrow> byte list \<Rightarrow> llvm_type list \<Rightarrow> nat \<Rightarrow> ir_constant option list result" where
  "struct_by_value DL Struct [] RawOffset = Inr []"
| "struct_by_value DL Struct (FieldTy # Ts) RawOffset =
     (if length Struct \<le> RawOffset then Inl UndefinedBehaviour
      else bindR (GetConstantFromRaw DL FieldTy (drop RawOffset Struct)) (\<lambda>(FieldValue, RawSize).
           bindR (struct_by_value DL Struct Ts (RawOffset + RawSize)) (\<lambda>rest. Inr (FieldValue # rest))))"

definition link_module_argument ::
    "llvm_api \<Rightarrow> ir_module Function \<Rightarrow> ir_module \<Rightarrow> (ir_module \<times> ir_constant) result" where
  "link_module_argument L Fun M =
     bindR (GetEntryFunctionName (M_obj Fun)) (\<lambda>FunctionName.
       case CloneModuleWithContext L (M_obj Fun) of
         None \<Rightarrow> Inl AssertionFailure
       | Some LM \<Rightarrow>
           (case linkModules L M (UnmarkEntry LM) of (M', link_failed) \<Rightarrow>
              if link_failed then Inl (FatalError ''Failed to link with another module!'')
              else (case getFunction_named M' FunctionName of
                      None \<Rightarrow> Inl UndefinedBehaviour
                    | Some FunctionInM \<Rightarrow>
                        Inr (update_function FunctionInM (\<lambda>f. f\<lparr>fun_linkage := PrivateLinkage\<rparr>) M',
                             GlobalRef FunctionInM))))"

definition operands_of ::
    "llvm_api \<Rightarrow> BitcodeTracker \<Rightarrow> HighLevelLayout \<Rightarrow> nat \<Rightarrow> HighLevelLayout \<Rightarrow>
     ir_module Argument \<Rightarrow> HighLevelArg \<Rightarrow> ir_module \<Rightarrow> (ir_module \<times> ir_value option list) result" where
  "operands_of L BT FHLL wrapper_args WrapperHLL Arg ArgInF M =
     (case Arg of
        ForwardArgument k \<Rightarrow>
          bindR (GetForwardArgs ArgInF FHLL wrapper_args WrapperHLL) (\<lambda>vs. Inr (M, map Some vs))
      | IntArgument n \<Rightarrow>
          bindR (nth_checked (Types ArgInF) 0) (\<lambda>T.
          bindR (GetScalarArgument Arg T) (\<lambda>c. Inr (M, [map_option ConstVal c])))
      | FloatArgument d \<Rightarrow>
          bindR (nth_checked (Types ArgInF) 0) (\<lambda>T.
          bindR (GetScalarArgument Arg T) (\<lambda>c. Inr (M, [map_option ConstVal c])))
      | PtrArgument p \<Rightarrow>
          bindR (nth_checked (Types ArgInF) 0) (\<lambda>PtrTy.
          bindR (GetScalarArgument Arg PtrTy) (\<lambda>PtrVal.
          bindR (LinkPointerIfPossible L BT M p PtrTy) (\<lambda>(M', LinkedPtr).
            Inr (M', [map_option ConstVal (case LinkedPtr of Some c \<Rightarrow> Some c | None \<Rightarrow> PtrVal)]))))
      | StructArgument Struct \<Rightarrow>
          (if StructByPointer ArgInF then
             bindR (nth_checked (Types ArgInF) 0) (\<lambda>T.
             bindR (GetGlobalStruct L BT M Struct T) (\<lambda>(M', FieldValue).
               Inr (M', [Some (ConstVal FieldValue)])))
           else bindR (struct_by_value (data_layout L) Struct (Types ArgInF) 0) (\<lambda>cs.
               Inr (M, map (map_option ConstVal) cs)))
      | ModuleArgument Fun \<Rightarrow>
          (if length (Types ArgInF) \<noteq> 1 then Inl AssertionFailure
           else bindR (link_module_argument L Fun M) (\<lambda>(M', c). Inr (M', [Some (ConstVal c)]))))"

definition inline_arg ::
    "llvm_api \<Rightarrow> BitcodeTracker \<Rightarrow> ir_module Context \<Rightarrow> HighLevelLayout \<Rightarrow> nat \<Rightarrow> HighLevelLayout \<Rightarrow>
     nat \<Rightarrow> ir_module \<times> ir_value option list \<Rightarrow> (ir_module \<times> ir_value option list) result" where
  "inline_arg L BT C FHLL wrapper_args WrapperHLL i st =
     bindR (getArgumentMapping C i) (\<lambda>Arg.
     bindR (nth_checked (Args FHLL) i) (\<lambda>ArgInF.
     bindR (operands_of L BT FHLL wrapper_args WrapperHLL Arg ArgInF (fst st)) (\<lambda>(M', vs).
       Inr (M', snd st @ vs))))"

definition GetInlineArgs ::
    "llvm_api \<Rightarrow> BitcodeTracker \<Rightarrow> ir_module Context \<Rightarrow> HighLevelLayout \<Rightarrow> nat \<Rightarrow> HighLevelLayout \<Rightarrow>
     ir_module \<Rightarrow> (ir_module \<times> ir_value option list) result" where
  "GetInlineArgs L BT C FHLL wrapper_args WrapperHLL M =
     foldR (inline_arg L BT C FHLL wrapper_args WrapperHLL) [0..<Context_size C]
       (M, if StructReturn FHLL \<noteq> None then [Some (ArgVal 0)] else [])"

subsection \<open>The wrapper\<close>

definition addParamAttrs :: "nat \<Rightarrow> string list \<Rightarrow> ir_function \<Rightarrow> ir_function" where
  "addParamAttrs i attrs f = f\<lparr>param_attrs := (param_attrs f)(i := param_attrs f i @ attrs)\<rparr>"

definition RemapAttributes ::
    "ir_function \<Rightarrow> HighLevelLayout \<Rightarrow> HighLevelLayout \<Rightarrow> ir_function \<Rightarrow> ir_function result" where
  "RemapAttributes F HLL NewHLL Wrapper =
     foldR (\<lambda>NewArg W.
         bindR (nth_checked (Args HLL) (Position NewArg)) (\<lambda>OrgArg.
           Inr (fold (\<lambda>field. addParamAttrs (field + FirstParamIdx NewArg)
                        (param_attrs F (field + FirstParamIdx OrgArg)))
                  [0..<length (Types NewArg)] W)))
       (Args NewHLL) (Wrapper\<lparr>fn_attrs := fn_attrs Wrapper @ fn_attrs F\<rparr>)"

definition new_wrapper :: "HighLevelLayout \<Rightarrow> ir_function" where
  "new_wrapper NewHLL = \<lparr>fun_name = [], fun_ret = snd (GetWrapperTy NewHLL),
     fun_params = fst (GetWrapperTy NewHLL), fn_attrs = [], param_attrs = (\<lambda>_. []),
     fun_linkage = ExternalLinkage, fun_cc = 0, fun_body = Some []\<rparr>"

definition finish_wrapper ::
    "nat \<Rightarrow> HighLevelLayout \<Rightarrow> ir_value list \<Rightarrow> ir_function \<Rightarrow> ir_function" where
  "finish_wrapper F HLL args W =
     (let W1 = (if StructReturn HLL \<noteq> None then addParamAttrs 0 [''sret''] W else W)
      in W1\<lparr>fun_body := Some [CallInst (DirectCall F) args,
                 if Return HLL = VoidTy then RetVoid else RetCall]\<rparr>)"

definition CreateWrapperFun ::
    "llvm_api \<Rightarrow> BitcodeTracker \<Rightarrow> nat \<Rightarrow> HighLevelLayout \<Rightarrow> ir_module Context \<Rightarrow> ir_module \<Rightarrow>
     (nat \<times> ir_module) result" where
  "CreateWrapperFun L BT F HLL C M =
     bindR (GetNewLayout C HLL) (\<lambda>NewHLL.
     case add_function (new_wrapper NewHLL) M of (Wrapper, M1) \<Rightarrow>
       bindR (GetInlineArgs L BT C HLL (length (fst (GetWrapperTy NewHLL))) NewHLL M1) (\<lambda>(M2, args).
         if None \<in> set args then Inl UndefinedBehaviour
         else case (function_at M2 F, function_at M2 Wrapper) of
           (Some Fun, Some W) \<Rightarrow>
             bindR (RemapAttributes Fun HLL NewHLL (finish_wrapper F HLL (map the args) W)) (\<lambda>W'.
               Inr (Wrapper, update_function Wrapper (\<lambda>_. W') M2))
         | _ \<Rightarrow> Inl UndefinedBehaviour))"

definition InlineParameters_runOnModule ::
    "llvm_api \<Rightarrow> BitcodeTracker \<Rightarrow> string \<Rightarrow> ir_module Context \<Rightarrow> ir_module \<Rightarrow>
     (bool \<times> ir_module) result" where
  "InlineParameters_runOnModule L BT TargetName C M =
     (case getFunction_named M TargetName of
        None \<Rightarrow> Inl AssertionFailure
      | Some F \<Rightarrow>
          (case function_at M F of
             None \<Rightarrow> Inl UndefinedBehaviour
           | Some Fun \<Rightarrow>
               bindR (HighLevelLayout_new Fun) (\<lambda>HLL.
               bindR (CreateWrapperFun L BT F HLL C M) (\<lambda>(WrapperFun, M1).
                 case function_at M1 F of
                   None \<Rightarrow> Inl UndefinedBehaviour
                 | Some Fun1 \<Rightarrow>
                     let M2 = update_function F (\<lambda>f. f\<lparr>fun_linkage := PrivateLinkage\<rparr>) M1;
                         M3 = update_function F (\<lambda>f. f\<lparr>fun_name := []\<rparr>) M2;
                         M4 = update_function WrapperFun (\<lambda>w. w\<lparr>fun_name := fun_name Fun1\<rparr>) M3;
                         M5 = update_function WrapperFun (\<lambda>w. w\<lparr>fun_cc := 0\<rparr>) M4
                     in Inr (True, MarkAsEntry (fun_name Fun1) M5)))))"

subsection \<open>The layout of a function\<close>

definition param_arg :: "llvm_type list \<Rightarrow> nat \<Rightarrow> HighLevelArg" where
  "param_arg params i = \<lparr>Position = i, FirstParamIdx = i, Types = [params ! i],
     StructByPointer = isPointerTy (params ! i)\<rparr>"

definition layout_of :: "ir_function \<Rightarrow> HighLevelLayout" where
  "layout_of F = \<lparr>StructReturn = None, Args = map (param_arg (fun_params F)) [0..<length (fun_params F)],
     Return = fun_ret F\<rparr>"

lemma layout_loop_ok:
  "a + n \<le> length params \<Longrightarrow> layout_loop params a a n = Inr (map (param_arg params) [a..<a + n])"
proof (induction n arbitrary: a)
  case (Suc n)
  then have "layout_loop params (Suc a) (Suc a) n = Inr (map (param_arg params) [Suc a..<Suc a + n])" by simp
  moreover have "[a..<a + Suc n] = a # [Suc a..<Suc a + n]" by (simp add: upt_conv_Cons del: upt_Suc)
  ultimately show ?case using Suc.prems by (simp add: param_arg_def del: upt_Suc)
qed simp

lemma layout_loop_beyond:
  "length params < p + n \<Longrightarrow> p \<le> length params \<Longrightarrow> layout_loop params p a n = Inl UndefinedBehaviour"
proof (induction n arbitrary: p a)
  case (Suc n)
  then show ?case by (cases "p = length params") simp_all
qed simp

lemma HighLevelLayout_new_eq:
  "HighLevelLayout_new F =
     (if fun_params F = [] \<or> hasStructRetAttr F then Inl UndefinedBehaviour else Inr (layout_of F))"
proof (cases "hasStructRetAttr F")
  case True
  have "layout_loop (fun_params F) 1 0 (length (fun_params F)) = Inl UndefinedBehaviour" if "fun_params F \<noteq> []"
    using that by (intro layout_loop_beyond) (simp_all add: Suc_le_eq)
  with True show ?thesis by (auto simp: HighLevelLayout_new_def Let_def)
next
  case False
  then show ?thesis using layout_loop_ok [of 0 "length (fun_params F)" "fun_params F"]
    by (auto simp: HighLevelLayout_new_def Let_def layout_of_def)
qed

subsection \<open>The layout of the wrapper\<close>

text \<open>
  The specification: position \<open>p\<close> of the wrapper is the first argument that forwards \<open>p\<close>.
\<close>

definition forwards :: "nat \<Rightarrow> 'm Argument \<Rightarrow> bool" where
  "forwards p a \<longleftrightarrow> (case as_Forward a of Some k \<Rightarrow> unat k = p | None \<Rightarrow> False)"

definition first_forward :: "'m Argument list \<Rightarrow> nat \<Rightarrow> nat option" where
  "first_forward C p = first_index (forwards p) C"

definition new_arg :: "'m Argument list \<Rightarrow> HighLevelArg list \<Rightarrow> nat \<Rightarrow> HighLevelArg" where
  "new_arg C As p = (case first_forward C p of Some i \<Rightarrow> As ! i | None \<Rightarrow> HighLevelArg_default)"

lemma forwards_simps [simp]:
  "forwards p (ForwardArgument k) \<longleftrightarrow> unat k = p"
  "as_Forward a = None \<Longrightarrow> \<not> forwards p a"
  "as_Forward a = Some k \<Longrightarrow> forwards p a \<longleftrightarrow> unat k = p"
  by (cases a; simp add: forwards_def)+

definition forward_inv ::
    "'m Argument list \<Rightarrow> HighLevelArg list \<Rightarrow> nat \<Rightarrow> uint set \<times> HighLevelArg list \<Rightarrow> bool" where
  "forward_inv C As N st \<longleftrightarrow> length (snd st) = N \<and>
     (\<forall>k. k \<in> fst st \<longleftrightarrow> first_forward C (unat k) \<noteq> None) \<and> (\<forall>k \<in> fst st. unat k < N) \<and>
     (\<forall>p<N. snd st ! p = new_arg C As p)"

lemma keep_forwarded_step:
  assumes step: "keep_forwarded C HLL n st = Inr st'" and n: "n < Context_size C"
    and inv: "forward_inv (take n (ArgumentMapping C)) (Args HLL) N st"
  shows "forward_inv (take (Suc n) (ArgumentMapping C)) (Args HLL) N st'"
proof -
  let ?C = "ArgumentMapping C"
  have ff: "first_forward (take (Suc n) ?C) p = (case first_forward (take n ?C) p of
      Some i \<Rightarrow> Some i | None \<Rightarrow> if forwards p (?C ! n) then Some n else None)" for p
    using n by (simp add: Context_size_def take_Suc_conv_app_nth first_forward_def first_index_snoc
        split: option.split)
  have same: ?thesis if "first_forward (take (Suc n) ?C) = first_forward (take n ?C)" "st' = st"
    using that inv by (simp add: forward_inv_def new_arg_def)
  show ?thesis
  proof (cases "as_Forward (?C ! n)")
    case None
    with step n show ?thesis
      by (intro same) (auto simp: ff fun_eq_iff keep_forwarded_def getArgumentMapping_def Context_size_def
          split: option.split)
  next
    case (Some k)
    have fw: "forwards p (?C ! n) \<longleftrightarrow> p = unat k" for p using Some by auto
    show ?thesis
    proof (cases "k \<in> fst st")
      case True
      then have "first_forward (take n ?C) (unat k) \<noteq> None" using inv by (simp add: forward_inv_def)
      with True Some step n show ?thesis
        by (intro same) (auto simp: ff fw fun_eq_iff keep_forwarded_def getArgumentMapping_def
            Context_size_def split: option.split)
    next
      case False
      then have "first_forward (take n ?C) (unat k) = None" using inv by (auto simp: forward_inv_def)
      moreover from False Some step n have "unat k < length (snd st)"
          "st' = (insert k (fst st), (snd st)[unat k := Args HLL ! n])"
        by (auto simp: keep_forwarded_def getArgumentMapping_def Context_size_def result_simps split: if_splits)
      ultimately show ?thesis using inv
        by (auto simp: forward_inv_def ff fw new_arg_def nth_list_update word_unat_eq_iff split: option.splits)
    qed
  qed
qed

lemma keep_forwarded_loop:
  "foldR (keep_forwarded C HLL) [0..<n] st = Inr st' \<Longrightarrow> n \<le> Context_size C \<Longrightarrow>
   forward_inv (take 0 (ArgumentMapping C)) (Args HLL) N st \<Longrightarrow> forward_inv (take n (ArgumentMapping C)) (Args HLL) N st'"
proof (induction n arbitrary: st')
  case (Suc n)
  then obtain st1 where st1: "foldR (keep_forwarded C HLL) [0..<n] st = Inr st1" "keep_forwarded C HLL n st1 = Inr st'"
    by (auto simp: foldR_append bindR_eq_Inr)
  from st1(2) show ?case
    by (rule keep_forwarded_step) (use Suc st1(1) in auto)
qed simp

lemma set_param_idx_nth:
  "p < length As \<Longrightarrow> set_param_idx n As ! p =
     (As ! p)\<lparr>FirstParamIdx := n + sum_list (map (length \<circ> Types) (take p As))\<rparr>"
proof (induction As arbitrary: n p)
  case (Cons A As)
  then show ?case by (cases p) simp_all
qed simp

lemma set_param_idx_length [simp]: "length (set_param_idx n As) = length As"
  by (induction As arbitrary: n) simp_all

lemma set_param_idx_Types [simp]: "map Types (set_param_idx n As) = map Types As"
  by (induction As arbitrary: n) simp_all

lemma GetNewLayout_success:
  assumes "GetNewLayout C HLL = Inr New"
  shows "Context_size C = length (Args HLL) \<and>
    (\<forall>a \<in> set (ArgumentMapping C). \<forall>k. as_Forward a = Some k \<longrightarrow> unat k < NNewArgs (ArgumentMapping C)) \<and>
    New = HLL\<lparr>Args := set_param_idx 0 (map (new_arg (ArgumentMapping C) (Args HLL)) [0..<NNewArgs (ArgumentMapping C)])\<rparr>"
proof -
  let ?C = "ArgumentMapping C" and ?N = "NNewArgs (ArgumentMapping C)"
  from assms obtain V As where sz: "Context_size C = length (Args HLL)"
      and loop: "foldR (keep_forwarded C HLL) [0..<length (Args HLL)] ({}, replicate ?N HighLevelArg_default) = Inr (V, As)"
      and New: "New = HLL\<lparr>Args := set_param_idx 0 As\<rparr>"
    by (auto simp: GetNewLayout_def bindR_eq_Inr split: if_splits)
  have "forward_inv (take (length (Args HLL)) ?C) (Args HLL) ?N (V, As)"
    by (rule keep_forwarded_loop [OF loop])
      (simp_all add: sz forward_inv_def first_forward_def new_arg_def)
  then have inv: "forward_inv ?C (Args HLL) ?N (V, As)"
    using sz by (simp add: Context_size_def)
  have "unat k < ?N" if "a \<in> set ?C" "as_Forward a = Some k" for a k
  proof -
    have "first_forward ?C (unat k) \<noteq> None"
      using that by (auto simp: first_forward_def first_index_None intro!: bexI [of _ a])
    with inv show ?thesis by (auto simp: forward_inv_def)
  qed
  moreover have "As = map (new_arg ?C (Args HLL)) [0..<?N]"
    using inv by (auto simp: forward_inv_def intro!: nth_equalityI)
  ultimately show ?thesis using sz New by blast
qed

lemma NNewArgs_append: "NNewArgs (xs @ [a]) =
   (case as_Forward a of Some k \<Rightarrow> max (NNewArgs xs) (unat (k + 1)) | None \<Rightarrow> NNewArgs xs)"
  by (simp add: NNewArgs_def split: option.split)

lemma NNewArgs_bound:
  "a \<in> set C \<Longrightarrow> as_Forward a = Some k \<Longrightarrow> k \<noteq> -1 \<Longrightarrow> unat k < NNewArgs C"
proof (induction C rule: rev_induct)
  case (snoc x C)
  have "unat (k + 1) = Suc (unat k)"
    using snoc.prems(3) by (metis add.commute unatSuc add_eq_0_iff)
  with snoc show ?case by (auto simp: NNewArgs_append less_max_iff_disj split: option.split)
qed simp

lemma NNewArgs_least:
  "p < NNewArgs C \<Longrightarrow> \<exists>a \<in> set C. \<exists>k. as_Forward a = Some k \<and> p \<le> unat k"
proof (induction C rule: rev_induct)
  case (snoc x C)
  have "unat (k + 1) \<le> Suc (unat k)" for k :: uint
    by (cases "k + 1 = 0") (simp_all add: unatSuc add.commute)
  then have le: "p < unat (k + 1) \<Longrightarrow> p \<le> unat k" for k :: uint
    by (meson less_Suc_eq_le order_less_le_trans)
  show ?case
  proof (cases "p < NNewArgs C")
    case True
    with snoc.IH show ?thesis by auto
  next
    case False
    with snoc.prems obtain k where "as_Forward x = Some k" "p < unat (k + 1)"
      by (auto simp: NNewArgs_append less_max_iff_disj split: option.splits)
    with le show ?thesis by auto
  qed
qed (simp add: NNewArgs_def)

lemma GetNewLayout_total:
  assumes "Context_size C = length (Args HLL)" "ForwardArgument (-1) \<notin> set (ArgumentMapping C)"
  shows "\<exists>New. GetNewLayout C HLL = Inr New"
proof -
  let ?N = "NNewArgs (ArgumentMapping C)"
  have "\<exists>st. foldR (keep_forwarded C HLL) [0..<length (Args HLL)] ({}, replicate ?N HighLevelArg_default) = Inr st
      \<and> length (snd st) = ?N"
  proof (rule foldR_total)
    fix i :: nat and st :: "uint set \<times> HighLevelArg list"
    assume i: "i \<in> set [0..<length (Args HLL)]" and st: "length (snd st) = ?N"
    have mem: "ArgumentMapping C ! i \<in> set (ArgumentMapping C)"
      using i assms(1) by (simp add: Context_size_def)
    have "unat k < ?N" if "as_Forward (ArgumentMapping C ! i) = Some k" for k
    proof (rule NNewArgs_bound [OF mem that])
      from that have "ArgumentMapping C ! i = ForwardArgument k" by (cases "ArgumentMapping C ! i") auto
      with mem assms(2) show "k \<noteq> -1" by auto
    qed
    with i st assms(1) show "\<exists>v. keep_forwarded C HLL i st = Inr v \<and> length (snd v) = ?N"
      by (cases st) (auto simp: keep_forwarded_def getArgumentMapping_def Context_size_def split: option.split)
  qed simp
  with assms(1) show ?thesis by (auto simp: GetNewLayout_def)
qed

definition gapless :: "'m Argument list \<Rightarrow> bool" where
  "gapless C \<longleftrightarrow> (\<forall>p<NNewArgs C. first_forward C p \<noteq> None)"

definition forwards_once :: "'m Argument list \<Rightarrow> bool" where
  "forwards_once C \<longleftrightarrow> (\<forall>i<length C. \<forall>k. C ! i = ForwardArgument k \<longrightarrow> first_forward C (unat k) = Some i)"

definition wrapper_arg :: "'m Argument list \<Rightarrow> llvm_type list \<Rightarrow> nat \<Rightarrow> HighLevelArg" where
  "wrapper_arg C params p = (param_arg params (the (first_forward C p)))\<lparr>FirstParamIdx := p\<rparr>"

definition wrapper_params :: "'m Argument list \<Rightarrow> llvm_type list \<Rightarrow> llvm_type list" where
  "wrapper_params C params = map (\<lambda>p. params ! the (first_forward C p)) [0..<NNewArgs C]"

lemma first_forward_Some:
  "first_forward C p = Some i \<Longrightarrow> i < length C \<and> (\<exists>k. C ! i = ForwardArgument k \<and> unat k = p)"
  by (cases "C ! i") (auto simp: first_forward_def first_index_Some)

lemma first_forward_inj:
  "first_forward C p = Some i \<Longrightarrow> first_forward C q = Some i \<Longrightarrow> p = q"
  by (auto dest!: first_forward_Some)

lemma new_layout_plain:
  assumes New: "GetNewLayout C (layout_of F) = Inr New" and gap: "gapless (ArgumentMapping C)"
  shows "New = \<lparr>StructReturn = None,
      Args = map (wrapper_arg (ArgumentMapping C) (fun_params F)) [0..<NNewArgs (ArgumentMapping C)],
      Return = fun_ret F\<rparr>"
proof -
  let ?C = "ArgumentMapping C" and ?As = "map (new_arg (ArgumentMapping C) (Args (layout_of F))) [0..<NNewArgs (ArgumentMapping C)]"
  note ok = GetNewLayout_success [OF New]
  have arg: "?As ! p = param_arg (fun_params F) (the (first_forward ?C p))" if "p < NNewArgs ?C" for p
  proof -
    from gap that obtain i where i: "first_forward ?C p = Some i" by (auto simp: gapless_def)
    with ok have "i < length (fun_params F)"
      by (auto simp: layout_of_def Context_size_def dest: first_forward_Some)
    with i that show ?thesis by (simp add: new_arg_def layout_of_def)
  qed
  then have "\<forall>A \<in> set ?As. length (Types A) = 1"
    by (auto simp: in_set_conv_nth param_arg_def)
  then have "sum_list (map (length \<circ> Types) (take p ?As)) = p" if "p < NNewArgs ?C" for p
    using that by (subst map_cong [OF refl, of _ _ "\<lambda>_. 1"]) (auto dest!: in_set_takeD simp: sum_list_triv)
  with arg have "set_param_idx 0 ?As = map (wrapper_arg ?C (fun_params F)) [0..<NNewArgs ?C]"
    by (intro nth_equalityI) (auto simp: set_param_idx_nth wrapper_arg_def)
  with ok show ?thesis by (simp add: layout_of_def)
qed

lemma wrapper_type_plain:
  "GetWrapperTy \<lparr>StructReturn = None, Args = map (wrapper_arg C params) [0..<n], Return = r\<rparr> =
     (map (\<lambda>p. params ! the (first_forward C p)) [0..<n], r)"
  by (simp add: GetWrapperTy_def wrapper_arg_def param_arg_def comp_def concat_map_singleton)

lemma GetForwardArgs_plain:
  assumes gap: "gapless C" and i: "C ! i = ForwardArgument k" and k: "unat k < NNewArgs C"
  shows "GetForwardArgs (param_arg params i) HLL (NNewArgs C) \<lparr>StructReturn = None,
       Args = map (wrapper_arg C params) [0..<NNewArgs C], Return = r\<rparr> =
     (if first_forward C (unat k) = Some i
      then (if StructReturn HLL = None then Inr [ArgVal (unat k)] else
              (if Suc (unat k) < NNewArgs C then Inr [ArgVal (Suc (unat k))] else Inl UndefinedBehaviour))
      else Inl UndefinedBehaviour)"
proof -
  have pos: "Position (wrapper_arg C params p) = i \<longleftrightarrow> first_forward C p = Some i" if "p < NNewArgs C" for p
    using gap that by (auto simp: gapless_def wrapper_arg_def param_arg_def)
  show ?thesis
  proof (cases "first_forward C (unat k) = Some i")
    case True
    then have before: "Position (map (wrapper_arg C params) [0..<NNewArgs C] ! j) \<noteq> i" if "j < unat k" for j
      using that k pos [of j] first_forward_inj [of C j i "unat k"] by auto
    have "List.find (\<lambda>A. Position A = i) (map (wrapper_arg C params) [0..<NNewArgs C]) =
        Some (wrapper_arg C params (unat k))"
      unfolding find_Some_iff by (rule exI [of _ "unat k"]) (simp add: True k pos before)
    with True k show ?thesis
      by (simp add: GetForwardArgs_def param_arg_def wrapper_arg_def)
  next
    case False
    have "first_forward C p \<noteq> Some i" for p
      using False i first_forward_Some [of C p i] by (cases "p = unat k") auto
    with pos have "List.find (\<lambda>A. Position A = i) (map (wrapper_arg C params) [0..<NNewArgs C]) = None"
      by (simp add: find_None_iff)
    with False show ?thesis by (simp add: GetForwardArgs_def param_arg_def)
  qed
qed

subsection \<open>The operands\<close>

fun operand_spec ::
    "DataLayout \<Rightarrow> BitcodeTracker \<Rightarrow> llvm_type \<Rightarrow> ir_module Argument \<Rightarrow> ir_value \<Rightarrow> bool" where
  "operand_spec DL BT T (ForwardArgument k) v \<longleftrightarrow> v = ArgVal (unat k)"
| "operand_spec DL BT T (IntArgument n) v \<longleftrightarrow> v = ConstVal (ConstantInt T n True)"
| "operand_spec DL BT T (FloatArgument d) v \<longleftrightarrow> v = ConstVal (ConstantFP T (DLit d))"
| "operand_spec DL BT T (PtrArgument p) v \<longleftrightarrow>
     v = ConstVal (IntToPtr (ConstantInt (IntegerTy 64) p False) T) \<or>
     hasGlobalMapping BT p \<and> (\<exists>g. v = ConstVal (GlobalRef g) \<or> v = ConstVal (PointerCast (GlobalRef g) T))"
| "operand_spec DL BT T (StructArgument Struct) v \<longleftrightarrow>
     (if isPointerTy T then \<exists>g. v = ConstVal (GlobalRef g)
      else \<exists>c n. v = ConstVal c \<and> GetConstantFromRaw DL T Struct = Inr (Some c, n))"
| "operand_spec DL BT T (ModuleArgument f) v \<longleftrightarrow> (\<exists>g. v = ConstVal (GlobalRef g))"

definition plain_wrapper :: "'m Argument list \<Rightarrow> ir_function \<Rightarrow> HighLevelLayout" where
  "plain_wrapper C F = \<lparr>StructReturn = None,
     Args = map (wrapper_arg C (fun_params F)) [0..<NNewArgs C], Return = fun_ret F\<rparr>"

lemma ConstantInt_get_Inr: "ConstantInt_get T n s = Inr c \<Longrightarrow> c = ConstantInt T n s"
  by (cases "(T, n, s)" rule: ConstantInt_get.cases) auto

lemma ConstantFP_get_Inr: "ConstantFP_get T v = Inr c \<Longrightarrow> c = ConstantFP T v"
  by (cases T) auto

lemma LinkPointerIfPossible_constant:
  assumes "LinkPointerIfPossible L BT M p T = Inr (M', Some c)"
  shows "\<exists>g. c = GlobalRef g \<or> c = PointerCast (GlobalRef g) T"
proof -
  from assms obtain n LM where
    "(case linkModules L M LM of (M', link_failed) \<Rightarrow>
        if \<not> link_failed then
          (case getNamedValue M' n of
             None \<Rightarrow> Inl UndefinedBehaviour
           | Some GV \<Rightarrow>
               (case global_at M' GV of
                  Some G \<Rightarrow> Inr (update_global GV (\<lambda>g. g\<lparr>gv_linkage := PrivateLinkage\<rparr>) M',
                      Some (if PointerTy (gv_type G) \<noteq> T then PointerCast (GlobalRef GV) T else GlobalRef GV))
                | None \<Rightarrow>
                    (case function_at M' GV of
                       Some F \<Rightarrow> Inr (update_function GV (\<lambda>f. f\<lparr>fun_linkage := PrivateLinkage\<rparr>) M',
                           Some (GlobalRef GV))
                     | None \<Rightarrow> Inl AssertionFailure)))
        else Inr (M', None)) = Inr (M', Some c)"
    unfolding LinkPointerIfPossible_def bindR_eq_Inr by (auto simp: bindR_eq_Inr split: if_split_asm)
  then show ?thesis by (auto split: prod.splits if_splits option.splits)
qed

lemma GetGlobalStruct_constant:
  "GetGlobalStruct L BT M Struct T = Inr (M', c) \<Longrightarrow> \<exists>g. c = GlobalRef g"
  by (auto simp: GetGlobalStruct_def bindR_eq_Inr add_global_def split: llvm_type.splits)

lemma link_module_argument_constant:
  assumes "link_module_argument L Fun M = Inr (M', c)"
  shows "\<exists>g. c = GlobalRef g"
proof -
  from assms obtain n where "GetEntryFunctionName (M_obj Fun) = Inr n"
    by (auto simp: link_module_argument_def bindR_eq_Inr)
  with assms show ?thesis
    by (auto simp: link_module_argument_def split: option.splits prod.splits if_splits)
qed

lemma operands_of_plain:
  assumes gap: "gapless C" and i: "i < length C" and bound: "\<And>k. C ! i = ForwardArgument k \<Longrightarrow> unat k < NNewArgs C"
    and ops: "operands_of L BT (layout_of F) (NNewArgs C) (plain_wrapper C F)
       (C ! i) (param_arg (fun_params F) i) M = Inr (M', vs)"
  shows "\<exists>w. vs = [w] \<and> (\<forall>v. w = Some v \<longrightarrow> operand_spec (data_layout L) BT (fun_params F ! i) (C ! i) v) \<and>
     (\<forall>k. C ! i = ForwardArgument k \<longrightarrow> first_forward C (unat k) = Some i)"
proof (cases "C ! i")
  case (ForwardArgument k)
  have "StructReturn (layout_of F) = None" by (simp add: layout_of_def)
  with ops ForwardArgument show ?thesis
    using GetForwardArgs_plain [OF gap ForwardArgument bound [OF ForwardArgument], of "fun_params F" "layout_of F" "fun_ret F"]
    by (auto simp: operands_of_def plain_wrapper_def bindR_eq_Inr split: if_splits)
next
  case (PtrArgument p)
  with ops obtain c where c: "LinkPointerIfPossible L BT M p (fun_params F ! i) = Inr (M', c)"
      "vs = [map_option ConstVal (case c of Some c \<Rightarrow> Some c
         | None \<Rightarrow> Some (IntToPtr (ConstantInt (IntegerTy 64) p False) (fun_params F ! i)))]"
    by (auto simp: operands_of_def bindR_eq_Inr param_arg_def split: if_splits)
  show ?thesis
  proof (cases c)
    case (Some d)
    with c PtrArgument LinkPointerIfPossible_registered [of L BT M p _ M' d]
      LinkPointerIfPossible_constant [of L BT M p _ M' d] show ?thesis by auto
  qed (use c PtrArgument in simp)
next
  case (StructArgument Struct)
  with ops show ?thesis
    by (auto simp: operands_of_def bindR_eq_Inr param_arg_def split: if_splits
        dest: GetGlobalStruct_constant)
next
  case (ModuleArgument f)
  with ops show ?thesis
    by (auto simp: operands_of_def bindR_eq_Inr dest: link_module_argument_constant split: if_splits)
qed (use ops in \<open>auto simp: operands_of_def bindR_eq_Inr param_arg_def
    dest: ConstantInt_get_Inr ConstantFP_get_Inr\<close>)

lemma layout_of_simps [simp]:
  "StructReturn (layout_of F) = None"
  "Args (layout_of F) = map (param_arg (fun_params F)) [0..<length (fun_params F)]"
  "Return (layout_of F) = fun_ret F"
  by (simp_all add: layout_of_def)

lemma inline_arg_Inr:
  "inline_arg L BT C FHLL n New i st = Inr (M', vs) \<longleftrightarrow>
     i < Context_size C \<and> i < length (Args FHLL) \<and>
     (\<exists>ws. operands_of L BT FHLL n New (ArgumentMapping C ! i) (Args FHLL ! i) (fst st) = Inr (M', ws) \<and> vs = snd st @ ws)"
  by (auto simp: inline_arg_def bindR_eq_Inr getArgumentMapping_def nth_checked_eq_Inr Context_size_def)

lemma inline_args_loop:
  assumes gap: "gapless (ArgumentMapping C)"
    and size: "Context_size C = length (fun_params F)"
    and bound: "\<forall>a \<in> set (ArgumentMapping C). \<forall>k. as_Forward a = Some k \<longrightarrow> unat k < NNewArgs (ArgumentMapping C)"
  shows "n \<le> Context_size C \<Longrightarrow>
     foldR (inline_arg L BT C (layout_of F) (NNewArgs (ArgumentMapping C)) (plain_wrapper (ArgumentMapping C) F))
       [0..<n] (M, []) = Inr (M', vs) \<Longrightarrow>
     length vs = n \<and> (\<forall>i<n. (\<forall>v. vs ! i = Some v \<longrightarrow>
         operand_spec (data_layout L) BT (fun_params F ! i) (ArgumentMapping C ! i) v) \<and>
       (\<forall>k. ArgumentMapping C ! i = ForwardArgument k \<longrightarrow> first_forward (ArgumentMapping C) (unat k) = Some i))"
proof (induction n arbitrary: M' vs)
  case (Suc n)
  let ?C = "ArgumentMapping C"
  from Suc.prems size obtain M1 vs1 ws where
      step: "foldR (inline_arg L BT C (layout_of F) (NNewArgs ?C) (plain_wrapper ?C F)) [0..<n] (M, []) = Inr (M1, vs1)"
      and ops: "operands_of L BT (layout_of F) (NNewArgs ?C) (plain_wrapper ?C F) (?C ! n)
           (param_arg (fun_params F) n) M1 = Inr (M', ws)" and vs: "vs = vs1 @ ws"
    by (auto simp: foldR_append bindR_eq_Inr inline_arg_Inr)
  have n: "n < length ?C" using Suc.prems(1) by (simp add: Context_size_def)
  then have "unat k < NNewArgs ?C" if "?C ! n = ForwardArgument k" for k
    using bound that by (metis as_Forward.simps(1) nth_mem)
  from operands_of_plain [OF gap n this ops] obtain w where w: "ws = [w]"
      "\<forall>v. w = Some v \<longrightarrow> operand_spec (data_layout L) BT (fun_params F ! n) (?C ! n) v"
      "\<forall>k. ?C ! n = ForwardArgument k \<longrightarrow> first_forward ?C (unat k) = Some n" by blast
  from Suc.IH [OF _ step] Suc.prems(1) have "length vs1 = n" "\<forall>i<n. (\<forall>v. vs1 ! i = Some v \<longrightarrow>
         operand_spec (data_layout L) BT (fun_params F ! i) (?C ! i) v) \<and>
       (\<forall>k. ?C ! i = ForwardArgument k \<longrightarrow> first_forward ?C (unat k) = Some i)" by auto
  with w vs show ?case by (auto simp: nth_append less_Suc_eq)
qed simp

lemma fold_addParamAttrs_body [simp]:
  "fun_body (fold (\<lambda>i. addParamAttrs (f i) (g i)) xs W) = fun_body W"
  by (induction xs arbitrary: W) (simp_all add: addParamAttrs_def)

lemma RemapAttributes_body:
  assumes "RemapAttributes F HLL New W = Inr W'"
  shows "fun_body W' = fun_body W"
  by (rule foldR_invariant [OF assms [unfolded RemapAttributes_def], where P = "\<lambda>u. fun_body u = fun_body W"])
    (auto simp: bindR_eq_Inr)

lemma create_wrapper_operands:
  assumes create: "CreateWrapperFun L BT F (layout_of Fun) C M = Inr (W, M')"
    and gap: "gapless (ArgumentMapping C)"
  shows "Context_size C = length (fun_params Fun) \<and> forwards_once (ArgumentMapping C) \<and>
    (\<exists>w args ret. function_at M' W = Some w \<and> fun_body w = Some [CallInst (DirectCall F) args, ret] \<and>
       length args = length (fun_params Fun) \<and>
       (\<forall>i<length args. operand_spec (data_layout L) BT (fun_params Fun ! i) (ArgumentMapping C ! i) (args ! i)))"
proof -
  let ?C = "ArgumentMapping C" and ?HLL = "layout_of Fun"
  from create obtain New M2 vs Fun' W0 w where New: "GetNewLayout C ?HLL = Inr New"
      and args: "GetInlineArgs L BT C ?HLL (length (fst (GetWrapperTy New))) New
          (snd (add_function (new_wrapper New) M)) = Inr (M2, vs)"
      and none: "None \<notin> set vs" and W0: "function_at M2 W = Some W0"
      and remap: "RemapAttributes Fun' ?HLL New (finish_wrapper F ?HLL (map the vs) W0) = Inr w"
      and M': "M' = update_function W (\<lambda>_. w) M2"
    by (auto simp: CreateWrapperFun_def bindR_eq_Inr case_prod_unfold split: if_splits option.splits)
  note ok = GetNewLayout_success [OF New]
  have size: "Context_size C = length (fun_params Fun)" using ok by simp
  have New_eq: "New = plain_wrapper ?C Fun"
    using new_layout_plain [OF New gap] by (simp add: plain_wrapper_def)
  have N: "length (fst (GetWrapperTy New)) = NNewArgs ?C"
    by (simp add: New_eq plain_wrapper_def wrapper_type_plain)
  have loop: "length vs = Context_size C \<and> (\<forall>i<Context_size C. (\<forall>v. vs ! i = Some v \<longrightarrow>
         operand_spec (data_layout L) BT (fun_params Fun ! i) (?C ! i) v) \<and>
       (\<forall>k. ?C ! i = ForwardArgument k \<longrightarrow> first_forward ?C (unat k) = Some i))"
    by (rule inline_args_loop [OF gap size _ order.refl])
      (use ok args N New_eq in \<open>auto simp: GetInlineArgs_def\<close>)
  have "vs ! i = Some (map the vs ! i)" if "i < length vs" for i
    using none that by (metis nth_map nth_mem option.collapse)
  with loop size have "\<forall>i<length (map the vs).
      operand_spec (data_layout L) BT (fun_params Fun ! i) (?C ! i) (map the vs ! i)" by auto
  moreover have "function_at M' W = Some w" using W0 M' by simp
  moreover have "fun_body w = Some [CallInst (DirectCall F) (map the vs),
      if fun_ret Fun = VoidTy then RetVoid else RetCall]"
    using RemapAttributes_body [OF remap] by (simp add: finish_wrapper_def)
  moreover have "forwards_once ?C" using loop by (auto simp: forwards_once_def Context_size_def)
  ultimately show ?thesis using size loop by (metis length_map)
qed

subsection \<open>Contexts of scalars\<close>

text \<open>
  Where no module is linked the result of the pass is known in full: \<open>scalar_ok\<close> says which arguments
  these are, for a parameter of the given type, and \<open>specialized\<close> is the function that replaces the
  original one.
\<close>

fun scalar_ok :: "BitcodeTracker \<Rightarrow> llvm_type \<Rightarrow> 'm Argument \<Rightarrow> bool" where
  "scalar_ok BT T (ForwardArgument k) \<longleftrightarrow> k \<noteq> -1"
| "scalar_ok BT T (IntArgument n) \<longleftrightarrow> (case T of IntegerTy w \<Rightarrow> True | _ \<Rightarrow> False)"
| "scalar_ok BT T (FloatArgument d) \<longleftrightarrow> (case T of FloatTy \<Rightarrow> True | DoubleTy \<Rightarrow> True | OtherFPTy n \<Rightarrow> True | _ \<Rightarrow> False)"
| "scalar_ok BT T (PtrArgument p) \<longleftrightarrow> isPointerTy T \<and> \<not> hasGlobalMapping BT p"
| "scalar_ok BT T _ \<longleftrightarrow> False"

fun scalar_operand :: "llvm_type \<Rightarrow> 'm Argument \<Rightarrow> ir_value" where
  "scalar_operand T (ForwardArgument k) = ArgVal (unat k)"
| "scalar_operand T (IntArgument n) = ConstVal (ConstantInt T n True)"
| "scalar_operand T (FloatArgument d) = ConstVal (ConstantFP T (DLit d))"
| "scalar_operand T (PtrArgument p) = ConstVal (IntToPtr (ConstantInt (IntegerTy 64) p False) T)"
| "scalar_operand T _ = ArgVal 0"

definition scalar_context :: "BitcodeTracker \<Rightarrow> ir_function \<Rightarrow> 'm Argument list \<Rightarrow> bool" where
  "scalar_context BT F C \<longleftrightarrow> fun_params F \<noteq> [] \<and> \<not> hasStructRetAttr F \<and>
     list_all2 (scalar_ok BT) (fun_params F) C \<and> gapless C \<and> forwards_once C"

definition specialized :: "nat \<Rightarrow> ir_function \<Rightarrow> 'm Argument list \<Rightarrow> ir_function" where
  "specialized F Fun C = \<lparr>fun_name = fun_name Fun, fun_ret = fun_ret Fun,
     fun_params = wrapper_params C (fun_params Fun), fn_attrs = fn_attrs Fun,
     param_attrs = (\<lambda>p. if p < NNewArgs C then param_attrs Fun (the (first_forward C p)) else []),
     fun_linkage = ExternalLinkage, fun_cc = 0,
     fun_body = Some [CallInst (DirectCall F) (map2 scalar_operand (fun_params Fun) C),
        if fun_ret Fun = VoidTy then RetVoid else RetCall]\<rparr>"

lemma scalar_bound:
  assumes "scalar_context BT F C" "a \<in> set C" "as_Forward a = Some k"
  shows "unat k < NNewArgs C"
proof (rule NNewArgs_bound [OF assms(2,3)])
  from assms(3) have "a = ForwardArgument k" by (cases a) auto
  with assms(1,2) show "k \<noteq> -1" by (auto simp: scalar_context_def list_all2_conv_all_nth in_set_conv_nth)
qed

lemma scalar_operand_at:
  assumes ok: "scalar_ok BT (fun_params F ! i) (C ! i)" and gap: "gapless C" and once: "forwards_once C" and i: "i < length C"
  shows "operands_of L BT (layout_of F) (NNewArgs C) (plain_wrapper C F) (C ! i) (param_arg (fun_params F) i) M =
     Inr (M, [Some (scalar_operand (fun_params F ! i) (C ! i))])"
proof (cases "C ! i")
  case (ForwardArgument k)
  then have "first_forward C (unat k) = Some i" using once i by (simp add: forwards_once_def)
  moreover have "unat k < NNewArgs C"
    using NNewArgs_bound [OF nth_mem [OF i], of k] ok ForwardArgument by simp
  ultimately show ?thesis
    using ForwardArgument GetForwardArgs_plain [OF gap ForwardArgument, of "fun_params F" "layout_of F" "fun_ret F"]
    by (simp add: operands_of_def plain_wrapper_def)
qed (use ok in \<open>auto simp: operands_of_def param_arg_def LinkPointerIfPossible_unregistered
    split: llvm_type.splits\<close>)

lemma scalar_operands:
  assumes "scalar_context BT F C" and "i < length C"
  shows "operands_of L BT (layout_of F) (NNewArgs C) (plain_wrapper C F) (C ! i) (param_arg (fun_params F) i) M =
     Inr (M, [Some (scalar_operand (fun_params F ! i) (C ! i))])"
  using assms by (intro scalar_operand_at) (auto simp: scalar_context_def list_all2_conv_all_nth)

lemma scalar_inline_args:
  assumes ctx: "scalar_context BT F (ArgumentMapping C)"
  shows "GetInlineArgs L BT C (layout_of F) (NNewArgs (ArgumentMapping C)) (plain_wrapper (ArgumentMapping C) F) M =
     Inr (M, map Some (map2 scalar_operand (fun_params F) (ArgumentMapping C)))"
proof -
  let ?C = "ArgumentMapping C"
  have len: "length (fun_params F) = length ?C"
    using ctx by (auto simp: scalar_context_def dest: list_all2_lengthD)
  have "n \<le> length ?C \<Longrightarrow>
      foldR (inline_arg L BT C (layout_of F) (NNewArgs ?C) (plain_wrapper ?C F)) [0..<n] (M, []) =
      Inr (M, map (\<lambda>i. Some (scalar_operand (fun_params F ! i) (?C ! i))) [0..<n])" for n
    by (induction n) (simp_all add: foldR_append inline_arg_def getArgumentMapping_def len scalar_operands [OF ctx])
  moreover have "map (\<lambda>i. Some (scalar_operand (fun_params F ! i) (?C ! i))) [0..<length ?C] =
      map Some (map2 scalar_operand (fun_params F) ?C)"
    using len by (intro nth_equalityI) simp_all
  ultimately show ?thesis by (simp add: GetInlineArgs_def Context_size_def)
qed

lemma RemapAttributes_plain:
  assumes size: "length C = length (fun_params F)" and gap: "gapless C"
  shows "RemapAttributes F (layout_of F) (plain_wrapper C F) W =
     Inr (W\<lparr>fn_attrs := fn_attrs W @ fn_attrs F, param_attrs := (\<lambda>p. param_attrs W p @
        (if p < NNewArgs C then param_attrs F (the (first_forward C p)) else []))\<rparr>)"
proof -
  have "the (first_forward C p) < length (fun_params F)" if "p < NNewArgs C" for p
    using gap that size first_forward_Some [of C p] by (fastforce simp: gapless_def)
  then have "n \<le> NNewArgs C \<Longrightarrow> foldR (\<lambda>NewArg W.
         bindR (nth_checked (Args (layout_of F)) (Position NewArg)) (\<lambda>OrgArg.
           Inr (fold (\<lambda>field. addParamAttrs (field + FirstParamIdx NewArg)
                        (param_attrs F (field + FirstParamIdx OrgArg)))
                  [0..<length (Types NewArg)] W)))
       (map (wrapper_arg C (fun_params F)) [0..<n]) W =
     Inr (W\<lparr>param_attrs := (\<lambda>p. param_attrs W p @
        (if p < n then param_attrs F (the (first_forward C p)) else []))\<rparr>)" for n W
    by (induction n)
      (auto simp: foldR_append wrapper_arg_def param_arg_def addParamAttrs_def fun_eq_iff less_Suc_eq
        intro!: ir_function.equality)
  from this [OF order.refl] show ?thesis
    by (simp add: RemapAttributes_def plain_wrapper_def)
qed

lemma create_wrapper_scalar:
  assumes ctx: "scalar_context BT Fun (ArgumentMapping C)"
    and ok: "module_ok M" and F: "function_at M F = Some Fun"
  shows "\<exists>M'. CreateWrapperFun L BT F (layout_of Fun) C M = Inr (mod_next M, M') \<and>
     M' = update_function (mod_next M)
            (\<lambda>_. (specialized F Fun (ArgumentMapping C))\<lparr>fun_name := []\<rparr>)
            (snd (add_function (new_wrapper (plain_wrapper (ArgumentMapping C) Fun)) M))"
proof -
  let ?C = "ArgumentMapping C"
  have len: "length (fun_params Fun) = length ?C" and gap: "gapless ?C"
    using ctx by (auto simp: scalar_context_def dest: list_all2_lengthD)
  have "ForwardArgument (-1) \<notin> set ?C"
    using ctx by (auto simp: scalar_context_def list_all2_conv_all_nth in_set_conv_nth)
  then obtain New where New: "GetNewLayout C (layout_of Fun) = Inr New"
    using GetNewLayout_total [of C "layout_of Fun"] len by (auto simp: Context_size_def)
  have New_eq: "New = plain_wrapper ?C Fun"
    using new_layout_plain [OF New gap] by (simp add: plain_wrapper_def)
  have ty: "GetWrapperTy New = (wrapper_params ?C (fun_params Fun), fun_ret Fun)"
    by (simp add: New_eq plain_wrapper_def wrapper_type_plain wrapper_params_def)
  have neq: "F \<noteq> mod_next M" using module_next_fresh [OF ok] F by auto
  let ?M1 = "snd (add_function (new_wrapper New) M)"
  have at: "function_at ?M1 F = Some Fun" "function_at ?M1 (mod_next M) = Some (new_wrapper New)"
    using F neq by (simp_all add: function_at_add_function [OF ok])
  have "RemapAttributes Fun (layout_of Fun) New (finish_wrapper F (layout_of Fun)
      (map2 scalar_operand (fun_params Fun) ?C) (new_wrapper New)) = Inr ((specialized F Fun ?C)\<lparr>fun_name := []\<rparr>)"
    unfolding New_eq RemapAttributes_plain [OF len [symmetric] gap]
    using ty by (simp add: New_eq finish_wrapper_def new_wrapper_def specialized_def)
  moreover have "length (fst (GetWrapperTy New)) = NNewArgs ?C"
    using ty by (simp add: wrapper_params_def)
  ultimately show ?thesis
    using New at scalar_inline_args [OF ctx, of L ?M1]
    by (auto simp: CreateWrapperFun_def New_eq add_function_def case_prod_unfold comp_def)
qed

definition unique_names :: "ir_module \<Rightarrow> bool" where
  "unique_names M \<longleftrightarrow> distinct (filter (\<lambda>n. n \<noteq> []) (map (fun_name \<circ> snd) (mod_funs M)))"

lemma getFunction_named_Some:
  assumes "getFunction_named M Name = Some F" "module_ok M"
  shows "\<exists>Fun. function_at M F = Some Fun \<and> fun_name Fun = Name \<and> (F, Fun) \<in> set (mod_funs M)"
proof -
  from assms(1) obtain Fun where "(F, Fun) \<in> set (mod_funs M)" "fun_name Fun = Name"
    by (force simp: getFunction_named_def find_by_def find_Some_iff dest: nth_mem)
  moreover from this have "function_at M F = Some Fun"
    using assms(2) by (auto simp: function_at_def module_ok_def)
  ultimately show ?thesis by blast
qed

lemma unique_function:
  assumes "unique_names M" "(i, f) \<in> set (mod_funs M)" "(j, g) \<in> set (mod_funs M)"
    and "fun_name f = fun_name g" "fun_name f \<noteq> []"
  shows "i = j"
proof -
  let ?xs = "filter (\<lambda>x. fun_name (snd x) \<noteq> []) (mod_funs M)"
  have "distinct (map (fun_name \<circ> snd) ?xs)" using assms(1) by (simp add: unique_names_def filter_map comp_def)
  moreover have "(i, f) \<in> set ?xs" "(j, g) \<in> set ?xs" using assms by auto
  ultimately have "(i, f) = (j, g)"
    using assms(4) unfolding distinct_map by (elim conjE inj_onD) simp_all
  then show ?thesis by simp
qed

lemma takeName_scalar:
  assumes M1: "M1 = update_function W (\<lambda>_. w) (snd (add_function w0 M))" and W: "W = mod_next M"
    and ok: "module_ok M" and un: "unique_names M"
    and F: "getFunction_named M Name = Some F" and Name: "Name \<noteq> []" and w: "fun_name w = Name"
  shows "getFunction_named (update_function F (\<lambda>f. f\<lparr>fun_linkage := PrivateLinkage, fun_name := []\<rparr>) M1) Name = Some W"
proof -
  let ?g = "\<lambda>f. f\<lparr>fun_linkage := PrivateLinkage, fun_name := []\<rparr>"
  obtain Fun where Fun: "(F, Fun) \<in> set (mod_funs M)" "fun_name Fun = Name"
    using getFunction_named_Some [OF F ok] by blast
  have fresh: "fst x \<noteq> W" if "x \<in> set (mod_funs M)" for x
    using ok that unfolding module_ok_def W by (metis UnCI imageI less_irrefl set_append set_map)
  then have "F \<noteq> W" using Fun(1) by force
  have "map (\<lambda>(j, x). (j, if j = W then w else x)) (mod_funs M) = mod_funs M"
    using fresh by (intro map_idI) auto
  then have funs: "mod_funs (update_function F ?g M1) =
      map (\<lambda>(j, x). (j, if j = F then ?g x else x)) (mod_funs M) @ [(W, w)]"
    using \<open>F \<noteq> W\<close> by (simp add: M1 W update_function_def add_function_def)
  have "fun_name (snd x) \<noteq> Name" if "x \<in> set (map (\<lambda>(j, x). (j, if j = F then ?g x else x)) (mod_funs M))" for x
  proof -
    from that obtain j f where "(j, f) \<in> set (mod_funs M)" "x = (j, if j = F then ?g f else f)" by auto
    with unique_function [OF un _ Fun(1), of j f] Fun(2) Name show ?thesis by auto
  qed
  then have "List.find (\<lambda>(i, x). fun_name x = Name) (map (\<lambda>(j, x). (j, if j = F then ?g x else x)) (mod_funs M)) = None"
    unfolding find_None_iff case_prod_unfold by blast
  with w show ?thesis by (simp add: getFunction_named_def find_by_def funs find_append)
qed

lemma update_function_twice:
  "update_function i f (update_function i g M) = update_function i (\<lambda>x. f (g x)) M"
  by (simp add: update_function_def comp_def case_prod_unfold)

lemma update_function_commute:
  "i \<noteq> j \<Longrightarrow> update_function i f (update_function j g M) = update_function j g (update_function i f M)"
  by (auto simp: update_function_def comp_def case_prod_unfold)

lemma MarkAsEntry_funs [simp]:
  "mod_funs (MarkAsEntry n M) = mod_funs M"
  "function_at (MarkAsEntry n M) i = function_at M i"
  "getFunction_named (MarkAsEntry n M) Name = getFunction_named M Name"
  by (simp_all add: MarkAsEntry_def Let_def getOrInsertNamedMetadata_def function_at_def
      getFunction_named_def split: option.split)

lemma entry_marks_update [simp]:
  "entry_marks (update_function i f M) = entry_marks M"
  "entry_marks (snd (add_function w M)) = entry_marks M"
  by (simp_all add: entry_marks_def getNamedMetadata_def update_function_def add_function_def)

lemma run_scalar:
  assumes ok: "module_ok M" and named: "getFunction_named M Name = Some F" and F: "function_at M F = Some Fun"
    and ctx: "scalar_context BT Fun (ArgumentMapping C)"
  shows "InlineParameters_runOnModule L BT Name C M = Inr (True, MarkAsEntry Name
     (update_function F (\<lambda>f. f\<lparr>fun_linkage := PrivateLinkage, fun_name := []\<rparr>)
       (update_function (mod_next M) (\<lambda>_. specialized F Fun (ArgumentMapping C))
         (snd (add_function (new_wrapper (plain_wrapper (ArgumentMapping C) Fun)) M)))))"
proof -
  let ?C = "ArgumentMapping C" and ?W = "mod_next M"
  let ?M1 = "snd (add_function (new_wrapper (plain_wrapper ?C Fun)) M)"
  let ?s = "specialized F Fun ?C"
  have neq: "F \<noteq> ?W" using module_next_fresh [OF ok] F by auto
  have Name: "fun_name Fun = Name" using getFunction_named_Some [OF named ok] F by auto
  have at: "function_at ?M1 F = Some Fun" using neq F by (simp add: function_at_add_function [OF ok])
  have new: "HighLevelLayout_new Fun = Inr (layout_of Fun)"
    using ctx by (simp add: HighLevelLayout_new_eq scalar_context_def)
  have names: "fun_name ?s = Name" "fun_cc ?s = 0" using Name by (simp_all add: specialized_def)
  then have s: "?s\<lparr>fun_name := [], fun_name := Name, fun_cc := 0\<rparr> = ?s" by simp
  have commute: "update_function ?W f (update_function F g X) = update_function F g (update_function ?W f X)" for f g X
    using neq by (simp add: update_function_commute)
  show ?thesis
    using create_wrapper_scalar [OF ctx ok F, of L] named F new at neq Name s
    by (auto simp: InlineParameters_runOnModule_def Let_def update_function_twice commute)
qed

lemma inline_scalar_result:
  assumes "module_ok M" and "unique_names M" and "Name \<noteq> []"
    and "getFunction_named M Name = Some F" and "function_at M F = Some Fun"
    and "scalar_context BT Fun (ArgumentMapping C)"
  shows "\<exists>M'. InlineParameters_runOnModule L BT Name C M = Inr (True, M') \<and>
     getFunction_named M' Name = Some (mod_next M) \<and>
     function_at M' (mod_next M) = Some (specialized F Fun (ArgumentMapping C)) \<and>
     function_at M' F = Some (Fun\<lparr>fun_linkage := PrivateLinkage, fun_name := []\<rparr>) \<and>
     (\<forall>i. i \<noteq> F \<and> i \<noteq> mod_next M \<longrightarrow> function_at M' i = function_at M i) \<and>
     entry_marks M' = entry_marks M @ [Name]"
proof -
  have neq: "F \<noteq> mod_next M" using module_next_fresh [OF assms(1)] assms(5) by auto
  have name: "fun_name (specialized F Fun (ArgumentMapping C)) = Name"
    using getFunction_named_Some [OF assms(4,1)] assms(5) by (auto simp: specialized_def)
  show ?thesis
    unfolding run_scalar [OF assms(1,4,5,6)]
    using takeName_scalar [OF refl refl assms(1,2,4,3) name] neq assms(5)
    by (auto simp: function_at_add_function [OF assms(1)] entry_marks_mark)
qed

text \<open>
  C5. The pass on a context of scalars: for every module, every function with parameters and without an
  \<open>sret\<close> parameter, and every context whose arguments fit the parameters and that forwards each
  placeholder 1 to n once, the pass succeeds. The function found under the target's name is then the
  wrapper: it has the forwarded parameters in placeholder order with their attributes, the return
  type and the function attributes of the original, and its body calls the original with each
  forwarded parameter in its place and with the bound constants elsewhere. The original is kept,
  private and without a name; no other function changes; the wrapper is the entry.
\<close>
theorem InlineParameters_scalar:
  assumes "module_ok M" and "unique_names M" and "Name \<noteq> []"
    and "getFunction_named M Name = Some F" and "function_at M F = Some Fun"
    and "scalar_context BT Fun (ArgumentMapping C)"
  shows "\<exists>M'. InlineParameters_runOnModule L BT Name C M = Inr (True, M') \<and>
     getFunction_named M' Name = Some (mod_next M) \<and>
     function_at M' (mod_next M) = Some (specialized F Fun (ArgumentMapping C)) \<and>
     function_at M' F = Some (Fun\<lparr>fun_linkage := PrivateLinkage, fun_name := []\<rparr>) \<and>
     (\<forall>i. i \<noteq> F \<and> i \<noteq> mod_next M \<longrightarrow> function_at M' i = function_at M i) \<and>
     entry_marks M' = entry_marks M @ [Name]"
  using assms by (rule inline_scalar_result)

definition sample_fun :: ir_function where
  "sample_fun = \<lparr>fun_name = ''f'', fun_ret = IntegerTy 32, fun_params = [IntegerTy 32, IntegerTy 8, DoubleTy],
     fn_attrs = [''nounwind''], param_attrs = (\<lambda>_. []), fun_linkage = ExternalLinkage, fun_cc = 0, fun_body = None\<rparr>"

definition sample_module :: ir_module where
  "sample_module = \<lparr>mod_funs = [(0, sample_fun)], mod_globals = [], mod_next = 1, named_md = []\<rparr>"

definition sample_context :: "ir_module Context" where
  "sample_context = Context_new\<lparr>ArgumentMapping := [ForwardArgument 1, IntArgument 7, ForwardArgument 0]\<rparr>"

lemma sample_forward:
  "ArgumentMapping sample_context = [ForwardArgument 1, IntArgument 7, ForwardArgument 0]"
  "NNewArgs [ForwardArgument 1, IntArgument 7, ForwardArgument 0] = 2"
  "first_forward [ForwardArgument 1, IntArgument 7, ForwardArgument 0] 0 = Some 2"
  "first_forward [ForwardArgument 1, IntArgument 7, ForwardArgument 0] (Suc 0) = Some 0"
  by (simp_all add: sample_context_def NNewArgs_def first_forward_def)

lemma sample_scalar_context: "scalar_context BT sample_fun (ArgumentMapping sample_context)"
  unfolding sample_forward(1) scalar_context_def gapless_def forwards_once_def
  by (auto simp: sample_forward sample_fun_def hasStructRetAttr_def less_2_cases_iff nth_Cons less_Suc_eq
      split: nat.splits)

lemma sample_module_facts:
  "module_ok sample_module" "unique_names sample_module" "getFunction_named sample_module ''f'' = Some 0"
  "function_at sample_module 0 = Some sample_fun"
  by (simp_all add: module_ok_def unique_names_def sample_module_def sample_fun_def getFunction_named_def
      find_by_def function_at_def)

theorem InlineParameters_scalar_witness:
  "\<exists>M'. InlineParameters_runOnModule sample_api TheTracker ''f'' sample_context sample_module = Inr (True, M') \<and>
     map_option fun_params (function_at M' 1) = Some [DoubleTy, IntegerTy 32] \<and>
     map_option fun_body (function_at M' 1) = Some (Some [CallInst (DirectCall 0)
       [ArgVal 1, ConstVal (ConstantInt (IntegerTy 8) 7 True), ArgVal 0], RetCall])"
proof -
  have "specialized 0 sample_fun (ArgumentMapping sample_context) = \<lparr>fun_name = ''f'', fun_ret = IntegerTy 32,
     fun_params = [DoubleTy, IntegerTy 32], fn_attrs = [''nounwind''],
     param_attrs = (\<lambda>_. []), fun_linkage = ExternalLinkage, fun_cc = 0,
     fun_body = Some [CallInst (DirectCall 0)
       [ArgVal 1, ConstVal (ConstantInt (IntegerTy 8) 7 True), ArgVal 0], RetCall]\<rparr>"
    unfolding specialized_def wrapper_params_def sample_forward(1)
    by (simp add: sample_fun_def sample_forward upt_rec fun_eq_iff)
  with InlineParameters_scalar [OF sample_module_facts(1,2) _ sample_module_facts(3,4)
      sample_scalar_context [of TheTracker], of sample_api]
  show ?thesis by (auto simp: sample_module_def)
qed



text \<open>
  C32. A placeholder that is written twice never compiles: for a context without gaps in which two
  arguments forward the same index, no wrapper is built. The second argument has no entry in the
  wrapper's layout and \<open>GetForwardArgs\<close> dereferences the end of the list.
\<close>
theorem repeated_placeholder_fails:
  assumes "gapless (ArgumentMapping C)" and "i < j" and "j < Context_size C"
    and "ArgumentMapping C ! i = ForwardArgument k" and "ArgumentMapping C ! j = ForwardArgument k"
    and "getFunction_named M Name = Some F" and "function_at M F = Some Fun"
  shows "InlineParameters_runOnModule L BT Name C M \<noteq> Inr r"
proof
  assume "InlineParameters_runOnModule L BT Name C M = Inr r"
  with assms(6,7) obtain WM where new: "HighLevelLayout_new Fun = Inr (layout_of Fun)"
      and W: "CreateWrapperFun L BT F (layout_of Fun) C M = Inr WM"
    by (auto simp: InlineParameters_runOnModule_def HighLevelLayout_new_eq bindR_eq_Inr split: if_splits)
  have once: "forwards_once (ArgumentMapping C)"
    using create_wrapper_operands [of L BT F Fun C M "fst WM" "snd WM"] W assms(1) by simp
  have "i < Context_size C" using assms(2,3) by simp
  with once assms(3-5) have "Some i = Some j"
    unfolding forwards_once_def Context_size_def by metis
  with assms(2) show False by simp
qed

theorem repeated_placeholder_fails_witness:
  "\<not> (\<exists>r. InlineParameters_runOnModule sample_api TheTracker ''f''
     (Context_new\<lparr>ArgumentMapping := [ForwardArgument 0, IntArgument 7, ForwardArgument 0]\<rparr>) sample_module = Inr r)"
proof -
  let ?C = "Context_new\<lparr>ArgumentMapping := [ForwardArgument 0, IntArgument 7, ForwardArgument 0]\<rparr> :: ir_module Context"
  have "gapless (ArgumentMapping ?C)" by (simp add: gapless_def NNewArgs_def first_forward_def)
  then show ?thesis
    using repeated_placeholder_fails [of ?C 0 2 0, OF _ _ _ _ _ sample_module_facts(3,4), of sample_api TheTracker]
    by (simp add: Context_size_def)
qed

text \<open>
  Which functions the pass can lay out at all: those with at least one parameter and without an
  \<open>sret\<close> parameter. For a function that returns a struct through memory the constructor reads one
  parameter type past the end, and for a function without parameters it dereferences \<open>arg_begin()\<close>:
  both are undefined behaviour before anything is specialized.
\<close>
lemma InlineParameters_unsupported:
  assumes "getFunction_named M Name = Some F" and "function_at M F = Some Fun"
  shows "InlineParameters_runOnModule L BT Name C M = Inl UndefinedBehaviour \<or>
    fun_params Fun \<noteq> [] \<and> \<not> hasStructRetAttr Fun"
  using assms by (auto simp: InlineParameters_runOnModule_def HighLevelLayout_new_eq)

end
