(* ===== verification/Easy_Emit.thy ===== *)
theory Easy_Emit
  imports Easy_IR
begin

text \<open>
  The pass that writes raw machine code into the specialized function
  (\<open>runtime/pass/EmitCodes.cpp\<close>). A one-byte no-op, written by the user as inline assembly, marks the
  places; each of them becomes the sequence of \<open>.byte\<close> directives of the context's raw bytes.

  \<open>assemble\<close> is the specification of that string: the bytes an assembler reads from it.
\<close>

subsection \<open>The pass\<close>

definition digit :: "nat \<Rightarrow> char" where
  "digit n = char_of (48 + n)"

fun to_string :: "nat \<Rightarrow> string" where
  "to_string n = (if n < 10 then [digit n] else to_string (n div 10) @ [digit (n mod 10)])"

declare to_string.simps [simp del]

definition BuildEmitString :: "byte list \<Rightarrow> string" where
  "BuildEmitString src =
     (if src = [] then [] else concat (map (\<lambda>b. ''.byte '' @ to_string (unat b) @ '';'') src))"

definition placeholder_asm :: string where
  "placeholder_asm = ''.byte 0x90'' @ [char_of (10 :: nat), char_of (9 :: nat)]"

definition emit_asm :: "string \<Rightarrow> inline_asm \<Rightarrow> inline_asm" where
  "emit_asm s IA = (if asm_string IA \<noteq> placeholder_asm then IA
     else IA\<lparr>asm_string := s, asm_side_effects := (if s = [] then False else asm_side_effects IA)\<rparr>)"

fun emit_inst :: "string \<Rightarrow> instr \<Rightarrow> instr" where
  "emit_inst s (CallInst (AsmCall IA) args) = CallInst (AsmCall (emit_asm s IA)) args"
| "emit_inst s i = i"

fun is_asm_call :: "instr \<Rightarrow> bool" where
  "is_asm_call (CallInst (AsmCall IA) args) = True"
| "is_asm_call _ = False"

definition EmitCodes_runOnFunction ::
    "string \<Rightarrow> 'm Context \<Rightarrow> ir_function \<Rightarrow> bool \<times> ir_function" where
  "EmitCodes_runOnFunction TargetName C F =
     (if fun_name F \<noteq> TargetName then (False, F)
      else let s = BuildEmitString (bytes (CtxRawBytes C))
           in case fun_body F of
                None \<Rightarrow> (False, F)
              | Some body \<Rightarrow> (list_ex is_asm_call body, F\<lparr>fun_body := Some (map (emit_inst s) body)\<rparr>))"

subsection \<open>Reading the directives back\<close>

fun dec_value :: "string \<Rightarrow> nat" where
  "dec_value ds = fold (\<lambda>c n. 10 * n + (of_char c - 48)) ds 0"

function assemble :: "string \<Rightarrow> byte list option" where
  "assemble s =
     (if s = [] then Some []
      else if take 6 s \<noteq> ''.byte '' then None
      else let r = drop 6 s; ds = takeWhile (\<lambda>c. c \<noteq> CHR '';'') r; rest = dropWhile (\<lambda>c. c \<noteq> CHR '';'') r
           in if ds = [] \<or> rest = [] \<or> 256 \<le> dec_value ds then None
              else map_option (\<lambda>bs. of_nat (dec_value ds) # bs) (assemble (tl rest)))"
  by auto
termination
proof (relation "measure length", goal_cases)
  case (2 s r ds rest)
  have "length rest \<le> length r" unfolding 2 by (rule length_dropWhile_le)
  then have "length rest \<le> length s" unfolding 2(3) by simp
  moreover have "0 < length s" using 2(1) by simp
  ultimately have "length (tl rest) < length s" unfolding length_tl by linarith
  then show ?case by simp
qed simp

declare assemble.simps [simp del]

lemma dec_value_snoc: "dec_value (ds @ [c]) = 10 * dec_value ds + (of_char c - 48)"
  by simp

lemma of_char_digit: "n < 10 \<Longrightarrow> of_char (digit n) = 48 + n"
  by (simp add: digit_def)

lemma to_string_digits: "c \<in> set (to_string n) \<Longrightarrow> \<exists>d<10. c = digit d"
proof (induction n rule: to_string.induct)
  case (1 n)
  then show ?case by (subst (asm) to_string.simps) (auto split: if_splits intro: exI [of _ "n mod 10"])
qed

lemma dec_value_to_string: "dec_value (to_string n) = n"
proof (induction n rule: to_string.induct)
  case (1 n)
  show ?case
  proof (cases "n < 10")
    case True
    then show ?thesis by (simp add: to_string.simps [of n] of_char_digit)
  next
    case False
    then have "dec_value (to_string n) = 10 * (n div 10) + n mod 10"
      using 1 by (simp add: to_string.simps [of n] dec_value_snoc of_char_digit del: dec_value.simps)
    then show ?thesis by simp
  qed
qed

lemma to_string_no_semicolon: "\<forall>c \<in> set (to_string n). c \<noteq> CHR '';''"
proof
  fix c assume "c \<in> set (to_string n)"
  then obtain d where "d < 10" "c = digit d" using to_string_digits by blast
  then have "of_char c < (58 :: nat)" by (simp add: of_char_digit)
  then show "c \<noteq> CHR '';''" by auto
qed

lemma to_string_nonempty: "to_string n \<noteq> []"
  by (simp add: to_string.simps [of n])

lemma assemble_step:
  "assemble (''.byte '' @ to_string (unat b) @ '';'' @ s) = map_option (\<lambda>bs. b # bs) (assemble s)"
proof -
  have "takeWhile (\<lambda>c. c \<noteq> CHR '';'') (to_string (unat b) @ '';'' @ s) = to_string (unat b)"
    "dropWhile (\<lambda>c. c \<noteq> CHR '';'') (to_string (unat b) @ '';'' @ s) = '';'' @ s"
    using to_string_no_semicolon [of "unat b"] by (auto simp: takeWhile_append dropWhile_append)
  moreover have "unat b < 256" using unsigned_less [of b] by simp
  ultimately show ?thesis
    by (subst assemble.simps) (simp add: Let_def to_string_nonempty dec_value_to_string del: dec_value.simps)
qed

lemma assemble_BuildEmitString: "assemble (BuildEmitString bs) = Some bs"
proof (induction bs)
  case (Cons b bs)
  have "BuildEmitString (b # bs) = ''.byte '' @ to_string (unat b) @ '';'' @ BuildEmitString bs"
    by (simp add: BuildEmitString_def)
  with Cons show ?case by (simp only: assemble_step) simp
qed (simp add: BuildEmitString_def assemble.simps)

lemma BuildEmitString_empty: "BuildEmitString bs = [] \<longleftrightarrow> bs = []"
  by (cases bs) (auto simp: BuildEmitString_def)

text \<open>
  The raw bytes survive the way through the assembler string: the directives written for any list
  of bytes, the empty one included, read back as exactly these bytes.
\<close>
lemma emit_string_roundtrip: "assemble (BuildEmitString src) = Some src"
  by (rule assemble_BuildEmitString)

fun emitted :: "byte list \<Rightarrow> instr \<Rightarrow> instr \<Rightarrow> bool" where
  "emitted bs (CallInst (AsmCall IA) args) i' \<longleftrightarrow>
     (if asm_string IA = placeholder_asm then
        (\<exists>IA'. i' = CallInst (AsmCall IA') args \<and> assemble (asm_string IA') = Some bs \<and>
           asm_type IA' = asm_type IA \<and> asm_constraints IA' = asm_constraints IA \<and>
           asm_align_stack IA' = asm_align_stack IA \<and> asm_dialect IA' = asm_dialect IA \<and>
           (bs \<noteq> [] \<longrightarrow> asm_side_effects IA' = asm_side_effects IA))
      else i' = CallInst (AsmCall IA) args)"
| "emitted bs i i' \<longleftrightarrow> i' = i"

text \<open>
  C30. What the pass does to a function with a body: nothing when the name is not the target; otherwise
  every inline-assembly call with the marker string, and no other instruction, gets a string that
  assembles to the context's raw bytes and keeps its type, constraints, alignment and dialect; its
  side-effect flag is kept unless there are no bytes. The reported change is true exactly when the
  function has some inline assembly.
\<close>
theorem EmitCodes_effect:
  assumes "fun_body F = Some body"
  shows "EmitCodes_runOnFunction TargetName C F =
      (if fun_name F \<noteq> TargetName then (False, F)
       else (list_ex is_asm_call body, snd (EmitCodes_runOnFunction TargetName C F))) \<and>
    (fun_name F = TargetName \<longrightarrow> (\<exists>body'.
       snd (EmitCodes_runOnFunction TargetName C F) = F\<lparr>fun_body := Some body'\<rparr> \<and>
       list_all2 (emitted (bytes (CtxRawBytes C))) body body'))"
proof -
  let ?s = "BuildEmitString (bytes (CtxRawBytes C))"
  have "emitted (bytes (CtxRawBytes C)) i (emit_inst ?s i)" for i
  proof (cases "is_asm_call i")
    case True
    then obtain IA args where "i = CallInst (AsmCall IA) args" by (cases i rule: is_asm_call.cases) auto
    then show ?thesis by (simp add: emit_asm_def assemble_BuildEmitString BuildEmitString_empty)
  next
    case False
    then show ?thesis by (cases i rule: is_asm_call.cases) auto
  qed
  then have "list_all2 (emitted (bytes (CtxRawBytes C))) body (map (emit_inst ?s) body)"
    by (simp add: list.rel_map list.rel_refl_strong)
  with assms show ?thesis by (auto simp: EmitCodes_runOnFunction_def Let_def)
qed

theorem EmitCodes_effect_witness:
  "\<exists>F'. EmitCodes_runOnFunction ''f'' (setRawBytes \<lparr>bytes = [144, 195], reserved_regs = []\<rparr> Context_new)
     \<lparr>fun_name = ''f'', fun_ret = VoidTy, fun_params = [], fn_attrs = [], param_attrs = (\<lambda>_. []),
       fun_linkage = ExternalLinkage, fun_cc = 0, fun_body = Some [OtherInst 0, RetVoid]\<rparr> = (False, F')"
  using EmitCodes_effect [where TargetName = "''f''"
      and C = "setRawBytes \<lparr>bytes = [144, 195], reserved_regs = []\<rparr> Context_new"
      and F = "\<lparr>fun_name = ''f'', fun_ret = VoidTy, fun_params = [], fn_attrs = [], param_attrs = (\<lambda>_. []),
       fun_linkage = ExternalLinkage, fun_cc = 0, fun_body = Some [OtherInst 0, RetVoid]\<rparr>"]
  by auto

end
