(* ===== verification/Easy_Function.thy ===== *)
theory Easy_Function
  imports Easy_Inline Easy_Emit
begin

text \<open>
  \<open>runtime/Function.cpp\<close>: compiling a registered function for a context, running its module through
  the passes, mapping its globals, and writing a compiled function to a stream and reading it back.

  The thread's state is the record \<open>runtime\<close>: whether \<open>getReservedRegs\<close> is hooked, the pointer
  \<open>g_reservedRegs\<close> and the table \<open>g_regNameToIdx\<close>. The pointer refers to a vector inside a
  \<open>Context\<close>; it is \<open>LiveRegs\<close> while that context exists and \<open>DanglingRegs\<close> after the call of \<open>jit\<close> that
  owns the context has returned. The operations that change this state return it beside their result,
  also when they throw. The standard optimization pipeline, the execution engine, the target
  description and the file system are the parameter \<open>J\<close>; the patching of LLVM's virtual table is the
  flag \<open>hooked\<close>.
\<close>

datatype regs_ptr = NullRegs | LiveRegs "string list" | DanglingRegs

record runtime =
  hooked :: bool
  g_reservedRegs :: regs_ptr
  g_regNameToIdx :: "(string \<times> nat) list"

record jit_host =
  has_target :: bool
  standard_passes :: "uint \<Rightarrow> uint \<Rightarrow> ir_module \<Rightarrow> ir_module"
  engine_ok :: "ir_module \<Rightarrow> bool"
  code_address :: "ir_module \<Rightarrow> (string \<times> ptr) list \<Rightarrow> nat set \<Rightarrow> string \<Rightarrow> ptr"
  module_address :: "ir_module \<Rightarrow> ptr"
  open_error :: "string \<Rightarrow> string option"
  reg_names :: "string list"
  target_reserved :: "nat set"

definition runtime_start :: runtime where
  "runtime_start = \<lparr>hooked = False, g_reservedRegs = NullRegs, g_regNameToIdx = []\<rparr>"

definition context_destroyed :: "runtime \<Rightarrow> runtime" where
  "context_destroyed rt = (case g_reservedRegs rt of
     LiveRegs _ \<Rightarrow> rt\<lparr>g_reservedRegs := DanglingRegs\<rparr> | _ \<Rightarrow> rt)"

subsection \<open>Reserved registers\<close>

definition upper_char :: "char \<Rightarrow> char" where
  "upper_char c = (if 97 \<le> (of_char c :: nat) \<and> of_char c \<le> (122 :: nat) then char_of (of_char c - 32 :: nat) else c)"

definition to_upper :: "string \<Rightarrow> string" where
  "to_upper s = map upper_char s"

definition assoc_set :: "'k \<Rightarrow> 'v \<Rightarrow> ('k \<times> 'v) list \<Rightarrow> ('k \<times> 'v) list" where
  "assoc_set k v m = (k, v) # filter (\<lambda>e. fst e \<noteq> k) m"

definition reg_table :: "string list \<Rightarrow> (string \<times> nat) list" where
  "reg_table names = fold (\<lambda>(i, n) m. assoc_set (to_upper n) i m) (enumerate 0 names) []"

fun reserve_loop :: "string list \<Rightarrow> (string \<times> nat) list \<times> nat set \<Rightarrow> (string \<times> nat) list \<times> nat set" where
  "reserve_loop [] st = st"
| "reserve_loop (r # regs) (m, bits) =
     (let reg = to_upper r;
          m' = (case map_of m reg of None \<Rightarrow> (reg, 0) # m | Some _ \<Rightarrow> m);
          idx = the (map_of m' reg)
      in reserve_loop regs (m', insert idx bits))"

definition Hooked_getReservedRegs :: "jit_host \<Rightarrow> runtime \<Rightarrow> nat set result \<times> runtime" where
  "Hooked_getReservedRegs J rt =
     (let m = (if g_regNameToIdx rt = [] then reg_table (reg_names J) else g_regNameToIdx rt)
      in case g_reservedRegs rt of
           LiveRegs regs \<Rightarrow>
             (case reserve_loop regs (m, target_reserved J) of
                (m', bits) \<Rightarrow> (Inr bits, rt\<lparr>g_regNameToIdx := m'\<rparr>))
         | _ \<Rightarrow> (Inl UndefinedBehaviour, rt\<lparr>g_regNameToIdx := m\<rparr>))"

definition getReservedRegs :: "jit_host \<Rightarrow> runtime \<Rightarrow> nat set result \<times> runtime" where
  "getReservedRegs J rt =
     (if hooked rt then Hooked_getReservedRegs J rt else (Inr (target_reserved J), rt))"

definition Hook_getReservedRegs :: "ir_module \<Rightarrow> string \<Rightarrow> runtime \<Rightarrow> unit result \<times> runtime" where
  "Hook_getReservedRegs M Name rt =
     (if hooked rt then (Inr (), rt)
      else case getFunction_named M Name of
             None \<Rightarrow> (Inl UndefinedBehaviour, rt)
           | Some func \<Rightarrow> (Inr (), rt\<lparr>hooked := True\<rparr>))"

subsection \<open>Optimizing\<close>

definition run_EmitCodes :: "string \<Rightarrow> 'm Context \<Rightarrow> ir_module \<Rightarrow> ir_module" where
  "run_EmitCodes Name C M =
     M\<lparr>mod_funs := map (\<lambda>(i, f). (i, snd (EmitCodes_runOnFunction Name C f))) (mod_funs M)\<rparr>"

definition Optimize ::
    "llvm_api \<Rightarrow> jit_host \<Rightarrow> BitcodeTracker \<Rightarrow> string \<Rightarrow> ir_module Context \<Rightarrow> uint \<Rightarrow> uint \<Rightarrow>
     ir_module \<Rightarrow> runtime \<Rightarrow> ir_module result \<times> runtime" where
  "Optimize L J BT Name C OptLvl OptSz M rt =
     (if \<not> has_target J then (Inl AssertionFailure, rt)
      else case Hook_getReservedRegs M Name rt of
             (Inl e, rt') \<Rightarrow> (Inl e, rt')
           | (Inr _, rt') \<Rightarrow>
               (bindR (InlineParameters_runOnModule L BT Name C (run_EmitCodes Name C M)) (\<lambda>(changed, M').
                  Inr (standard_passes J OptLvl OptSz M')), rt'))"

definition WriteOptimizedToFile :: "jit_host \<Rightarrow> string \<Rightarrow> unit result" where
  "WriteOptimizedToFile J File =
     (if File = [] then Inr ()
      else case open_error J File of
             Some message \<Rightarrow> Inl (Exception (CouldNotOpenFile message))
           | None \<Rightarrow> Inr ())"

subsection \<open>The execution engine\<close>

fun MapGlobals :: "GlobalMapping list \<Rightarrow> (string \<times> ptr) list result" where
  "MapGlobals [] = Inl UndefinedBehaviour"
| "MapGlobals (GM # Globals) =
     (case gm_Name GM of
        None \<Rightarrow> Inr []
      | Some Name \<Rightarrow> bindR (MapGlobals Globals) (\<lambda>mapped. Inr ((Name, gm_Address GM) # mapped)))"

definition GetEngine :: "jit_host \<Rightarrow> ir_module \<Rightarrow> string \<Rightarrow> ir_module result" where
  "GetEngine J M Name =
     (if engine_ok J M then Inr M else Inl (Exception (ExecutionEngineCreateError Name)))"

definition CompileAndWrap ::
    "jit_host \<Rightarrow> string \<Rightarrow> GlobalMapping list option \<Rightarrow> ir_module \<Rightarrow> runtime \<Rightarrow>
     ir_module Function result \<times> runtime" where
  "CompileAndWrap J Name Globals M rt =
     (case bindR (GetEngine J M Name) (\<lambda>EE.
           case Globals of None \<Rightarrow> Inr [] | Some gs \<Rightarrow> MapGlobals gs) of
        Inl e \<Rightarrow> (Inl e, rt)
      | Inr mapped \<Rightarrow>
          (case getReservedRegs J rt of
             (Inl e, rt') \<Rightarrow> (Inl e, rt')
           | (Inr reserved, rt') \<Rightarrow>
               (Inr \<lparr>Address = code_address J M mapped reserved Name,
                     M_ptr = module_address J M, M_obj = M\<rparr>, rt')))"

subsection \<open>Linking what the function calls\<close>

definition LinkByName ::
    "llvm_api \<Rightarrow> BitcodeTracker \<Rightarrow> string \<Rightarrow> ir_module \<Rightarrow> ir_module result" where
  "LinkByName L BT Name M =
     (let Ptr = getAddress BT Name
      in if Ptr \<noteq> 0 then
           bindR (getModuleWithContext (parseBitcodeFile L) BT Ptr) (\<lambda>LM.
             case linkModules L M LM of (M', link_failed) \<Rightarrow>
               if \<not> link_failed then
                 (case getNamedValue M' Name of
                    None \<Rightarrow> Inl UndefinedBehaviour
                  | Some GV \<Rightarrow>
                      (case global_at M' GV of
                         Some G \<Rightarrow> Inr (update_global GV (\<lambda>g. g\<lparr>gv_linkage := PrivateLinkage\<rparr>) M')
                       | None \<Rightarrow> Inr (update_function GV (\<lambda>f. f\<lparr>fun_linkage := PrivateLinkage\<rparr>) M')))
               else Inr M')
         else Inr M)"

fun called_name :: "ir_module \<Rightarrow> instr \<Rightarrow> string option" where
  "called_name M (CallInst (DirectCall f) args) =
     (case function_at M f of
        Some Called \<Rightarrow> (if fun_name Called = [] then None else Some (fun_name Called))
      | None \<Rightarrow> None)"
| "called_name M _ = None"

definition ResolveModule ::
    "llvm_api \<Rightarrow> BitcodeTracker \<Rightarrow> string \<Rightarrow> ir_module \<Rightarrow> ir_module result" where
  "ResolveModule L BT Name M =
     (case getFunction_named M Name of
        None \<Rightarrow> Inl UndefinedBehaviour
      | Some F \<Rightarrow>
          (case function_at M F of
             None \<Rightarrow> Inl UndefinedBehaviour
           | Some f \<Rightarrow>
               let ToDo = List.map_filter (called_name M) (case fun_body f of None \<Rightarrow> [] | Some body \<Rightarrow> body)
               in foldR (LinkByName L BT) ToDo M))"

subsection \<open>Compiling\<close>

definition Compile ::
    "llvm_api \<Rightarrow> jit_host \<Rightarrow> BitcodeTracker \<Rightarrow> ptr \<Rightarrow> ir_module Context \<Rightarrow> runtime \<Rightarrow>
     ir_module Function result \<times> runtime" where
  "Compile L J BT Addr C rt =
     (case bindR (getNameAndGlobalMapping BT Addr) (\<lambda>(Name, Globals).
           bindR (getModule (parseBitcodeFile L) BT Addr) (\<lambda>M.
           bindR (ResolveModule L BT Name M) (\<lambda>M1. Inr (Name, Globals, M1)))) of
        Inl e \<Rightarrow> (Inl e, rt)
      | Inr (Name, Globals, M1) \<Rightarrow>
          (case Optimize L J BT Name C (fst (getOptLevel C)) (snd (getOptLevel C)) M1 rt of
             (Inl e, rt1) \<Rightarrow> (Inl e, rt1)
           | (Inr M2, rt1) \<Rightarrow>
               (case WriteOptimizedToFile J (DebugFile C) of
                  Inl e \<Rightarrow> (Inl e, rt1)
                | Inr _ \<Rightarrow>
                    CompileAndWrap J Name Globals M2
                      (rt1\<lparr>g_reservedRegs := LiveRegs (reserved_regs (CtxRawBytes C))\<rparr>))))"

subsection \<open>Serialization\<close>

definition serialize :: "llvm_api \<Rightarrow> ir_module Function \<Rightarrow> byte list" where
  "serialize L F = WriteBitcodeToFile L (M_obj F)"

definition entry_globals :: "BitcodeTracker \<Rightarrow> string \<Rightarrow> GlobalMapping list option result" where
  "entry_globals BT FunName =
     (let OrigFunPtr = getAddress BT FunName
      in if OrigFunPtr \<noteq> 0
         then bindR (getNameAndGlobalMapping BT OrigFunPtr) (\<lambda>(_, Globals). Inr Globals)
         else Inr None)"

definition deserialize ::
    "llvm_api \<Rightarrow> jit_host \<Rightarrow> BitcodeTracker \<Rightarrow> byte list \<Rightarrow> runtime \<Rightarrow>
     ir_module Function option result \<times> runtime" where
  "deserialize L J BT buf rt =
     (case parseBitcodeFile L buf of
        None \<Rightarrow> (Inr None, rt)
      | Some M \<Rightarrow>
          (case bindR (GetEntryFunctionName M) (\<lambda>FunName.
                bindR (entry_globals BT FunName) (\<lambda>Globals. Inr (FunName, Globals))) of
             Inl e \<Rightarrow> (Inl e, rt)
           | Inr (FunName, Globals) \<Rightarrow>
               (case CompileAndWrap J FunName Globals M rt of
                  (Inl e, rt') \<Rightarrow> (Inl e, rt')
                | (Inr F, rt') \<Rightarrow> (Inr (Some F), rt'))))"

subsection \<open>The global mapping\<close>

text \<open>
  \<open>MapGlobals\<close> hands the engine exactly the entries before the first one without a name, in order,
  and reads past the end of the array when there is no such entry.
\<close>
lemma MapGlobals_spec:
  "MapGlobals Globals =
     (if list_ex (\<lambda>g. gm_Name g = None) Globals
      then Inr (map (\<lambda>g. (the (gm_Name g), gm_Address g)) (takeWhile (\<lambda>g. gm_Name g \<noteq> None) Globals))
      else Inl UndefinedBehaviour)"
  by (induction Globals) (auto split: option.split)

subsection \<open>Which registers are reserved\<close>

definition table_index :: "(string \<times> nat) list \<Rightarrow> string \<Rightarrow> nat" where
  "table_index m r = (case map_of m (to_upper r) of Some i \<Rightarrow> i | None \<Rightarrow> 0)"

definition reg_index :: "string list \<Rightarrow> string \<Rightarrow> nat" where
  "reg_index names r =
     (case first_index (\<lambda>n. to_upper n = to_upper r) names of Some i \<Rightarrow> i | None \<Rightarrow> 0)"

lemma reserve_loop_bits:
  "snd (reserve_loop regs (m, bits)) = bits \<union> table_index m ` set regs"
proof (induction regs arbitrary: m bits)
  case (Cons r regs)
  let ?m = "case map_of m (to_upper r) of None \<Rightarrow> (to_upper r, 0) # m | Some _ \<Rightarrow> m"
  have "table_index ?m = table_index m"
    by (auto simp: table_index_def fun_eq_iff split: option.split)
  moreover have "the (map_of ?m (to_upper r)) = table_index m r"
    by (auto simp: table_index_def split: option.split)
  ultimately show ?case using Cons.IH [of ?m] by (auto simp: Let_def)
qed simp

lemma map_of_assoc_set: "map_of (assoc_set k v m) = (map_of m)(k \<mapsto> v)"
proof -
  have "map_of (filter (\<lambda>e. fst e \<noteq> k) m) x = map_of m x" if "x \<noteq> k" for x
    using that by (induction m) auto
  then show ?thesis by (auto simp: assoc_set_def fun_eq_iff)
qed

lemma reg_table_index:
  assumes "distinct (map to_upper names)"
  shows "map_of (reg_table names) (to_upper r) = first_index (\<lambda>n. to_upper n = to_upper r) names"
  using assms unfolding reg_table_def
proof (induction names rule: rev_induct)
  case (snoc n names)
  have "first_index (\<lambda>m. to_upper m = to_upper n) names = None"
    unfolding first_index_None
  proof
    fix m assume "m \<in> set names"
    then have "to_upper m \<in> set (map to_upper names)" by simp
    with snoc.prems show "to_upper m \<noteq> to_upper n" by auto
  qed
  with snoc show ?case
    by (auto simp: enumerate_append_eq map_of_assoc_set first_index_snoc split: option.split)
qed simp


definition sample_host :: jit_host where
  "sample_host = \<lparr>has_target = True, standard_passes = (\<lambda>_ _ M. M), engine_ok = (\<lambda>_. True),
     code_address = (\<lambda>_ _ _ _. 4096), module_address = (\<lambda>_. 8192), open_error = (\<lambda>_. None),
     reg_names = [''NoReg'', ''ZMM13'', ''ZMM14''], target_reserved = {}\<rparr>"


subsection \<open>The compilation pipeline\<close>

lemma EmitCodes_frame:
  "fun_name (snd (EmitCodes_runOnFunction N C f)) = fun_name f"
  "fun_ret (snd (EmitCodes_runOnFunction N C f)) = fun_ret f"
  "fun_params (snd (EmitCodes_runOnFunction N C f)) = fun_params f"
  "fn_attrs (snd (EmitCodes_runOnFunction N C f)) = fn_attrs f"
  "param_attrs (snd (EmitCodes_runOnFunction N C f)) = param_attrs f"
  by (simp_all add: EmitCodes_runOnFunction_def Let_def split: option.split)

lemma find_map_second:
  assumes "\<And>x. P (g x) = P x"
  shows "find_by P (map (\<lambda>(i, f). (i, g f)) xs) = find_by P xs"
  using assms by (induction xs) (auto simp: find_by_def)

lemma run_EmitCodes_facts:
  "mod_next (run_EmitCodes N C M) = mod_next M"
  "getFunction_named (run_EmitCodes N C M) Name = getFunction_named M Name"
  "function_at (run_EmitCodes N C M) i = map_option (snd \<circ> EmitCodes_runOnFunction N C) (function_at M i)"
  "module_ok (run_EmitCodes N C M) = module_ok M"
  "unique_names (run_EmitCodes N C M) = unique_names M"
  "entry_marks (run_EmitCodes N C M) = entry_marks M"
proof -
  have "map fst (mod_funs (run_EmitCodes N C M)) = map fst (mod_funs M)"
    by (auto simp: run_EmitCodes_def)
  then show "module_ok (run_EmitCodes N C M) = module_ok M"
    by (simp add: module_ok_def) (simp add: run_EmitCodes_def)
  show "function_at (run_EmitCodes N C M) i = map_option (snd \<circ> EmitCodes_runOnFunction N C) (function_at M i)"
    by (simp add: function_at_def run_EmitCodes_def map_of_map comp_def)
  show "getFunction_named (run_EmitCodes N C M) Name = getFunction_named M Name"
    by (simp add: run_EmitCodes_def getFunction_named_def find_map_second EmitCodes_frame)
qed (simp_all add: run_EmitCodes_def EmitCodes_frame unique_names_def
    comp_def case_prod_unfold entry_marks_def getNamedMetadata_def)

lemma scalar_context_emit:
  "scalar_context BT (snd (EmitCodes_runOnFunction N C f)) As = scalar_context BT f As"
  by (simp add: scalar_context_def hasStructRetAttr_def EmitCodes_frame)

definition self_contained :: "BitcodeTracker \<Rightarrow> ir_module \<Rightarrow> ir_function \<Rightarrow> bool" where
  "self_contained BT M f \<longleftrightarrow>
     list_all (\<lambda>n. getAddress BT n = 0)
       (List.map_filter (called_name M) (case fun_body f of None \<Rightarrow> [] | Some body \<Rightarrow> body))"

lemma resolve_self_contained:
  assumes "getFunction_named M Name = Some F" "function_at M F = Some f" "self_contained BT M f"
  shows "ResolveModule L BT Name M = Inr M"
proof -
  have "foldR (LinkByName L BT) ns M = Inr M" if "list_all (\<lambda>n. getAddress BT n = 0) ns" for ns
    using that by (induction ns) (simp_all add: LinkByName_def)
  with assms show ?thesis by (simp add: ResolveModule_def self_contained_def Let_def)
qed

definition hook_on :: "runtime \<Rightarrow> runtime" where
  "hook_on rt = rt\<lparr>hooked := True\<rparr>"

lemma Hook_installs:
  "getFunction_named M Name = Some F \<Longrightarrow> Hook_getReservedRegs M Name rt = (Inr (), hook_on rt)"
  by (cases rt) (auto simp: Hook_getReservedRegs_def hook_on_def)

definition context_table :: "jit_host \<Rightarrow> runtime \<Rightarrow> (string \<times> nat) list" where
  "context_table J rt = (if g_regNameToIdx rt = [] then reg_table (reg_names J) else g_regNameToIdx rt)"

lemma CompileAndWrap_live:
  assumes "hooked rt" "g_reservedRegs rt = LiveRegs regs" "engine_ok J M"
    and "(case Globals of None \<Rightarrow> Inr [] | Some gs \<Rightarrow> MapGlobals gs) = Inr mapped"
  shows "\<exists>rt'. CompileAndWrap J Name Globals M rt =
      (Inr \<lparr>Address = code_address J M mapped (target_reserved J \<union> table_index (context_table J rt) ` set regs) Name,
            M_ptr = module_address J M, M_obj = M\<rparr>, rt') \<and> hooked rt' \<and> g_reservedRegs rt' = LiveRegs regs"
  using assms reserve_loop_bits [of regs "context_table J rt" "target_reserved J"]
  by (auto simp: CompileAndWrap_def GetEngine_def getReservedRegs_def Hooked_getReservedRegs_def context_table_def
      split: prod.split)

text \<open>Whenever the pass succeeds on a self-contained function and the host can compile, \<open>Compile\<close> returns.\<close>

lemma Compile_of_pass:
  assumes "um_find (=) Addr (Functions BT) = Some Info" and "getModule (parseBitcodeFile L) BT Addr = Inr M"
    and "getFunction_named M (fi_Name Info) = Some F" and "function_at M F = Some Fn" and "self_contained BT M Fn"
    and "InlineParameters_runOnModule L BT (fi_Name Info) C (run_EmitCodes (fi_Name Info) C M) = Inr (ch, M1)"
    and "has_target J" and "\<forall>M'. engine_ok J M'"
    and "DebugFile C = [] \<or> open_error J (DebugFile C) = None"
    and "(case fi_Globals Info of None \<Rightarrow> Inr [] | Some gs \<Rightarrow> MapGlobals gs) = Inr mapped"
  shows "\<exists>M2 rt'. M2 = standard_passes J (OptLevel C) (OptSize C) M1 \<and>
    Compile L J BT Addr C rt =
      (Inr \<lparr>Address = code_address J M2 mapped
               (target_reserved J \<union> table_index (context_table J rt) ` set (reserved_regs (CtxRawBytes C)))
               (fi_Name Info),
            M_ptr = module_address J M2, M_obj = M2\<rparr>, rt') \<and>
    hooked rt' \<and> g_reservedRegs rt' = LiveRegs (reserved_regs (CtxRawBytes C))"
proof -
  let ?N = "fi_Name Info" and ?M2 = "standard_passes J (OptLevel C) (OptSize C) M1"
  let ?rt = "hook_on rt\<lparr>g_reservedRegs := LiveRegs (reserved_regs (CtxRawBytes C))\<rparr>"
  have "Optimize L J BT ?N C (fst (getOptLevel C)) (snd (getOptLevel C)) M rt = (Inr ?M2, hook_on rt)"
    using assms(6,7) Hook_installs [OF assms(3)] by (simp add: Optimize_def getOptLevel_def)
  moreover have "WriteOptimizedToFile J (DebugFile C) = Inr ()"
    using assms(9) by (auto simp: WriteOptimizedToFile_def)
  ultimately have compile: "Compile L J BT Addr C rt = CompileAndWrap J ?N (fi_Globals Info) ?M2 ?rt"
    using assms(1,2) resolve_self_contained [OF assms(3,4,5)]
    by (simp add: Compile_def getNameAndGlobalMapping_def)
  have rt: "hooked ?rt" "g_reservedRegs ?rt = LiveRegs (reserved_regs (CtxRawBytes C))"
      "context_table J ?rt = context_table J rt"
    by (simp_all add: context_table_def hook_on_def)
  show ?thesis
    using CompileAndWrap_live [OF rt(1,2) spec [OF assms(8)] assms(10)] compile unfolding rt(3) by auto
qed

lemma compile_scalar_result:
  assumes "um_find (=) Addr (Functions BT) = Some Info" and "getModule (parseBitcodeFile L) BT Addr = Inr M"
    and "module_ok M" and "unique_names M" and "fi_Name Info \<noteq> []"
    and "getFunction_named M (fi_Name Info) = Some F" and "function_at M F = Some Fn"
    and "self_contained BT M Fn" and "scalar_context BT Fn (ArgumentMapping C)"
    and "has_target J" and "\<forall>M'. engine_ok J M'"
    and "DebugFile C = [] \<or> open_error J (DebugFile C) = None"
    and "(case fi_Globals Info of None \<Rightarrow> Inr [] | Some gs \<Rightarrow> MapGlobals gs) = Inr mapped"
  shows "\<exists>M1 M2 rt'. M2 = standard_passes J (OptLevel C) (OptSize C) M1 \<and>
    Compile L J BT Addr C rt =
      (Inr \<lparr>Address = code_address J M2 mapped
               (target_reserved J \<union> table_index (context_table J rt) ` set (reserved_regs (CtxRawBytes C)))
               (fi_Name Info),
            M_ptr = module_address J M2, M_obj = M2\<rparr>, rt') \<and>
    hooked rt' \<and> g_reservedRegs rt' = LiveRegs (reserved_regs (CtxRawBytes C)) \<and>
    getFunction_named M1 (fi_Name Info) = Some (mod_next M) \<and>
    function_at M1 (mod_next M) = Some (specialized F
       (snd (EmitCodes_runOnFunction (fi_Name Info) C Fn)) (ArgumentMapping C)) \<and>
    function_at M1 F = Some ((snd (EmitCodes_runOnFunction (fi_Name Info) C Fn))
       \<lparr>fun_linkage := PrivateLinkage, fun_name := []\<rparr>) \<and>
    entry_marks M1 = entry_marks M @ [fi_Name Info]"
proof -
  let ?N = "fi_Name Info" and ?E = "run_EmitCodes (fi_Name Info) C M"
  have F': "function_at ?E F = Some (snd (EmitCodes_runOnFunction ?N C Fn))"
    using assms(7) by (simp add: run_EmitCodes_facts)
  have ctx: "scalar_context BT (snd (EmitCodes_runOnFunction ?N C Fn)) (ArgumentMapping C)"
    using assms(9) by (simp add: scalar_context_emit)
  obtain M1 where M1: "InlineParameters_runOnModule L BT ?N C ?E = Inr (True, M1)"
      "getFunction_named M1 ?N = Some (mod_next M)"
      "function_at M1 (mod_next M) = Some (specialized F (snd (EmitCodes_runOnFunction ?N C Fn)) (ArgumentMapping C))"
      "function_at M1 F = Some ((snd (EmitCodes_runOnFunction ?N C Fn))\<lparr>fun_linkage := PrivateLinkage, fun_name := []\<rparr>)"
      "entry_marks M1 = entry_marks M @ [?N]"
    using inline_scalar_result [OF _ _ assms(5) _ F' ctx, of L] assms(3,4,6)
    by (auto simp: run_EmitCodes_facts)
  from Compile_of_pass [OF assms(1,2,6-8) M1(1) assms(10-13), of rt] M1(2-) show ?thesis by blast
qed

text \<open>
  C7. Compiling a registered function, from the address to the machine code: if the function's bitcode
  parses, it calls no other registered function, the arguments of the context are scalars that fit, and
  the host can compile, then \<open>Compile\<close> returns. What is handed to the standard passes is a module in
  which the function's name denotes the wrapper for that context, calling the original function with
  its raw bytes written in; the code address is asked for that name, with the function's globals mapped
  and with the registers of the context reserved besides the target's own.
\<close>
theorem Compile_scalar:
  assumes "um_find (=) Addr (Functions BT) = Some Info" and "getModule (parseBitcodeFile L) BT Addr = Inr M"
    and "module_ok M" and "unique_names M" and "fi_Name Info \<noteq> []"
    and "getFunction_named M (fi_Name Info) = Some F" and "function_at M F = Some Fn"
    and "self_contained BT M Fn" and "scalar_context BT Fn (ArgumentMapping C)"
    and "has_target J" and "\<forall>M'. engine_ok J M'"
    and "DebugFile C = [] \<or> open_error J (DebugFile C) = None"
    and "(case fi_Globals Info of None \<Rightarrow> Inr [] | Some gs \<Rightarrow> MapGlobals gs) = Inr mapped"
  shows "\<exists>M1 M2 rt'. M2 = standard_passes J (OptLevel C) (OptSize C) M1 \<and>
    Compile L J BT Addr C rt =
      (Inr \<lparr>Address = code_address J M2 mapped
               (target_reserved J \<union> table_index (context_table J rt) ` set (reserved_regs (CtxRawBytes C)))
               (fi_Name Info),
            M_ptr = module_address J M2, M_obj = M2\<rparr>, rt') \<and>
    hooked rt' \<and> g_reservedRegs rt' = LiveRegs (reserved_regs (CtxRawBytes C)) \<and>
    getFunction_named M1 (fi_Name Info) = Some (mod_next M) \<and>
    function_at M1 (mod_next M) = Some (specialized F
       (snd (EmitCodes_runOnFunction (fi_Name Info) C Fn)) (ArgumentMapping C)) \<and>
    function_at M1 F = Some ((snd (EmitCodes_runOnFunction (fi_Name Info) C Fn))
       \<lparr>fun_linkage := PrivateLinkage, fun_name := []\<rparr>) \<and>
    entry_marks M1 = entry_marks M @ [fi_Name Info]"
  using assms by (rule compile_scalar_result)

definition sample_reader :: llvm_api where
  "sample_reader = sample_api\<lparr>parseBitcodeFile := (\<lambda>bs. if bs = [222] then Some sample_module
       else if bs = [223] then Some (MarkAsEntry ''f'' sample_module) else None),
     WriteBitcodeToFile := (\<lambda>M. [222])\<rparr>"

definition sample_tracker :: BitcodeTracker where
  "sample_tracker = registerFunction 64 ''f'' (Some [\<lparr>gm_Name = Some ''g'', gm_Address = 32\<rparr>,
     \<lparr>gm_Name = None, gm_Address = 0\<rparr>]) [222] 1 TheTracker"

definition sample_info :: FunctionInfo where
  "sample_info = \<lparr>fi_Name = ''f'', fi_Globals = Some [\<lparr>gm_Name = Some ''g'', gm_Address = 32\<rparr>,
     \<lparr>gm_Name = None, gm_Address = 0\<rparr>], fi_Bitcode = [222], fi_BitcodeLen = 1\<rparr>"

lemma sample_registered:
  "um_find (=) 64 (Functions sample_tracker) = Some sample_info"
  "getModule (parseBitcodeFile sample_reader) sample_tracker 64 = Inr sample_module"
  "self_contained sample_tracker sample_module sample_fun"
  "(case fi_Globals sample_info of None \<Rightarrow> Inr [] | Some gs \<Rightarrow> MapGlobals gs) = Inr [(''g'', 32)]"
  "DebugFile sample_context = [] \<or> open_error sample_host (DebugFile sample_context) = None"
  "fi_Name sample_info \<noteq> []" "getFunction_named sample_module (fi_Name sample_info) = Some 0"
  "has_target sample_host" "\<forall>M'. engine_ok sample_host M'"
  by (simp_all add: sample_tracker_def sample_reader_def easy_simps self_contained_def sample_fun_def
      List.map_filter_simps sample_context_def Context_new_def sample_host_def sample_module_def
      getFunction_named_def find_by_def sample_info_def)

lemmas sample_compile_facts = sample_registered(1,2) sample_module_facts(1,2) sample_registered(6,7)
  sample_module_facts(4) sample_registered(3) sample_scalar_context sample_registered(8,9,5,4)

theorem Compile_scalar_witness:
  "\<exists>F rt'. Compile sample_reader sample_host sample_tracker 64 sample_context runtime_start = (Inr F, rt') \<and>
     Address F = 4096 \<and> hooked rt'"
proof -
  from Compile_scalar [OF sample_compile_facts, of runtime_start] show ?thesis
    by (auto simp: sample_host_def)
qed

text \<open>
  A compiled function survives a stream: with a bitcode reader that reads back what the writer wrote,
  in a thread that has not compiled anything, deserializing a serialized function gives a function over
  the same module, whose code address is asked for the name of the module's entry function with the
  globals of the function registered under that name. Only the registers the target itself reserves are
  reserved then: those of the original context are not part of the stream.
\<close>
lemma deserialize_serialize:
  assumes "parseBitcodeFile L (WriteBitcodeToFile L (M_obj F)) = Some (M_obj F)"
    and "GetEntryFunctionName (M_obj F) = Inr Name"
    and "um_find (=) Name (NameToAddress BT) = Some Addr" and "Addr \<noteq> 0"
    and "um_find (=) Addr (Functions BT) = Some Info"
    and "(case fi_Globals Info of None \<Rightarrow> Inr [] | Some gs \<Rightarrow> MapGlobals gs) = Inr mapped"
    and "engine_ok J (M_obj F)" and "\<not> hooked rt"
  shows "deserialize L J BT (serialize L F) rt =
    (Inr (Some \<lparr>Address = code_address J (M_obj F) mapped (target_reserved J) Name,
       M_ptr = module_address J (M_obj F), M_obj = M_obj F\<rparr>), rt)"
  using assms
  by (simp add: deserialize_def serialize_def entry_globals_def getAddress_def getNameAndGlobalMapping_def
      Let_def CompileAndWrap_def GetEngine_def getReservedRegs_def)

lemma sample_entry: "GetEntryFunctionName (MarkAsEntry ''f'' sample_module) = Inr ''f''"
  by (simp add: GetEntryFunctionName_marks entry_marks_mark)
    (simp add: entry_marks_def getNamedMetadata_def sample_module_def List.map_filter_simps)

lemma Compile_leaves:
  assumes "Compile L J BT Addr C rt = (Inr F, rt')"
  shows "hooked rt' \<and> (\<exists>regs. g_reservedRegs rt' = LiveRegs regs)"
proof -
  from assms obtain Name Globals M1 M2 rt1 where
      opt: "Optimize L J BT Name C (fst (getOptLevel C)) (snd (getOptLevel C)) M1 rt = (Inr M2, rt1)"
      and wrap: "CompileAndWrap J Name Globals M2
        (rt1\<lparr>g_reservedRegs := LiveRegs (reserved_regs (CtxRawBytes C))\<rparr>) = (Inr F, rt')"
    by (auto simp: Compile_def split: sum.splits prod.splits)
  from opt have "hooked rt1"
    by (auto simp: Optimize_def Hook_getReservedRegs_def split: if_splits prod.splits sum.splits option.splits)
  with wrap show ?thesis
    by (auto simp: CompileAndWrap_def GetEngine_def getReservedRegs_def Hooked_getReservedRegs_def Let_def
        split: if_splits prod.splits sum.splits option.splits)
qed

end
