(* ===== verification/Easy_Register.thy ===== *)
theory Easy_Register
  imports Easy_Alias Easy_Function
begin

text \<open>
  The compiler plugin that embeds and registers bitcode (\<open>pass/Easy.cpp\<close>): which functions and constants
  of a module are exported to the run time, what their bitcode refers to, how the linkages of the
  embedded copy are fixed, and the calls of \<open>easy_register\<close> that the static constructor makes.

  A module is its list of global objects with the values of \<open>Easy_Alias\<close>; \<open>insts\<close> are the instructions of
  a function, \<open>operands\<close> the operands of a value, \<open>is_user\<close> tells the values that have operands
  (instructions and constants) from arguments and blocks. A value and its copy in the cloned module have
  one number. LLVM's removal of pointer casts, the regular expression, the choice of a fresh name,
  the cloning, the extraction passes, the bitcode writer and the addresses of the linked program are the
  fields of the parameter \<open>P\<close>. The tracer and the loop over references are counted with fuel, and \<open>None\<close>
  is an exhausted count; \<open>enough_fuel\<close> says how much suffices for a module, and the theorems show that it does.
\<close>

record global_object =
  ob_name :: string
  ob_function :: bool
  ob_section :: string
  ob_declaration :: bool
  ob_constant :: bool
  ob_local :: bool

record static_module =
  gobjects :: "(nat \<times> global_object) list"
  sm_values :: value_graph
  insts :: "nat \<Rightarrow> nat list"
  operands :: "nat \<Rightarrow> nat list"
  is_user :: "nat \<Rightarrow> bool"

datatype gvalue_kind = GVar bool | GFun bool "string list" | GAlias

record gvalue =
  gval_name :: string
  gval_kind :: gvalue_kind
  gval_linkage :: linkage
  gval_default_visibility :: bool
  gval_comdat :: bool

record plugin_env =
  stripPointerCasts :: "nat \<Rightarrow> nat"
  export_regex :: "(string \<Rightarrow> bool) option"
  unique_name :: "string list \<Rightarrow> string \<Rightarrow> string"
  CloneModule :: "static_module \<Rightarrow> (nat \<times> gvalue) list"
  extraction_passes :: "nat list \<Rightarrow> (nat \<times> gvalue) list \<Rightarrow> (nat \<times> gvalue) list"
  bitcode_of :: "(nat \<times> gvalue) list \<Rightarrow> byte list"
  address_of :: "nat \<Rightarrow> ptr"

definition CI_SECTION :: string where "CI_SECTION = ''compiler-interface''"

definition JIT_SECTION :: string where "JIT_SECTION = ''easy-jit''"

subsection \<open>What is exported\<close>

definition canExtractBitcode :: "global_object \<Rightarrow> bool" where
  "canExtractBitcode GO = (if ob_declaration GO then False else True)"

definition compilerInterface :: "static_module \<Rightarrow> nat list" where
  "compilerInterface M =
     map fst (filter (\<lambda>(i, GO). ob_function GO \<and> ob_section GO = CI_SECTION) (gobjects M))"

definition isConstant :: "global_object \<Rightarrow> bool" where
  "isConstant GO = (if ob_function GO then True else ob_constant GO)"

definition mark_traced :: "MayAliasTracer \<Rightarrow> static_module \<Rightarrow> static_module" where
  "mark_traced Tracer M = M\<lparr>gobjects := map (\<lambda>(i, GO).
     (i, if isConstant GO \<and> tracer_count Tracer i then GO\<lparr>ob_section := JIT_SECTION\<rparr> else GO)) (gobjects M)\<rparr>"

definition trace_argument :: "nat \<Rightarrow> plugin_env \<Rightarrow> nat \<Rightarrow> static_module \<Rightarrow> static_module option" where
  "trace_argument n P Op M =
     map_option (\<lambda>Tracer. mark_traced Tracer M) (MayAliasTracer_new n (sm_values M) (stripPointerCasts P Op))"

definition call_arguments :: "static_module \<Rightarrow> nat \<Rightarrow> nat list" where
  "call_arguments M U = (case node (sm_values M) U of NCall callee args \<Rightarrow> args | NMemcpy dst src \<Rightarrow> [dst, src] | _ \<Rightarrow> [])"

definition deduceObjectsToJIT :: "nat \<Rightarrow> plugin_env \<Rightarrow> static_module \<Rightarrow> static_module option" where
  "deduceObjectsToJIT n P M =
     forO (\<lambda>EasyJitFun. forO (\<lambda>U. forO (trace_argument n P) (call_arguments M U))
             (users (sm_values M) EasyJitFun))
       (compilerInterface M) M"

definition regexFunctionsToJIT :: "plugin_env \<Rightarrow> static_module \<Rightarrow> static_module" where
  "regexFunctionsToJIT P M =
     (case export_regex P of
        None \<Rightarrow> M
      | Some Match \<Rightarrow> M\<lparr>gobjects := map (\<lambda>(i, GO).
          (i, if Match (ob_name GO) then GO\<lparr>ob_section := JIT_SECTION\<rparr> else GO)) (gobjects M)\<rparr>)"

definition collectObjectsToJIT :: "nat \<Rightarrow> plugin_env \<Rightarrow> static_module \<Rightarrow> (nat list \<times> static_module) option" where
  "collectObjectsToJIT n P M =
     map_option (\<lambda>M1.
       let M2 = regexFunctionsToJIT P M1
       in (map fst (filter (\<lambda>(i, GO). ob_section GO = JIT_SECTION \<and> canExtractBitcode GO) (gobjects M2)),
           M2\<lparr>gobjects := map (\<lambda>(i, GO).
             (i, if ob_section GO = JIT_SECTION then GO\<lparr>ob_section := []\<rparr> else GO)) (gobjects M2)\<rparr>))
       (deduceObjectsToJIT n P M)"

subsection \<open>Local variables and their mapping\<close>

definition collectLocalGlobals :: "static_module \<Rightarrow> nat list" where
  "collectLocalGlobals M = map fst (filter (\<lambda>(i, GV). \<not> ob_function GV \<and> ob_local GV) (gobjects M))"

definition object_at :: "static_module \<Rightarrow> nat \<Rightarrow> global_object option" where
  "object_at M i = map_of (gobjects M) i"

definition name_global :: "plugin_env \<Rightarrow> string \<Rightarrow> nat \<Rightarrow> static_module \<Rightarrow> static_module" where
  "name_global P Name GV M =
     M\<lparr>gobjects := map (\<lambda>(i, GO). (i, if i = GV \<and> ob_name GO = []
        then GO\<lparr>ob_name := unique_name P (map (ob_name \<circ> snd) (gobjects M)) Name\<rparr> else GO)) (gobjects M)\<rparr>"

definition nameGlobals :: "plugin_env \<Rightarrow> string \<Rightarrow> nat list \<Rightarrow> static_module \<Rightarrow> static_module" where
  "nameGlobals P Name Globals M = fold (name_global P Name) Globals M"

definition name_of :: "static_module \<Rightarrow> nat \<Rightarrow> string" where
  "name_of M i = (case object_at M i of Some GO \<Rightarrow> ob_name GO | None \<Rightarrow> [])"

definition getGlobalMapping :: "plugin_env \<Rightarrow> static_module \<Rightarrow> nat list \<Rightarrow> GlobalMapping list" where
  "getGlobalMapping P M Globals =
     map (\<lambda>GV. \<lparr>gm_Name = Some (name_of M GV), gm_Address = address_of P GV\<rparr>) Globals @
     [\<lparr>gm_Name = None, gm_Address = 0\<rparr>]"

subsection \<open>The embedded module\<close>

definition pushed_by :: "static_module \<Rightarrow> nat \<Rightarrow> nat list" where
  "pushed_by M U =
     (case node (sm_values M) U of
        NFunction \<Rightarrow> filter (is_user M) (concat (map (operands M) (insts M U)))
      | NGlobalVariable (Some Init) \<Rightarrow> [Init]
      | _ \<Rightarrow> []) @
     filter (is_user M) (operands M U)"

fun reference_loop ::
    "nat \<Rightarrow> static_module \<Rightarrow> nat list \<Rightarrow> nat set \<Rightarrow> nat list \<Rightarrow> nat list option" where
  "reference_loop 0 M ToVisit Visited Funs = None"
| "reference_loop (Suc n) M [] Visited Funs = Some Funs"
| "reference_loop (Suc n) M (U # ToVisit) Visited Funs =
     (if U \<in> Visited then reference_loop n M ToVisit Visited Funs
      else reference_loop n M (rev (pushed_by M U) @ ToVisit) (insert U Visited)
             (if node (sm_values M) U = NFunction then Funs @ [U] else Funs))"

definition getReferencedFromEntry :: "nat \<Rightarrow> static_module \<Rightarrow> nat \<Rightarrow> nat list option" where
  "getReferencedFromEntry n M Entry = reference_loop n M [Entry] {} []"

definition starts_with :: "string \<Rightarrow> string \<Rightarrow> bool" where
  "starts_with pre s = (take (length pre) s = pre)"

definition fix_linkage :: "nat \<Rightarrow> nat \<times> gvalue \<Rightarrow> (nat \<times> gvalue) result" where
  "fix_linkage Entry e = (case e of (i, GV) \<Rightarrow>
     if starts_with ''llvm.'' (gval_name GV) then Inr (i, GV)
     else case gval_kind GV of
            GVar has_init \<Rightarrow> Inr (i, GV\<lparr>gval_comdat := False, gval_kind := GVar False,
                gval_default_visibility := True, gval_linkage := ExternalLinkage\<rparr>)
          | GFun is_declaration attrs \<Rightarrow>
              (let GV1 = GV\<lparr>gval_comdat := False\<rparr>
               in if ''optnone'' \<in> set attrs then Inr (i, GV1)
                  else let GV2 = GV1\<lparr>gval_kind := GFun is_declaration (filter (\<lambda>a. a \<noteq> ''noinline'') attrs)\<rparr>
                       in if i = Entry then Inr (i, GV2)
                          else if \<not> is_declaration \<and>
                               (\<not> gval_default_visibility GV \<or> gval_linkage GV \<noteq> PrivateLinkage)
                          then Inr (i, GV2\<lparr>gval_default_visibility := True, gval_linkage := PrivateLinkage\<rparr>)
                          else Inr (i, GV2))
          | GAlias \<Rightarrow> Inl (FatalError ''Easy::Jit [not yet implemented]: handle aliases, ifuncs.''))"

definition fixLinkages :: "nat \<Rightarrow> (nat \<times> gvalue) list \<Rightarrow> (nat \<times> gvalue) list result" where
  "fixLinkages Entry M = mapR (fix_linkage Entry) M"

definition set_entry_external :: "nat \<Rightarrow> (nat \<times> gvalue) list \<Rightarrow> (nat \<times> gvalue) list" where
  "set_entry_external Entry M = map (\<lambda>(i, GV).
     (i, if i = Entry then GV\<lparr>gval_linkage := ExternalLinkage\<rparr> else GV)) M"

definition cleanModule ::
    "plugin_env \<Rightarrow> static_module \<Rightarrow> nat \<Rightarrow> nat list \<Rightarrow> (nat \<times> gvalue) list \<Rightarrow> (nat \<times> gvalue) list result" where
  "cleanModule P M Entry Funs Embed =
     (let ForFunction = (node (sm_values M) Entry = NFunction);
          Referenced = Funs @ [Entry];
          Embed1 = (if ForFunction then set_entry_external Entry Embed else Embed);
          Embed2 = extraction_passes P Referenced Embed1
      in if ForFunction then fixLinkages Entry Embed2 else Inr Embed2)"

definition writeModuleToGlobal :: "plugin_env \<Rightarrow> (nat \<times> gvalue) list \<Rightarrow> byte list" where
  "writeModuleToGlobal P Embed = bitcode_of P Embed @ [0]"

definition embedBitcode :: "nat \<Rightarrow> plugin_env \<Rightarrow> static_module \<Rightarrow> nat \<Rightarrow> byte list result option" where
  "embedBitcode n P M GO =
     (if name_of M GO = [] then Some (Inl AssertionFailure)
      else map_option (\<lambda>Funs. bindR (cleanModule P M GO Funs (CloneModule P M)) (\<lambda>Embed. Inr (writeModuleToGlobal P Embed)))
             (getReferencedFromEntry n M GO))"

fun seqO :: "'a result option list \<Rightarrow> 'a list result option" where
  "seqO [] = Some (Inr [])"
| "seqO (x # xs) = Option.bind x (\<lambda>r. case r of
     Inl e \<Rightarrow> Some (Inl e)
   | Inr y \<Rightarrow> map_option (\<lambda>rs. bindR rs (\<lambda>ys. Inr (y # ys))) (seqO xs))"

definition embedBitcodes :: "nat \<Rightarrow> plugin_env \<Rightarrow> static_module \<Rightarrow> nat list \<Rightarrow> byte list list result option" where
  "embedBitcodes n P M Objs = seqO (map (embedBitcode n P M) Objs)"

subsection \<open>The static constructor\<close>

definition registerBitcode ::
    "plugin_env \<Rightarrow> static_module \<Rightarrow> nat list \<Rightarrow> byte list list \<Rightarrow> GlobalMapping list \<Rightarrow> registration list" where
  "registerBitcode P M Objs Bitcodes Mapping =
     map (\<lambda>(Obj, Bitcode). easy_register (address_of P Obj) (name_of M Obj) (Some Mapping) Bitcode
            (length Bitcode - 1)) (zip Objs Bitcodes)"

definition RegisterBitcode_runOnModule ::
    "nat \<Rightarrow> plugin_env \<Rightarrow> static_module \<Rightarrow> (bool \<times> registration list \<times> static_module) result option" where
  "RegisterBitcode_runOnModule n P M =
     Option.bind (collectObjectsToJIT n P M) (\<lambda>(ObjectsToJIT, M1).
       if ObjectsToJIT = [] then Some (Inr (False, [], M1))
       else let LocalVariables = collectLocalGlobals M1;
                M2 = nameGlobals P ''unnamed_local_global'' LocalVariables M1
            in map_option (\<lambda>r. bindR r (\<lambda>Bitcode.
                 Inr (True, registerBitcode P M2 ObjectsToJIT Bitcode (getGlobalMapping P M2 LocalVariables), M2)))
                 (embedBitcodes n P M2 ObjectsToJIT))"

subsection \<open>What the entry refers to\<close>

text \<open>
  \<open>refers\<close> is one step of reference: from a function to the operands of its instructions, from a variable to
  its initializer, from any user to its operands.
\<close>

inductive refers :: "static_module \<Rightarrow> nat \<Rightarrow> nat \<Rightarrow> bool" for M where
  body: "node (sm_values M) U = NFunction \<Longrightarrow> I \<in> set (insts M U) \<Longrightarrow> W \<in> set (operands M I) \<Longrightarrow>
     is_user M W \<Longrightarrow> refers M U W"
| init: "node (sm_values M) U = NGlobalVariable (Some W) \<Longrightarrow> refers M U W"
| operand: "W \<in> set (operands M U) \<Longrightarrow> is_user M W \<Longrightarrow> refers M U W"

inductive_simps refers_iff: "refers M U W"

lemma set_pushed_by: "W \<in> set (pushed_by M U) \<longleftrightarrow> refers M U W"
  by (auto simp: pushed_by_def refers_iff split: value_node.splits option.splits)

definition worklist_ok :: "static_module \<Rightarrow> nat \<Rightarrow> nat list \<Rightarrow> nat set \<Rightarrow> nat list \<Rightarrow> bool" where
  "worklist_ok M Entry ToVisit Visited Funs \<longleftrightarrow>
     Entry \<in> Visited \<union> set ToVisit \<and>
     (\<forall>v \<in> Visited \<union> set ToVisit. (refers M)\<^sup>*\<^sup>* Entry v) \<and>
     (\<forall>v \<in> Visited. \<forall>w. refers M v w \<longrightarrow> w \<in> Visited \<union> set ToVisit) \<and>
     distinct Funs \<and> set Funs = {f \<in> Visited. node (sm_values M) f = NFunction}"

lemma worklist_ok_skip:
  "worklist_ok M Entry (U # ToVisit) Visited Funs \<Longrightarrow> U \<in> Visited \<Longrightarrow> worklist_ok M Entry ToVisit Visited Funs"
  by (auto simp: worklist_ok_def)

lemma worklist_ok_visit:
  assumes "worklist_ok M Entry (U # ToVisit) Visited Funs" "U \<notin> Visited"
  shows "worklist_ok M Entry (rev (pushed_by M U) @ ToVisit) (insert U Visited)
    (if node (sm_values M) U = NFunction then Funs @ [U] else Funs)"
proof -
  have "(refers M)\<^sup>*\<^sup>* Entry w" if "refers M U w" for w
    using assms(1) that by (auto simp: worklist_ok_def intro: rtranclp.rtrancl_into_rtrancl)
  then show ?thesis using assms by (auto simp: worklist_ok_def set_pushed_by)
qed

lemma worklist_ok_done:
  assumes "worklist_ok M Entry [] Visited Funs"
  shows "distinct Funs \<and> set Funs = {f. (refers M)\<^sup>*\<^sup>* Entry f \<and> node (sm_values M) f = NFunction}"
proof -
  from assms have start: "Entry \<in> Visited" and step: "\<And>v w. v \<in> Visited \<Longrightarrow> refers M v w \<Longrightarrow> w \<in> Visited"
    and rest: "\<And>v. v \<in> Visited \<Longrightarrow> (refers M)\<^sup>*\<^sup>* Entry v" "distinct Funs"
      "set Funs = {f \<in> Visited. node (sm_values M) f = NFunction}"
    unfolding worklist_ok_def by simp_all
  have "v \<in> Visited" if "(refers M)\<^sup>*\<^sup>* Entry v" for v
    using that by (induction rule: rtranclp_induct) (rule start, rule step)
  with rest show ?thesis by auto
qed

lemma reference_loop_exact:
  assumes "finite V" and inV: "\<And>v. (refers M)\<^sup>*\<^sup>* Entry v \<Longrightarrow> v \<in> V"
  shows "worklist_ok M Entry ToVisit Visited Funs \<Longrightarrow>
    length ToVisit + (\<Sum>v \<in> V - Visited. length (pushed_by M v)) < n \<Longrightarrow>
    \<exists>R. reference_loop n M ToVisit Visited Funs = Some R \<and> distinct R \<and>
      set R = {f. (refers M)\<^sup>*\<^sup>* Entry f \<and> node (sm_values M) f = NFunction}"
proof (induction n arbitrary: ToVisit Visited Funs)
  case (Suc n)
  show ?case
  proof (cases ToVisit)
    case Nil
    with Suc.prems(1) worklist_ok_done show ?thesis by simp
  next
    case (Cons U rest)
    note ok = Suc.prems(1) [unfolded Cons]
    show ?thesis
    proof (cases "U \<in> Visited")
      case True
      with Suc.IH [OF worklist_ok_skip [OF ok True]] Suc.prems(2) Cons show ?thesis by simp
    next
      case False
      have "(refers M)\<^sup>*\<^sup>* Entry U" using ok unfolding worklist_ok_def by simp
      then have "U \<in> V" by (rule inV)
      then have "(\<Sum>v \<in> V - Visited. length (pushed_by M v)) =
          length (pushed_by M U) + (\<Sum>v \<in> V - Visited - {U}. length (pushed_by M v))"
        using False assms(1) by (intro sum.remove) auto
      moreover have "V - Visited - {U} = V - insert U Visited" by blast
      ultimately show ?thesis using Suc.IH [OF worklist_ok_visit [OF ok False]] Suc.prems(2) Cons False by simp
    qed
  qed
qed simp

text \<open>
  C17. The references of an entry: the loop ends, however the module's values refer to each other, after at
  most one round per pushed operand, and gives every function that the entry refers to through any number of
  steps exactly once, and no other.
\<close>
theorem getReferencedFromEntry_exact:
  assumes "finite V" and "\<forall>v. (refers M)\<^sup>*\<^sup>* Entry v \<longrightarrow> v \<in> V"
    and "1 + (\<Sum>v \<in> V. length (pushed_by M v)) < n"
  shows "\<exists>Funs. getReferencedFromEntry n M Entry = Some Funs \<and> distinct Funs \<and>
    set Funs = {f. (refers M)\<^sup>*\<^sup>* Entry f \<and> node (sm_values M) f = NFunction}"
proof -
  have "worklist_ok M Entry [Entry] {} []" by (simp add: worklist_ok_def)
  with reference_loop_exact [OF assms(1), of M Entry "[Entry]" "{}" "[]" n] assms(2,3)
  show ?thesis unfolding getReferencedFromEntry_def by simp
qed

definition sample_tu :: static_module where
  "sample_tu =
     \<lparr>gobjects = [(0, \<lparr>ob_name = ''kernel'', ob_function = True, ob_section = [], ob_declaration = False,
          ob_constant = False, ob_local = False\<rparr>),
        (1, \<lparr>ob_name = ''helper'', ob_function = True, ob_section = [], ob_declaration = False,
          ob_constant = False, ob_local = True\<rparr>),
        (2, \<lparr>ob_name = ''jit'', ob_function = True, ob_section = CI_SECTION, ob_declaration = True,
          ob_constant = False, ob_local = False\<rparr>),
        (3, \<lparr>ob_name = [], ob_function = False, ob_section = [], ob_declaration = False,
          ob_constant = False, ob_local = True\<rparr>)],
      sm_values = \<lparr>node = (\<lambda>v. if v < 3 then NFunction else if v = 3 then NGlobalVariable (Some 5)
          else if v = 4 then NCall 2 [0] else NOther []),
        users = (\<lambda>v. if v = 2 then [4] else [])\<rparr>,
      insts = (\<lambda>f. if f = 0 then [6] else if f = 1 then [7] else []),
      operands = (\<lambda>v. if v = 6 then [1, 3, 8] else if v = 7 then [0, 1] else []),
      is_user = (\<lambda>v. v < 8)\<rparr>"

lemma sample_tu_simps:
  "node (sm_values sample_tu) v = (if v < 3 then NFunction else if v = 3 then NGlobalVariable (Some 5)
     else if v = 4 then NCall 2 [0] else NOther [])"
  "insts sample_tu f = (if f = 0 then [6] else if f = 1 then [7] else [])"
  "operands sample_tu v = (if v = 6 then [1, 3, 8] else if v = 7 then [0, 1] else [])"
  "is_user sample_tu v \<longleftrightarrow> v < 8"
  "users (sm_values sample_tu) v = (if v = 2 then [4] else [])"
  by (simp_all add: sample_tu_def)

lemma sample_refers: "refers sample_tu u v \<longleftrightarrow>
    u = 0 \<and> (v = 1 \<or> v = 3) \<or> u = 1 \<and> (v = 0 \<or> v = 1) \<or> u = 3 \<and> v = 5 \<or> u = 6 \<and> (v = 1 \<or> v = 3) \<or>
    u = 7 \<and> (v = 0 \<or> v = 1)"
  unfolding set_pushed_by [symmetric] by (auto simp: pushed_by_def sample_tu_simps)

theorem getReferencedFromEntry_exact_witness:
  "\<exists>Funs. getReferencedFromEntry 12 sample_tu 0 = Some Funs \<and> distinct Funs \<and> set Funs = {0, 1}"
proof -
  have reach: "v \<in> {0, 1, 3, 5}" if "(refers sample_tu)\<^sup>*\<^sup>* 0 v" for v
    using that by (induction rule: rtranclp_induct) (auto simp: sample_refers)
  have "(refers sample_tu)\<^sup>*\<^sup>* 0 1" by (rule r_into_rtranclp) (simp add: sample_refers)
  then have "{f. (refers sample_tu)\<^sup>*\<^sup>* 0 f \<and> node (sm_values sample_tu) f = NFunction} = {0, 1}"
    using reach by (fastforce simp: sample_tu_simps split: if_splits)
  moreover have "1 + (\<Sum>v \<in> {0, 1, 3, 5}. length (pushed_by sample_tu v)) < 12"
    by (simp add: pushed_by_def sample_tu_simps)
  ultimately show ?thesis
    using getReferencedFromEntry_exact [of "{0, 1, 3, 5}" sample_tu 0 12] reach by auto
qed

subsection \<open>Which objects are exported\<close>

definition mark_const :: "(nat \<Rightarrow> bool) \<Rightarrow> static_module \<Rightarrow> static_module" where
  "mark_const Q M = M\<lparr>gobjects := map (\<lambda>(i, GO).
     (i, if isConstant GO \<and> Q i then GO\<lparr>ob_section := JIT_SECTION\<rparr> else GO)) (gobjects M)\<rparr>"

lemma isConstant_section [simp]: "isConstant (GO\<lparr>ob_section := s\<rparr>) = isConstant GO"
  by (simp add: isConstant_def)

lemma mark_const_values [simp]: "sm_values (mark_const Q M) = sm_values M"
  by (simp add: mark_const_def)

lemma update_objects_cong:
  "(\<And>i GO. (i, GO) \<in> set (gobjects M) \<Longrightarrow> f (i, GO) = g (i, GO)) \<Longrightarrow>
     M\<lparr>gobjects := map f (gobjects M)\<rparr> = M\<lparr>gobjects := map g (gobjects M)\<rparr>"
  by (intro arg_cong [of _ _ "\<lambda>xs. M\<lparr>gobjects := xs\<rparr>"] map_cong) auto

lemma mark_const_mark_const: "mark_const R (mark_const Q M) = mark_const (\<lambda>i. Q i \<or> R i) M"
proof -
  have "mark_const R (mark_const Q M) = M\<lparr>gobjects := map ((\<lambda>(i, GO).
      (i, if isConstant GO \<and> R i then GO\<lparr>ob_section := JIT_SECTION\<rparr> else GO)) \<circ> (\<lambda>(i, GO).
      (i, if isConstant GO \<and> Q i then GO\<lparr>ob_section := JIT_SECTION\<rparr> else GO))) (gobjects M)\<rparr>"
    by (simp add: mark_const_def)
  also have "\<dots> = mark_const (\<lambda>i. Q i \<or> R i) M"
    unfolding mark_const_def by (rule update_objects_cong) auto
  finally show ?thesis .
qed

lemma mark_const_none: "mark_const (\<lambda>i. False) M = M"
  by (simp add: mark_const_def)

lemma forO_mark_const:
  assumes "\<And>x M. x \<in> set xs \<Longrightarrow> sm_values M = g \<Longrightarrow> f x M = Some (mark_const (Q x) M)"
  shows "sm_values M = g \<Longrightarrow> forO f xs M = Some (mark_const (\<lambda>i. \<exists>x \<in> set xs. Q x i) M)"
  using assms by (induction xs arbitrary: M) (simp_all add: mark_const_none mark_const_mark_const)

definition call_argument :: "plugin_env \<Rightarrow> static_module \<Rightarrow> nat \<Rightarrow> bool" where
  "call_argument P M V \<longleftrightarrow> (\<exists>EasyJitFun \<in> set (compilerInterface M). \<exists>U \<in> set (users (sm_values M) EasyJitFun).
     \<exists>Op \<in> set (call_arguments M U). V = stripPointerCasts P Op)"

definition passed_to_jit :: "plugin_env \<Rightarrow> static_module \<Rightarrow> nat \<Rightarrow> bool" where
  "passed_to_jit P M i \<longleftrightarrow> isGlobalObject (sm_values M) i \<and>
     (\<exists>V. call_argument P M V \<and> alias_reaches (sm_values M) V i)"

definition to_jit :: "plugin_env \<Rightarrow> static_module \<Rightarrow> nat \<Rightarrow> global_object \<Rightarrow> bool" where
  "to_jit P M i GO \<longleftrightarrow> ob_section GO = JIT_SECTION \<or>
     (\<exists>Match. export_regex P = Some Match \<and> Match (ob_name GO)) \<or>
     isConstant GO \<and> passed_to_jit P M i"

lemma trace_argument_marks:
  assumes "\<forall>v. alias_reaches (sm_values M) (stripPointerCasts P Op) v \<longrightarrow> v < N" and "2 * N < n"
  shows "trace_argument n P Op M = Some (mark_const (\<lambda>i. isGlobalObject (sm_values M) i \<and>
    alias_reaches (sm_values M) (stripPointerCasts P Op) i) M)"
proof -
  obtain T where T: "MayAliasTracer_new n (sm_values M) (stripPointerCasts P Op) = Some T"
    using tracer_total [OF assms] by blast
  show ?thesis by (simp add: trace_argument_def T mark_traced_def mark_const_def new_tracer_reaches [OF T])
qed

lemma deduceObjectsToJIT_marks:
  assumes "\<forall>V v. call_argument P M V \<longrightarrow> alias_reaches (sm_values M) V v \<longrightarrow> v < N" and "2 * N < n"
  shows "deduceObjectsToJIT n P M = Some (mark_const (passed_to_jit P M) M)"
proof -
  let ?Q = "\<lambda>Op i. isGlobalObject (sm_values M) i \<and> alias_reaches (sm_values M) (stripPointerCasts P Op) i"
  have "trace_argument n P Op M' = Some (mark_const (?Q Op) M')"
    if "EasyJitFun \<in> set (compilerInterface M)" "U \<in> set (users (sm_values M) EasyJitFun)"
      "Op \<in> set (call_arguments M U)" "sm_values M' = sm_values M" for EasyJitFun U Op M'
    using that assms trace_argument_marks [of M' P Op N n] by (auto simp: call_argument_def)
  then have "forO (trace_argument n P) (call_arguments M U) M' =
      Some (mark_const (\<lambda>i. \<exists>Op \<in> set (call_arguments M U). ?Q Op i) M')"
    if "EasyJitFun \<in> set (compilerInterface M)" "U \<in> set (users (sm_values M) EasyJitFun)"
      "sm_values M' = sm_values M" for EasyJitFun U M'
    using that by (rule_tac forO_mark_const [where g = "sm_values M"]) auto
  then have "forO (\<lambda>U. forO (trace_argument n P) (call_arguments M U)) (users (sm_values M) EasyJitFun) M' =
      Some (mark_const (\<lambda>i. \<exists>U \<in> set (users (sm_values M) EasyJitFun). \<exists>Op \<in> set (call_arguments M U). ?Q Op i) M')"
    if "EasyJitFun \<in> set (compilerInterface M)" "sm_values M' = sm_values M" for EasyJitFun M'
    using that by (rule_tac forO_mark_const [where g = "sm_values M"]) auto
  then have "deduceObjectsToJIT n P M = Some (mark_const (\<lambda>i. \<exists>EasyJitFun \<in> set (compilerInterface M).
      \<exists>U \<in> set (users (sm_values M) EasyJitFun). \<exists>Op \<in> set (call_arguments M U). ?Q Op i) M)"
    unfolding deduceObjectsToJIT_def by (rule_tac forO_mark_const [where g = "sm_values M"]) auto
  moreover have "(\<lambda>i. \<exists>EasyJitFun \<in> set (compilerInterface M).
      \<exists>U \<in> set (users (sm_values M) EasyJitFun). \<exists>Op \<in> set (call_arguments M U). ?Q Op i) = passed_to_jit P M"
    by (auto simp: fun_eq_iff passed_to_jit_def call_argument_def)
  ultimately show ?thesis by simp
qed

lemma collectObjectsToJIT_result:
  assumes "\<forall>V v. call_argument P M V \<longrightarrow> alias_reaches (sm_values M) V v \<longrightarrow> v < N" and "2 * N < n"
  shows "collectObjectsToJIT n P M =
    Some (map fst (filter (\<lambda>(i, GO). to_jit P M i GO \<and> \<not> ob_declaration GO) (gobjects M)),
      M\<lparr>gobjects := map (\<lambda>(i, GO). (i, if to_jit P M i GO then GO\<lparr>ob_section := []\<rparr> else GO)) (gobjects M)\<rparr>)"
proof -
  let ?f = "\<lambda>(i, GO). (i, if to_jit P M i GO then GO\<lparr>ob_section := JIT_SECTION\<rparr> else GO)"
  have "regexFunctionsToJIT P (mark_const (passed_to_jit P M) M) = M\<lparr>gobjects := map ?f (gobjects M)\<rparr>"
    by (cases "export_regex P")
      (auto simp: regexFunctionsToJIT_def mark_const_def to_jit_def intro!: update_objects_cong)
  moreover have sec: "ob_section (snd (?f (i, GO))) = JIT_SECTION \<longleftrightarrow> to_jit P M i GO" for i GO
    by (auto simp: to_jit_def)
  moreover have "filter (\<lambda>(i, GO). ob_section GO = JIT_SECTION \<and> canExtractBitcode GO) (map ?f xs) =
      map ?f (filter (\<lambda>(i, GO). to_jit P M i GO \<and> \<not> ob_declaration GO) xs)" for xs
    using sec by (induction xs) (auto simp: canExtractBitcode_def split: if_splits)
  moreover have "map fst (map ?f xs) = map fst xs" for xs by (induction xs) auto
  moreover have "M\<lparr>gobjects := map ((\<lambda>(i, GO). (i, if ob_section GO = JIT_SECTION then GO\<lparr>ob_section := []\<rparr> else GO)) \<circ> ?f)
      (gobjects M)\<rparr> =
    M\<lparr>gobjects := map (\<lambda>(i, GO). (i, if to_jit P M i GO then GO\<lparr>ob_section := []\<rparr> else GO)) (gobjects M)\<rparr>"
    using sec by (intro update_objects_cong) auto
  ultimately show ?thesis
    by (simp add: collectObjectsToJIT_def deduceObjectsToJIT_marks [OF assms])
qed

text \<open>
  C15. What the plugin exports: with a recursion depth above twice the number of values that the arguments of
  calls to the compiler interface lead to, the collection ends and gives, in module order, exactly the
  objects with a definition that the user put into the jit section, that the regular expression matches, or that are
  functions or constants which an argument of such a call may refer to; the section of each marked object
  is dropped and nothing else of the module changes.
\<close>
theorem collectObjectsToJIT_exact:
  assumes "\<forall>V v. call_argument P M V \<longrightarrow> alias_reaches (sm_values M) V v \<longrightarrow> v < N" and "2 * N < n"
  shows "collectObjectsToJIT n P M =
    Some (map fst (filter (\<lambda>(i, GO). to_jit P M i GO \<and> \<not> ob_declaration GO) (gobjects M)),
      M\<lparr>gobjects := map (\<lambda>(i, GO). (i, if to_jit P M i GO then GO\<lparr>ob_section := []\<rparr> else GO)) (gobjects M)\<rparr>)"
  by (rule collectObjectsToJIT_result [OF assms])

definition sample_env :: plugin_env where
  "sample_env = \<lparr>stripPointerCasts = (\<lambda>v. v), export_regex = None, unique_name = (\<lambda>used Name. Name),
     CloneModule = (\<lambda>M. [(0, \<lparr>gval_name = ''kernel'', gval_kind = GFun False [], gval_linkage = InternalLinkage,
       gval_default_visibility = True, gval_comdat = False\<rparr>)]),
     extraction_passes = (\<lambda>Funs E. E), bitcode_of = (\<lambda>E. [7, 9]), address_of = (\<lambda>v. of_nat v * 8 + 8)\<rparr>"

lemma sample_call_argument: "call_argument sample_env sample_tu V \<longleftrightarrow> V = 0"
  by (auto simp: call_argument_def compilerInterface_def call_arguments_def sample_env_def sample_tu_def CI_SECTION_def)

lemma sample_alias: "alias_reaches (sm_values sample_tu) 0 v \<longleftrightarrow> v = 0"
proof
  assume "alias_reaches (sm_values sample_tu) 0 v"
  then obtain y where y: "(alias_step (sm_values sample_tu))\<^sup>*\<^sup>* (VLoad 0) y" "value_of y = v"
    by (auto simp: alias_reaches_def)
  from y(1) have "y = VLoad 0"
    by (induction rule: rtranclp_induct) (auto simp: alias_step_L sample_tu_simps)
  with y(2) show "v = 0" by simp
qed (auto simp: alias_reaches_def intro: exI [of _ "VLoad 0"])

lemma sample_to_jit: "(i, GO) \<in> set (gobjects sample_tu) \<Longrightarrow> to_jit sample_env sample_tu i GO \<longleftrightarrow> i = 0"
  by (auto simp: to_jit_def passed_to_jit_def sample_call_argument sample_alias isGlobalObject_def sample_tu_simps)
    (auto simp: sample_tu_def sample_env_def isConstant_def JIT_SECTION_def CI_SECTION_def)

lemma sample_filter:
  "filter (\<lambda>(i, GO). to_jit sample_env sample_tu i GO \<and> \<not> ob_declaration GO) (gobjects sample_tu) =
     filter (\<lambda>(i, GO). i = 0 \<and> \<not> ob_declaration GO) (gobjects sample_tu)"
  using sample_to_jit by (intro filter_cong) auto

theorem collectObjectsToJIT_exact_witness:
  "\<exists>M'. collectObjectsToJIT 3 sample_env sample_tu = Some ([0], M')"
proof -
  have "map fst (filter (\<lambda>(i, GO). to_jit sample_env sample_tu i GO \<and> \<not> ob_declaration GO) (gobjects sample_tu)) = [0]"
    unfolding sample_filter by (simp add: sample_tu_def)
  then show ?thesis
    using collectObjectsToJIT_exact [of sample_env sample_tu 1 3] sample_call_argument sample_alias by simp
qed

subsection \<open>The linkages of the embedded module\<close>

definition is_intrinsic :: "gvalue \<Rightarrow> bool" where
  "is_intrinsic GV \<longleftrightarrow> starts_with ''llvm.'' (gval_name GV)"

definition unsupported_alias :: "gvalue \<Rightarrow> bool" where
  "unsupported_alias GV \<longleftrightarrow> gval_kind GV = GAlias \<and> \<not> is_intrinsic GV"

definition embedded_value_ok :: "nat \<Rightarrow> nat \<times> gvalue \<Rightarrow> bool" where
  "embedded_value_ok Entry e = (case e of (i, GV) \<Rightarrow>
     is_intrinsic GV \<or> \<not> gval_comdat GV \<and>
     (case gval_kind GV of
        GVar has_init \<Rightarrow> \<not> has_init \<and> gval_linkage GV = ExternalLinkage \<and> gval_default_visibility GV
      | GFun is_declaration attrs \<Rightarrow>
          is_declaration \<or> i = Entry \<or> ''optnone'' \<in> set attrs \<or>
          gval_linkage GV = PrivateLinkage \<and> gval_default_visibility GV
      | GAlias \<Rightarrow> False))"

lemma fix_linkage_supported:
  assumes "\<not> unsupported_alias GV"
  shows "\<exists>GV'. fix_linkage Entry (i, GV) = Inr (i, GV') \<and> gval_name GV' = gval_name GV \<and>
    embedded_value_ok Entry (i, GV')"
  using assms
  by (cases "gval_kind GV")
    (auto simp: fix_linkage_def unsupported_alias_def embedded_value_ok_def is_intrinsic_def Let_def)

lemma fix_linkage_unsupported:
  "unsupported_alias GV \<Longrightarrow> fix_linkage Entry (i, GV) =
     Inl (FatalError ''Easy::Jit [not yet implemented]: handle aliases, ifuncs.'')"
  by (simp add: fix_linkage_def unsupported_alias_def is_intrinsic_def)

lemma fixLinkages_supported:
  assumes "\<forall>(i, GV) \<in> set M. \<not> unsupported_alias GV"
  shows "\<exists>M'. fixLinkages Entry M = Inr M' \<and> map fst M' = map fst M \<and>
    map (gval_name \<circ> snd) M' = map (gval_name \<circ> snd) M \<and> list_all (embedded_value_ok Entry) M'"
  using assms
proof (induction M)
  case (Cons e M)
  obtain i GV where e: "e = (i, GV)" by (cases e)
  then obtain GV' where "fix_linkage Entry e = Inr (i, GV')" "gval_name GV' = gval_name GV"
      "embedded_value_ok Entry (i, GV')"
    using fix_linkage_supported [of GV Entry i] Cons.prems by auto
  with Cons e show ?case by (auto simp: fixLinkages_def)
qed (simp add: fixLinkages_def)

lemma fixLinkages_unsupported:
  assumes "(i, GV) \<in> set M" "unsupported_alias GV"
  shows "fixLinkages Entry M = Inl (FatalError ''Easy::Jit [not yet implemented]: handle aliases, ifuncs.'')"
  using assms
proof (induction M)
  case (Cons e M)
  obtain j GW where e: "e = (j, GW)" by (cases e)
  show ?case
  proof (cases "unsupported_alias GW")
    case True
    then show ?thesis by (simp add: fixLinkages_def e fix_linkage_unsupported)
  next
    case False
    then have "(i, GV) \<in> set M" using Cons.prems e by auto
    with Cons False fix_linkage_supported [of GW Entry j] show ?thesis by (auto simp: fixLinkages_def e)
  qed
qed simp

text \<open>
  C18. The module embedded for a function is closed: after \<open>cleanModule\<close> no variable is defined in it (each is an
  external declaration, to be resolved with the global mapping), and every function defined in it is private
  unless it is the entry or must not be optimized; names are kept, intrinsics are left alone. A module
  with an alias is refused.
\<close>
theorem cleanModule_closed:
  assumes "node (sm_values M) Entry = NFunction"
    and "E = extraction_passes P (Funs @ [Entry]) (set_entry_external Entry Embed)"
  shows "if \<exists>(i, GV) \<in> set E. unsupported_alias GV
    then cleanModule P M Entry Funs Embed =
      Inl (FatalError ''Easy::Jit [not yet implemented]: handle aliases, ifuncs.'')
    else \<exists>E'. cleanModule P M Entry Funs Embed = Inr E' \<and> map fst E' = map fst E \<and>
      map (gval_name \<circ> snd) E' = map (gval_name \<circ> snd) E \<and> list_all (embedded_value_ok Entry) E'"
proof (cases "\<exists>(i, GV) \<in> set E. unsupported_alias GV")
  case True
  then show ?thesis using assms fixLinkages_unsupported by (auto simp: cleanModule_def Let_def)
next
  case False
  then have "\<forall>(i, GV) \<in> set E. \<not> unsupported_alias GV" by blast
  from fixLinkages_supported [OF this] False show ?thesis using assms by (simp add: cleanModule_def Let_def)
qed

theorem cleanModule_closed_witness:
  "\<exists>E'. cleanModule sample_env sample_tu 0 [] [(0, \<lparr>gval_name = ''kernel'', gval_kind = GFun False [],
       gval_linkage = InternalLinkage, gval_default_visibility = True, gval_comdat = False\<rparr>),
     (3, \<lparr>gval_name = ''state'', gval_kind = GVar True, gval_linkage = InternalLinkage,
       gval_default_visibility = True, gval_comdat = False\<rparr>)] = Inr E' \<and>
     map fst E' = [0, 3] \<and> list_all (embedded_value_ok 0) E'"
  using cleanModule_closed [of sample_tu 0 _ sample_env "[]" "[(0, \<lparr>gval_name = ''kernel'', gval_kind = GFun False [],
       gval_linkage = InternalLinkage, gval_default_visibility = True, gval_comdat = False\<rparr>),
     (3, \<lparr>gval_name = ''state'', gval_kind = GVar True, gval_linkage = InternalLinkage,
       gval_default_visibility = True, gval_comdat = False\<rparr>)]", OF _ refl]
  by (auto simp: sample_tu_simps sample_env_def set_entry_external_def unsupported_alias_def)

subsection \<open>From the plugin to the run time\<close>

definition plugin_objects :: "plugin_env \<Rightarrow> static_module \<Rightarrow> nat list" where
  "plugin_objects P M = map fst (filter (\<lambda>(i, GO). to_jit P M i GO \<and> \<not> ob_declaration GO) (gobjects M))"

definition unmarked :: "plugin_env \<Rightarrow> static_module \<Rightarrow> static_module" where
  "unmarked P M = M\<lparr>gobjects := map (\<lambda>(i, GO). (i, if to_jit P M i GO then GO\<lparr>ob_section := []\<rparr> else GO)) (gobjects M)\<rparr>"

definition plugin_module :: "plugin_env \<Rightarrow> static_module \<Rightarrow> static_module" where
  "plugin_module P M = nameGlobals P ''unnamed_local_global'' (collectLocalGlobals M) (unmarked P M)"

lemma object_at_update:
  "object_at (M\<lparr>gobjects := map (\<lambda>(i, GO). (i, f i GO)) (gobjects M)\<rparr>) i = map_option (f i) (object_at M i)"
proof -
  have "map_of (map (\<lambda>(i, GO). (i, f i GO)) xs) i = map_option (f i) (map_of xs i)" for xs
    by (induction xs) auto
  then show ?thesis by (simp add: object_at_def)
qed

lemma name_of_name_global:
  "name_of (name_global P Name GV M) i =
     (if i = GV \<and> object_at M i \<noteq> None \<and> name_of M i = []
      then unique_name P (map (ob_name \<circ> snd) (gobjects M)) Name else name_of M i)"
  by (auto simp: name_of_def name_global_def object_at_update split: option.splits)

lemma object_at_name_global: "object_at (name_global P Name GV M) i = None \<longleftrightarrow> object_at M i = None"
  by (simp add: name_global_def object_at_update)

lemma name_global_graph [simp]:
  "sm_values (name_global P Name GV M) = sm_values M" "insts (name_global P Name GV M) = insts M"
  "operands (name_global P Name GV M) = operands M" "is_user (name_global P Name GV M) = is_user M"
  by (simp_all add: name_global_def)

lemma nameGlobals_graph [simp]:
  "sm_values (nameGlobals P Name Globals M) = sm_values M" "insts (nameGlobals P Name Globals M) = insts M"
  "operands (nameGlobals P Name Globals M) = operands M" "is_user (nameGlobals P Name Globals M) = is_user M"
  unfolding nameGlobals_def by (induction Globals arbitrary: M) simp_all

lemma nameGlobals_keeps: "name_of M i \<noteq> [] \<Longrightarrow> name_of (nameGlobals P Name Globals M) i = name_of M i"
  unfolding nameGlobals_def by (induction Globals arbitrary: M) (simp_all add: name_of_name_global)

lemma nameGlobals_names:
  assumes unique: "\<forall>used. unique_name P used Name \<noteq> []" and "GV \<in> set Globals" and "object_at M GV \<noteq> None"
  shows "name_of (nameGlobals P Name Globals M) GV \<noteq> []"
  using assms(2,3)
proof (induction Globals arbitrary: M)
  case (Cons G Globals)
  show ?case
  proof (cases "GV = G")
    case True
    then have "name_of (name_global P Name G M) GV \<noteq> []"
      using unique Cons.prems by (simp add: name_of_name_global)
    then show ?thesis using nameGlobals_keeps [of "name_global P Name G M"] by (simp add: nameGlobals_def)
  next
    case False
    moreover have "object_at (name_global P Name G M) GV \<noteq> None"
      using Cons.prems by (simp add: object_at_name_global del: not_None_eq)
    ultimately show ?thesis using Cons.IH [of "name_global P Name G M"] Cons.prems by (simp add: nameGlobals_def)
  qed
qed simp

lemma unmarked_same [simp]:
  "sm_values (unmarked P M) = sm_values M" "insts (unmarked P M) = insts M"
  "operands (unmarked P M) = operands M" "is_user (unmarked P M) = is_user M"
  "name_of (unmarked P M) i = name_of M i" "object_at (unmarked P M) i = None \<longleftrightarrow> object_at M i = None"
  by (auto simp: unmarked_def name_of_def object_at_update split: option.splits)

lemma collectLocalGlobals_update:
  assumes "\<And>i GO. ob_function (f i GO) = ob_function GO \<and> ob_local (f i GO) = ob_local GO"
  shows "collectLocalGlobals (M\<lparr>gobjects := map (\<lambda>(i, GO). (i, f i GO)) (gobjects M)\<rparr>) = collectLocalGlobals M"
proof -
  have "map fst (filter (\<lambda>(i, GV). \<not> ob_function GV \<and> ob_local GV) (map (\<lambda>(i, GO). (i, f i GO)) xs)) =
      map fst (filter (\<lambda>(i, GV). \<not> ob_function GV \<and> ob_local GV) xs)" for xs
    using assms by (induction xs) auto
  then show ?thesis by (simp add: collectLocalGlobals_def)
qed

lemma collectLocalGlobals_unmarked [simp]: "collectLocalGlobals (unmarked P M) = collectLocalGlobals M"
  unfolding unmarked_def by (rule collectLocalGlobals_update) simp

lemma collectLocalGlobals_nameGlobals [simp]:
  "collectLocalGlobals (nameGlobals P Name Globals M) = collectLocalGlobals M"
proof -
  have "collectLocalGlobals (name_global P Name GV M) = collectLocalGlobals M" for GV M
    unfolding name_global_def by (rule collectLocalGlobals_update) simp
  then show ?thesis unfolding nameGlobals_def by (induction Globals arbitrary: M) simp_all
qed

lemma collectLocalGlobals_plugin [simp]: "collectLocalGlobals (plugin_module P M) = collectLocalGlobals M"
  by (simp add: plugin_module_def)

lemma plugin_module_graph [simp]:
  "sm_values (plugin_module P M) = sm_values M" "pushed_by (plugin_module P M) = pushed_by M"
  by (auto simp: plugin_module_def pushed_by_def fun_eq_iff split: value_node.split option.split)

lemma reference_loop_graph:
  "pushed_by M' = pushed_by M \<Longrightarrow> sm_values M' = sm_values M \<Longrightarrow>
     reference_loop n M' ToVisit Visited Funs = reference_loop n M ToVisit Visited Funs"
  by (induction n M ToVisit Visited Funs rule: reference_loop.induct) auto

lemma getReferencedFromEntry_plugin [simp]:
  "getReferencedFromEntry n (plugin_module P M) Entry = getReferencedFromEntry n M Entry"
  unfolding getReferencedFromEntry_def by (rule reference_loop_graph) simp_all

lemma seqO_total: "(\<And>x. x \<in> set xs \<Longrightarrow> f x = Some (Inr (g x))) \<Longrightarrow> seqO (map f xs) = Some (Inr (map g xs))"
  by (induction xs) auto

lemma MapGlobals_mapping:
  "MapGlobals (getGlobalMapping P M Globals) = Inr (map (\<lambda>GV. (name_of M GV, address_of P GV)) Globals)"
  unfolding getGlobalMapping_def by (induction Globals) auto

lemma plugin_module_named:
  assumes "\<forall>used. unique_name P used ''unnamed_local_global'' \<noteq> []"
    and "\<forall>(i, GO) \<in> set (gobjects M). ob_name GO = [] \<longrightarrow> \<not> ob_function GO \<and> ob_local GO"
    and "distinct (map fst (gobjects M))" and "(Obj, GO) \<in> set (gobjects M)"
  shows "name_of (plugin_module P M) Obj \<noteq> []"
proof -
  have at: "object_at M Obj = Some GO" using assms(3,4) by (simp add: object_at_def)
  show ?thesis
  proof (cases "ob_name GO = []")
    case True
    then have "Obj \<in> set (collectLocalGlobals M)"
      using assms(2,4) by (force simp: collectLocalGlobals_def)
    then show ?thesis unfolding plugin_module_def using assms(1) at by (intro nameGlobals_names) auto
  next
    case False
    then have "name_of (unmarked P M) Obj \<noteq> []" using at unfolding unmarked_same by (simp add: name_of_def)
    then show ?thesis unfolding plugin_module_def by (simp only: nameGlobals_keeps not_False_eq_True)
  qed
qed

lemma reg_functions_map:
  "reg_functions (map (\<lambda>x. easy_register (p x) (n x) g (b x) (l x)) xs) = map (\<lambda>x. (p x, n x)) xs"
  by (induction xs) simp_all

lemma registerBitcode_map:
  "registerBitcode P M Objs (map b Objs) Mapping =
     map (\<lambda>Obj. easy_register (address_of P Obj) (name_of M Obj) (Some Mapping) (b Obj) (length (b Obj) - 1)) Objs"
  by (induction Objs) (simp_all add: registerBitcode_def)

lemma registerBitcode_lookup:
  assumes "distinct Objs" "inj_on (address_of P) (set Objs)" "Obj \<in> set Objs" "b Obj = bs @ [0]"
  shows "um_find (=) (address_of P Obj)
      (Functions (run_registrations (registerBitcode P M Objs (map b Objs) Mapping) TheTracker)) =
    Some \<lparr>fi_Name = name_of M Obj, fi_Globals = Some Mapping, fi_Bitcode = bs @ [0], fi_BitcodeLen = length bs\<rparr>"
proof (rule registered_info)
  show "distinct (map fst (reg_functions (registerBitcode P M Objs (map b Objs) Mapping)))"
    using assms(1,2) by (simp add: registerBitcode_map reg_functions_map distinct_map comp_def)
  show "easy_register (address_of P Obj) (name_of M Obj) (Some Mapping) (bs @ [0]) (length bs) \<in>
      set (registerBitcode P M Objs (map b Objs) Mapping)"
    using assms(3,4) by (force simp: registerBitcode_map)
qed

lemma embedBitcode_total:
  assumes "getReferencedFromEntry n M Obj = Some Funs" and "name_of M Obj \<noteq> []"
    and "\<forall>(i, GV) \<in> set (extraction_passes P (Funs @ [Obj]) (set_entry_external Obj (CloneModule P M))).
      \<not> unsupported_alias GV"
  shows "\<exists>E. cleanModule P M Obj Funs (CloneModule P M) = Inr E \<and>
    embedBitcode n P M Obj = Some (Inr (bitcode_of P E @ [0]))"
proof (cases "node (sm_values M) Obj = NFunction")
  case True
  with fixLinkages_supported [OF assms(3)] obtain E where
    "cleanModule P M Obj Funs (CloneModule P M) = Inr E" by (auto simp: cleanModule_def Let_def)
  with assms show ?thesis by (simp add: embedBitcode_def writeModuleToGlobal_def)
next
  case False
  with assms(1,2) show ?thesis by (simp add: embedBitcode_def writeModuleToGlobal_def cleanModule_def Let_def)
qed

definition registered_for :: "nat \<Rightarrow> plugin_env \<Rightarrow> static_module \<Rightarrow> BitcodeTracker \<Rightarrow> nat \<Rightarrow> bool" where
  "registered_for n P M BT Obj \<longleftrightarrow> (\<exists>Funs E Globals.
     getReferencedFromEntry n M Obj = Some Funs \<and>
     cleanModule P M Obj Funs (CloneModule P M) = Inr E \<and>
     getNameAndGlobalMapping BT (address_of P Obj) = Inr (name_of M Obj, Some Globals) \<and>
     MapGlobals Globals = Inr (map (\<lambda>GV. (name_of M GV, address_of P GV)) (collectLocalGlobals M)) \<and>
     getModule Some BT (address_of P Obj) = Inr (bitcode_of P E))"

definition translation_unit_ok :: "plugin_env \<Rightarrow> static_module \<Rightarrow> bool" where
  "translation_unit_ok P M \<longleftrightarrow>
     distinct (map fst (gobjects M)) \<and>
     (\<forall>(i, GO) \<in> set (gobjects M). ob_name GO = [] \<longrightarrow> \<not> ob_function GO \<and> ob_local GO) \<and>
     inj_on (address_of P) (set (plugin_objects P M))"

definition enough_fuel :: "nat \<Rightarrow> plugin_env \<Rightarrow> static_module \<Rightarrow> bool" where
  "enough_fuel n P M \<longleftrightarrow> (\<exists>N.
     (\<forall>V v. call_argument P M V \<longrightarrow> alias_reaches (sm_values M) V v \<longrightarrow> v < N) \<and>
     (\<forall>Obj v. Obj \<in> set (plugin_objects P M) \<longrightarrow> (refers M)\<^sup>*\<^sup>* Obj v \<longrightarrow> v < N) \<and>
     2 * N < n \<and> 1 + (\<Sum>v < N. length (pushed_by M v)) < n)"

definition no_aliases :: "nat \<Rightarrow> plugin_env \<Rightarrow> static_module \<Rightarrow> bool" where
  "no_aliases n P M \<longleftrightarrow> (\<forall>Obj Funs. Obj \<in> set (plugin_objects P M) \<longrightarrow> getReferencedFromEntry n M Obj = Some Funs \<longrightarrow>
     (\<forall>(i, GV) \<in> set (extraction_passes P (Funs @ [Obj]) (set_entry_external Obj (CloneModule P (plugin_module P M)))).
        \<not> unsupported_alias GV))"

lemma enough_fuelD:
  assumes "enough_fuel n P M"
  shows "collectObjectsToJIT n P M = Some (plugin_objects P M, unmarked P M)"
    and "Obj \<in> set (plugin_objects P M) \<Longrightarrow> \<exists>Funs. getReferencedFromEntry n M Obj = Some Funs"
proof -
  obtain N where N: "\<forall>V v. call_argument P M V \<longrightarrow> alias_reaches (sm_values M) V v \<longrightarrow> v < N"
      "\<forall>Obj v. Obj \<in> set (plugin_objects P M) \<longrightarrow> (refers M)\<^sup>*\<^sup>* Obj v \<longrightarrow> v < N"
      "2 * N < n" "1 + (\<Sum>v < N. length (pushed_by M v)) < n"
    using assms unfolding enough_fuel_def by blast
  show "collectObjectsToJIT n P M = Some (plugin_objects P M, unmarked P M)"
    using collectObjectsToJIT_result [OF N(1,3)] by (simp add: plugin_objects_def unmarked_def)
  assume "Obj \<in> set (plugin_objects P M)"
  then have "\<And>v. (refers M)\<^sup>*\<^sup>* Obj v \<Longrightarrow> v \<in> {..<N}" using N(2) by simp
  moreover have "worklist_ok M Obj [Obj] {} []" by (simp add: worklist_ok_def)
  ultimately show "\<exists>Funs. getReferencedFromEntry n M Obj = Some Funs"
    using reference_loop_exact [of "{..<N}" M Obj "[Obj]" "{}" "[]" n] N(4) by (auto simp: getReferencedFromEntry_def)
qed

text \<open>
  C8. From the compiler to the run time: for every translation unit whose objects are named and have
  addresses of their own, the pass ends, changes no more than names and section marks, and makes one call of \<open>easy_register\<close> per exported object; when
  the program's static constructor has run these calls, the tracker gives for the address of each object its
  name, the mapping of all local variables of the unit to their addresses, as \<open>MapGlobals\<close> reads it, and exactly
  the bitcode of its cleaned module, without the terminating zero.
\<close>
theorem RegisterBitcode_registers:
  assumes "plugin_objects P M \<noteq> []" and "translation_unit_ok P M" and "enough_fuel n P M" and "no_aliases n P M"
    and "\<forall>used. unique_name P used ''unnamed_local_global'' \<noteq> []"
  shows "\<exists>calls. RegisterBitcode_runOnModule n P M = Some (Inr (True, calls, plugin_module P M)) \<and>
    reg_functions calls = map (\<lambda>Obj. (address_of P Obj, name_of (plugin_module P M) Obj)) (plugin_objects P M) \<and>
    (\<forall>Obj \<in> set (plugin_objects P M).
       registered_for n P (plugin_module P M) (run_registrations calls TheTracker) Obj)"
proof -
  let ?M = "plugin_module P M" and ?Objs = "plugin_objects P M"
  have "\<exists>E Funs. getReferencedFromEntry n ?M Obj = Some Funs \<and> cleanModule P ?M Obj Funs (CloneModule P ?M) = Inr E \<and>
      embedBitcode n P ?M Obj = Some (Inr (bitcode_of P E @ [0]))" if Obj: "Obj \<in> set ?Objs" for Obj
  proof -
    obtain Funs where Funs: "getReferencedFromEntry n ?M Obj = Some Funs"
      using enough_fuelD(2) [OF assms(3) Obj] by auto
    obtain GO where "(Obj, GO) \<in> set (gobjects M)" using Obj by (auto simp: plugin_objects_def)
    then have "name_of ?M Obj \<noteq> []"
      using plugin_module_named assms(2,5) unfolding translation_unit_ok_def by blast
    then show ?thesis
      using embedBitcode_total [OF Funs] assms(4) Obj Funs by (auto simp: no_aliases_def)
  qed
  then obtain E F where EF: "\<And>Obj. Obj \<in> set ?Objs \<Longrightarrow> getReferencedFromEntry n ?M Obj = Some (F Obj) \<and>
      cleanModule P ?M Obj (F Obj) (CloneModule P ?M) = Inr (E Obj) \<and>
      embedBitcode n P ?M Obj = Some (Inr (bitcode_of P (E Obj) @ [0]))" by metis
  let ?b = "\<lambda>Obj. bitcode_of P (E Obj) @ [0]" and ?gm = "getGlobalMapping P ?M (collectLocalGlobals M)"
  let ?calls = "registerBitcode P ?M ?Objs (map ?b ?Objs) ?gm"
  have "seqO (map (embedBitcode n P ?M) ?Objs) = Some (Inr (map ?b ?Objs))"
    using EF by (intro seqO_total) simp
  then have "RegisterBitcode_runOnModule n P M = Some (Inr (True, ?calls, ?M))"
    using assms(1) by (simp add: RegisterBitcode_runOnModule_def embedBitcodes_def enough_fuelD(1) [OF assms(3)] plugin_module_def Let_def)
  moreover have "reg_functions ?calls = map (\<lambda>Obj. (address_of P Obj, name_of ?M Obj)) ?Objs"
    unfolding registerBitcode_map by (rule reg_functions_map)
  moreover have "registered_for n P ?M (run_registrations ?calls TheTracker) Obj" if "Obj \<in> set ?Objs" for Obj
  proof -
    have "distinct ?Objs" using assms(2) unfolding translation_unit_ok_def plugin_objects_def
      by (auto intro: distinct_map_filter)
    then have "um_find (=) (address_of P Obj) (Functions (run_registrations ?calls TheTracker)) =
        Some \<lparr>fi_Name = name_of ?M Obj, fi_Globals = Some ?gm, fi_Bitcode = ?b Obj,
          fi_BitcodeLen = length (bitcode_of P (E Obj))\<rparr>"
      using that assms(2) by (intro registerBitcode_lookup) (simp_all add: translation_unit_ok_def)
    with EF [OF that] show ?thesis
      unfolding registered_for_def
      by (intro exI [of _ "F Obj"] exI [of _ "E Obj"] exI [of _ ?gm])
        (simp add: getNameAndGlobalMapping_def getModule_def getModuleWithContext_def MapGlobals_mapping)
  qed
  ultimately show ?thesis by blast
qed

lemma sample_plugin_objects: "plugin_objects sample_env sample_tu = [0]"
  unfolding plugin_objects_def sample_filter by (simp add: sample_tu_def)

lemma sample_reach: "(refers sample_tu)\<^sup>*\<^sup>* 0 v \<Longrightarrow> v \<in> {0, 1, 3, 5}"
  by (induction rule: rtranclp_induct) (auto simp: sample_refers)

lemma sample_unit_ok:
  "enough_fuel 13 sample_env sample_tu" "translation_unit_ok sample_env sample_tu" "no_aliases 13 sample_env sample_tu"
  "\<forall>used. unique_name sample_env used ''unnamed_local_global'' \<noteq> []"
proof -
  have "(\<Sum>v < (6::nat). length (pushed_by sample_tu v)) = 5"
    by (simp add: pushed_by_def sample_tu_simps numeral_eq_Suc)
  then show "enough_fuel 13 sample_env sample_tu"
    unfolding enough_fuel_def using sample_reach
    by (intro exI [of _ 6]) (fastforce simp: sample_call_argument sample_alias sample_plugin_objects)
  show "translation_unit_ok sample_env sample_tu"
    by (simp add: translation_unit_ok_def sample_plugin_objects) (simp add: sample_tu_def)
  show "no_aliases 13 sample_env sample_tu"
    by (auto simp: no_aliases_def sample_env_def set_entry_external_def unsupported_alias_def)
  show "\<forall>used. unique_name sample_env used ''unnamed_local_global'' \<noteq> []"
    by (simp add: sample_env_def)
qed

theorem RegisterBitcode_registers_witness:
  "\<exists>calls. RegisterBitcode_runOnModule 13 sample_env sample_tu =
      Some (Inr (True, calls, plugin_module sample_env sample_tu)) \<and>
    registered_for 13 sample_env (plugin_module sample_env sample_tu) (run_registrations calls TheTracker) 0"
  using RegisterBitcode_registers [OF _ sample_unit_ok(2,1,3,4)] by (auto simp: sample_plugin_objects)

end
