(* ===== verification/Easy_Ctor.thy ===== *)
theory Easy_Ctor
  imports Easy_Register
begin

text \<open>
  The code that the compiler plugin writes into the program (\<open>pass/Easy.cpp\<close>, \<open>pass/Utils.cpp\<close>): the variables with
  the names, the bitcode and the mapping of local variables, the declaration of \<open>easy_register\<close> and the static
  constructor that calls it. \<open>Easy_Register\<close> takes the registrations for the result of the pass; here they
  are what the emitted constructor does when it runs in the loaded program.

  \<open>NewRef i\<close> is the \<open>i\<close>-th emitted variable, \<open>OrigRef g\<close> an object of the translation unit. The memory of the loaded program is
  the parameter \<open>byte_mem\<close> for bytes and \<open>ptr_mem\<close> for pointers, \<open>new_at\<close> the addresses of the emitted variables; \<open>legal_int\<close> is
  the width of the largest legal integer of the target and \<open>size_param\<close> the width of the last parameter of an
  \<open>easy_register\<close> that the unit already has. Strings and mappings are read with fuel.
\<close>

subsection \<open>What is emitted\<close>

datatype gref = OrigRef nat | NewRef nat

datatype ginit = StringInit "byte list" | MappingInit "(gref \<times> gref) option list"

datatype ctor_operand = CastOp gref | SizeOp nat

record ctor =
  ctor_name :: string
  ctor_priority :: nat
  ctor_calls :: "ctor_operand list list"

record emission =
  em_globals :: "(string \<times> ginit) list"
  em_declared :: "string list"
  em_ctors :: "ctor list"

record ctor_env =
  legal_int :: "nat option"
  size_param :: "nat \<Rightarrow> nat"

definition char_byte :: "char \<Rightarrow> byte" where
  "char_byte c = word_of_nat (of_char c)"

definition byte_char :: "byte \<Rightarrow> char" where
  "byte_char b = char_of (unat b)"

definition new_global :: "string \<Rightarrow> ginit \<Rightarrow> emission \<Rightarrow> gref \<times> emission" where
  "new_global Name Init Em = (NewRef (length (em_globals Em)), Em\<lparr>em_globals := em_globals Em @ [(Name, Init)]\<rparr>)"

definition getStringGlobal :: "string \<Rightarrow> emission \<Rightarrow> gref \<times> emission" where
  "getStringGlobal Name = new_global (Name @ ''_name'') (StringInit (map char_byte Name @ [0]))"

fun emit_entries :: "static_module \<Rightarrow> nat list \<Rightarrow> emission \<Rightarrow> (gref \<times> gref) option list \<times> emission" where
  "emit_entries M [] Em = ([None], Em)"
| "emit_entries M (GV # Globals) Em =
     (case getStringGlobal (name_of M GV) Em of (Name, Em1) \<Rightarrow>
        (case emit_entries M Globals Em1 of (Entries, Em2) \<Rightarrow> (Some (Name, OrigRef GV) # Entries, Em2)))"

definition emit_mapping :: "static_module \<Rightarrow> nat list \<Rightarrow> emission \<Rightarrow> gref \<times> emission" where
  "emit_mapping M Globals Em =
     (case emit_entries M Globals Em of (Entries, Em1) \<Rightarrow> new_global ''global_mapping'' (MappingInit Entries) Em1)"

fun emit_bitcodes :: "static_module \<Rightarrow> (nat \<times> byte list) list \<Rightarrow> emission \<Rightarrow> gref list \<times> emission" where
  "emit_bitcodes M [] Em = ([], Em)"
| "emit_bitcodes M ((Obj, Bitcode) # Objs) Em =
     (case new_global (name_of M Obj @ ''_bitcode'') (StringInit Bitcode) Em of (B, Em1) \<Rightarrow>
        (case emit_bitcodes M Objs Em1 of (Bs, Em2) \<Rightarrow> (B # Bs, Em2)))"

definition declareRegisterBitcode :: "ctor_env \<Rightarrow> static_module \<Rightarrow> emission \<Rightarrow> (nat \<times> emission) result" where
  "declareRegisterBitcode CE M Em =
     (case find (\<lambda>(i, GO). ob_function GO \<and> ob_name GO = ''easy_register'') (gobjects M) of
        Some (i, GO) \<Rightarrow> Inr (size_param CE i, Em)
      | None \<Rightarrow>
          (case legal_int CE of
             None \<Rightarrow> Inl AssertionFailure
           | Some SizeT \<Rightarrow> Inr (SizeT, Em\<lparr>em_declared := em_declared Em @ [''easy_register'']\<rparr>)))"

definition GetCtor :: "string \<Rightarrow> nat \<Rightarrow> ctor_operand list list \<Rightarrow> emission \<Rightarrow> emission" where
  "GetCtor Name Priority Calls Em =
     Em\<lparr>em_ctors := em_ctors Em @ [\<lparr>ctor_name = Name, ctor_priority = Priority, ctor_calls = Calls\<rparr>]\<rparr>"

definition array_elements :: "emission \<Rightarrow> gref \<Rightarrow> nat result" where
  "array_elements Em B =
     (case B of
        NewRef i \<Rightarrow> (case map_option snd (if i < length (em_globals Em) then Some (em_globals Em ! i) else None) of
                    Some (StringInit bs) \<Rightarrow> Inr (length bs)
                  | _ \<Rightarrow> Inl UndefinedBehaviour)
      | OrigRef g \<Rightarrow> Inl UndefinedBehaviour)"

fun emit_calls ::
    "static_module \<Rightarrow> nat \<Rightarrow> gref \<Rightarrow> (nat \<times> gref) list \<Rightarrow> emission \<Rightarrow> (ctor_operand list list \<times> emission) result" where
  "emit_calls M SizeT GM [] Em = Inr ([], Em)"
| "emit_calls M SizeT GM ((Obj, B) # Objs) Em =
     (case getStringGlobal (name_of M Obj) Em of (Name, Em1) \<Rightarrow>
        bindR (array_elements Em1 B) (\<lambda>n.
        bindR (emit_calls M SizeT GM Objs Em1) (\<lambda>(Calls, Em2).
          Inr ([CastOp (OrigRef Obj), CastOp Name, CastOp GM, CastOp B, SizeOp (take_bit SizeT (n - 1))] # Calls, Em2))))"

definition emit_registration ::
    "ctor_env \<Rightarrow> static_module \<Rightarrow> nat list \<Rightarrow> byte list list \<Rightarrow> nat list \<Rightarrow> emission \<Rightarrow> emission result" where
  "emit_registration CE M Objs Bitcodes LocalVariables Em =
     (case emit_bitcodes M (zip Objs Bitcodes) Em of (Bitcode, Em1) \<Rightarrow>
        (case emit_mapping M LocalVariables Em1 of (GM, Em2) \<Rightarrow>
           bindR (declareRegisterBitcode CE M Em2) (\<lambda>(SizeT, Em3).
           bindR (emit_calls M SizeT GM (zip Objs Bitcode) Em3) (\<lambda>(Calls, Em4).
             Inr (GetCtor ''register_bitcode'' 65535 Calls Em4)))))"

definition no_emission :: emission where
  "no_emission = \<lparr>em_globals = [], em_declared = [], em_ctors = []\<rparr>"

definition RegisterBitcode_emission ::
    "nat \<Rightarrow> plugin_env \<Rightarrow> ctor_env \<Rightarrow> static_module \<Rightarrow> (bool \<times> emission) result option" where
  "RegisterBitcode_emission n P CE M =
     Option.bind (collectObjectsToJIT n P M) (\<lambda>(ObjectsToJIT, M1).
       if ObjectsToJIT = [] then Some (Inr (False, no_emission))
       else let LocalVariables = collectLocalGlobals M1;
                M2 = nameGlobals P ''unnamed_local_global'' LocalVariables M1
            in map_option (\<lambda>r. bindR r (\<lambda>Bitcode.
                 bindR (emit_registration CE M2 ObjectsToJIT Bitcode LocalVariables no_emission) (\<lambda>Em. Inr (True, Em))))
                 (embedBitcodes n P M2 ObjectsToJIT))"

subsection \<open>Running the constructor\<close>

record program =
  new_at :: "nat \<Rightarrow> ptr"
  byte_mem :: "ptr \<Rightarrow> byte option"
  ptr_mem :: "ptr \<Rightarrow> ptr option"

fun ref_address :: "plugin_env \<Rightarrow> program \<Rightarrow> gref \<Rightarrow> ptr" where
  "ref_address P X (OrigRef g) = address_of P g"
| "ref_address P X (NewRef i) = new_at X i"

fun read_cstring :: "nat \<Rightarrow> program \<Rightarrow> ptr \<Rightarrow> string option" where
  "read_cstring 0 X p = None"
| "read_cstring (Suc n) X p =
     (case byte_mem X p of
        None \<Rightarrow> None
      | Some b \<Rightarrow> if b = 0 then Some [] else map_option (Cons (byte_char b)) (read_cstring n X (p + 1)))"

definition read_bytes :: "program \<Rightarrow> ptr \<Rightarrow> nat \<Rightarrow> byte list option" where
  "read_bytes X p n = those (map (\<lambda>k. byte_mem X (p + of_nat k)) [0..<n])"

fun read_mapping :: "nat \<Rightarrow> program \<Rightarrow> ptr \<Rightarrow> GlobalMapping list option" where
  "read_mapping 0 X p = None"
| "read_mapping (Suc n) X p =
     (case (ptr_mem X p, ptr_mem X (p + 8)) of
        (Some Name, Some Addr) \<Rightarrow>
          if Name = 0 then Some [\<lparr>gm_Name = None, gm_Address = Addr\<rparr>]
          else Option.bind (read_cstring n X Name) (\<lambda>s.
               map_option (Cons \<lparr>gm_Name = Some s, gm_Address = Addr\<rparr>) (read_mapping n X (p + 16)))
      | _ \<Rightarrow> None)"

fun run_call :: "nat \<Rightarrow> plugin_env \<Rightarrow> program \<Rightarrow> ctor_operand list \<Rightarrow> registration option" where
  "run_call n P X [CastOp Fun, CastOp Name, CastOp GM, CastOp Bitcode, SizeOp Size] =
     Option.bind (read_cstring n X (ref_address P X Name)) (\<lambda>s.
     Option.bind (read_mapping n X (ref_address P X GM)) (\<lambda>gm.
     Option.bind (read_bytes X (ref_address P X Bitcode) Size) (\<lambda>bs.
       Some (easy_register (ref_address P X Fun) s (Some gm) bs Size))))"
| "run_call n P X _ = None"

definition run_ctors :: "nat \<Rightarrow> plugin_env \<Rightarrow> program \<Rightarrow> emission \<Rightarrow> registration list option" where
  "run_ctors n P X Em = those (map (run_call n P X) (concat (map ctor_calls (em_ctors Em))))"

subsection \<open>The loaded program\<close>

definition c_string :: "string \<Rightarrow> byte list" where
  "c_string s = map char_byte s @ [0]"

definition bytes_at :: "program \<Rightarrow> ptr \<Rightarrow> byte list \<Rightarrow> bool" where
  "bytes_at X p bs \<longleftrightarrow> (\<forall>k < length bs. byte_mem X (p + of_nat k) = Some (bs ! k))"

fun entry_pointers :: "plugin_env \<Rightarrow> program \<Rightarrow> (gref \<times> gref) option \<Rightarrow> ptr \<times> ptr" where
  "entry_pointers P X None = (0, 0)"
| "entry_pointers P X (Some (Name, GV)) = (ref_address P X Name, ref_address P X GV)"

definition entries_at :: "plugin_env \<Rightarrow> program \<Rightarrow> ptr \<Rightarrow> (gref \<times> gref) option list \<Rightarrow> bool" where
  "entries_at P X p Es \<longleftrightarrow> (\<forall>k < length Es. ptr_mem X (p + 16 * of_nat k) = Some (fst (entry_pointers P X (Es ! k))) \<and>
     ptr_mem X (p + 16 * of_nat k + 8) = Some (snd (entry_pointers P X (Es ! k))))"

definition loaded :: "plugin_env \<Rightarrow> program \<Rightarrow> emission \<Rightarrow> bool" where
  "loaded P X Em \<longleftrightarrow> (\<forall>i < length (em_globals Em). new_at X i \<noteq> 0 \<and>
     (case snd (em_globals Em ! i) of
        StringInit bs \<Rightarrow> bytes_at X (new_at X i) bs
      | MappingInit Es \<Rightarrow> entries_at P X (new_at X i) Es))"

lemma byte_char_char_byte [simp]: "byte_char (char_byte c) = c"
proof -
  have "(of_char c :: nat) < 256" by (rule nat_of_char_less_256)
  then show ?thesis by (simp add: byte_char_def char_byte_def unat_of_nat)
qed

lemma char_byte_0: "char_byte c = 0 \<longleftrightarrow> c = CHR 0x00"
proof -
  have "char_byte (CHR 0x00) = 0" by (simp add: char_byte_def)
  then show ?thesis by (metis byte_char_char_byte)
qed

lemma bytes_at_Cons: "bytes_at X p (b # bs) \<longleftrightarrow> byte_mem X p = Some b \<and> bytes_at X (p + 1) bs"
  by (auto simp: bytes_at_def All_less_Suc2 algebra_simps)

lemma bytes_at_append: "bytes_at X p (bs @ cs) \<Longrightarrow> bytes_at X p bs"
  by (auto simp: bytes_at_def nth_append)

lemma entries_at_Cons:
  "entries_at P X p (e # Es) \<longleftrightarrow> ptr_mem X p = Some (fst (entry_pointers P X e)) \<and>
     ptr_mem X (p + 8) = Some (snd (entry_pointers P X e)) \<and> entries_at P X (p + 16) Es"
  by (auto simp: entries_at_def All_less_Suc2 algebra_simps)

lemma read_cstring_loaded:
  assumes "bytes_at X p (c_string s)" and "CHR 0x00 \<notin> set s" and "length s < n"
  shows "read_cstring n X p = Some s"
  using assms
proof (induction s arbitrary: p n)
  case Nil
  then show ?case by (cases n) (simp_all add: c_string_def bytes_at_Cons)
next
  case (Cons c s)
  then show ?case by (cases n) (auto simp: c_string_def bytes_at_Cons char_byte_0)
qed

lemma read_bytes_loaded: "bytes_at X p bs \<Longrightarrow> read_bytes X p (length bs) = Some bs"
proof -
  assume "bytes_at X p bs"
  then have "map (\<lambda>k. byte_mem X (p + of_nat k)) [0..<length bs] = map Some bs"
    by (intro nth_equalityI) (simp_all add: bytes_at_def)
  moreover have "those (map Some bs) = Some bs" by (induction bs) simp_all
  ultimately show ?thesis by (simp add: read_bytes_def)
qed

subsection \<open>What the emitted variables hold\<close>

definition holds :: "emission \<Rightarrow> gref \<Rightarrow> ginit \<Rightarrow> bool" where
  "holds Em r Init \<longleftrightarrow> (\<exists>i. r = NewRef i \<and> i < length (em_globals Em) \<and> snd (em_globals Em ! i) = Init)"

definition em_extends :: "emission \<Rightarrow> emission \<Rightarrow> bool" where
  "em_extends Em Em' \<longleftrightarrow> (\<exists>new. em_globals Em' = em_globals Em @ new) \<and> em_ctors Em' = em_ctors Em"

lemma em_extends_refl [simp]: "em_extends Em Em"
  by (simp add: em_extends_def)

lemma em_extends_trans: "em_extends Em Em' \<Longrightarrow> em_extends Em' Em'' \<Longrightarrow> em_extends Em Em''"
  by (auto simp: em_extends_def)

lemma holds_extends: "holds Em r Init \<Longrightarrow> em_extends Em Em' \<Longrightarrow> holds Em' r Init"
  by (auto simp: holds_def em_extends_def nth_append)

lemma new_global_holds: "new_global N Init Em = (r, Em') \<Longrightarrow> holds Em' r Init \<and> em_extends Em Em'"
  by (auto simp: new_global_def holds_def em_extends_def)

lemma getStringGlobal_holds:
  "getStringGlobal N Em = (r, Em') \<Longrightarrow> holds Em' r (StringInit (c_string N)) \<and> em_extends Em Em'"
  unfolding getStringGlobal_def c_string_def by (rule new_global_holds)

lemma emit_entries_holds:
  assumes "emit_entries M Globals Em = (Es, Em')"
  shows "em_extends Em Em' \<and> (\<exists>names. Es = map2 (\<lambda>r GV. Some (r, OrigRef GV)) names Globals @ [None] \<and>
    list_all2 (\<lambda>r GV. holds Em' r (StringInit (c_string (name_of M GV)))) names Globals)"
  using assms
proof (induction Globals arbitrary: Em Es Em')
  case (Cons GV Globals)
  obtain r Em1 where r: "getStringGlobal (name_of M GV) Em = (r, Em1)" by fastforce
  obtain Es1 Em2 where e: "emit_entries M Globals Em1 = (Es1, Em2)" by fastforce
  from Cons.IH [OF e] obtain names where names: "em_extends Em1 Em2"
      "Es1 = map2 (\<lambda>r GV. Some (r, OrigRef GV)) names Globals @ [None]"
      "list_all2 (\<lambda>r GV. holds Em2 r (StringInit (c_string (name_of M GV)))) names Globals" by blast
  note first = getStringGlobal_holds [OF r]
  with names r e Cons.prems show ?case
    by (auto intro!: exI [of _ "r # names"] intro: holds_extends em_extends_trans)
qed auto

lemma emit_bitcodes_holds:
  assumes "emit_bitcodes M Objs Em = (Bs, Em')"
  shows "em_extends Em Em' \<and> list_all2 (\<lambda>B (Obj, b). holds Em' B (StringInit b)) Bs Objs"
  using assms
proof (induction Objs arbitrary: Em Bs Em')
  case (Cons e Objs)
  obtain Obj b where e: "e = (Obj, b)" by (cases e)
  obtain B Em1 where B: "new_global (name_of M Obj @ ''_bitcode'') (StringInit b) Em = (B, Em1)" by fastforce
  obtain Bs1 Em2 where r: "emit_bitcodes M Objs Em1 = (Bs1, Em2)" by fastforce
  from Cons.IH [OF r] new_global_holds [OF B] B r e Cons.prems show ?case
    by (auto intro: holds_extends em_extends_trans)
qed auto

definition call_for :: "static_module \<Rightarrow> nat \<Rightarrow> gref \<Rightarrow> emission \<Rightarrow> nat \<times> byte list \<Rightarrow> ctor_operand list \<Rightarrow> bool" where
  "call_for M w GM Em e ops \<longleftrightarrow> (\<exists>Name B.
     ops = [CastOp (OrigRef (fst e)), CastOp Name, CastOp GM, CastOp B, SizeOp (take_bit w (length (snd e)))] \<and>
     holds Em Name (StringInit (c_string (name_of M (fst e)))) \<and> holds Em B (StringInit (snd e @ [0])))"

lemma call_for_extends: "call_for M w GM Em e ops \<Longrightarrow> em_extends Em Em' \<Longrightarrow> call_for M w GM Em' e ops"
  unfolding call_for_def using holds_extends by blast

lemma emit_calls_holds:
  assumes "list_all2 (\<lambda>B b. holds Em B (StringInit (b @ [0]))) Bs bs" and "length Objs = length Bs"
  shows "\<exists>Calls Em'. emit_calls M w GM (zip Objs Bs) Em = Inr (Calls, Em') \<and> em_extends Em Em' \<and>
    list_all2 (call_for M w GM Em') (zip Objs bs) Calls"
  using assms
proof (induction Bs arbitrary: bs Objs Em)
  case (Cons B Bs)
  from Cons.prems(1) obtain b bs' where bs: "bs = b # bs'" "holds Em B (StringInit (b @ [0]))"
      "list_all2 (\<lambda>B b. holds Em B (StringInit (b @ [0]))) Bs bs'" by (auto simp: list_all2_Cons1)
  from Cons.prems(2) obtain Obj Objs' where Objs: "Objs = Obj # Objs'" "length Objs' = length Bs" by (cases Objs) auto
  obtain r Em1 where r: "getStringGlobal (name_of M Obj) Em = (r, Em1)" by fastforce
  note first = getStringGlobal_holds [OF r]
  then have B: "holds Em1 B (StringInit (b @ [0]))" using bs(2) holds_extends by blast
  have "list_all2 (\<lambda>B b. holds Em1 B (StringInit (b @ [0]))) Bs bs'"
    using bs(3) first by (auto elim!: list.rel_mono_strong intro: holds_extends)
  from Cons.IH [OF this Objs(2)] obtain Calls Em' where rest: "emit_calls M w GM (zip Objs' Bs) Em1 = Inr (Calls, Em')"
      "em_extends Em1 Em'" "list_all2 (call_for M w GM Em') (zip Objs' bs') Calls" by blast
  have "array_elements Em1 B = Inr (Suc (length b))" using B by (auto simp: holds_def array_elements_def)
  moreover have "call_for M w GM Em' (Obj, b) [CastOp (OrigRef Obj), CastOp r, CastOp GM, CastOp B, SizeOp (take_bit w (length b))]"
    using first B rest(2) holds_extends unfolding call_for_def by auto
  ultimately show ?case using r rest first Objs bs(1) by (auto intro: em_extends_trans)
qed auto

subsection \<open>What the constructor registers\<close>

lemma holds_string:
  "loaded P X Em \<Longrightarrow> holds Em r (StringInit bs) \<Longrightarrow> bytes_at X (ref_address P X r) bs \<and> ref_address P X r \<noteq> 0"
  by (force simp: loaded_def holds_def)

lemma holds_mapping: "loaded P X Em \<Longrightarrow> holds Em r (MappingInit Es) \<Longrightarrow> entries_at P X (ref_address P X r) Es"
  by (force simp: loaded_def holds_def)

lemma read_mapping_loaded:
  assumes "entries_at P X p (map2 (\<lambda>r GV. Some (r, OrigRef GV)) names Globals @ [None])"
    and "list_all2 (\<lambda>r GV. bytes_at X (ref_address P X r) (c_string (name_of M GV)) \<and> ref_address P X r \<noteq> 0) names Globals"
    and "\<forall>GV \<in> set Globals. CHR 0x00 \<notin> set (name_of M GV) \<and> length (name_of M GV) + length Globals < n"
    and "length Globals < n"
  shows "read_mapping n X p = Some (getGlobalMapping P M Globals)"
  using assms
proof (induction Globals arbitrary: names n p)
  case Nil
  then show ?case by (cases n) (auto simp: entries_at_Cons getGlobalMapping_def)
next
  case (Cons GV Globals)
  from Cons.prems(2) obtain r names' where names: "names = r # names'"
      "bytes_at X (ref_address P X r) (c_string (name_of M GV))" "ref_address P X r \<noteq> 0"
      "list_all2 (\<lambda>r GV. bytes_at X (ref_address P X r) (c_string (name_of M GV)) \<and> ref_address P X r \<noteq> 0) names' Globals"
    by (auto simp: list_all2_Cons2)
  obtain m where m: "n = Suc m" using Cons.prems(4) by (cases n) auto
  have "read_cstring m X (ref_address P X r) = Some (name_of M GV)"
    using read_cstring_loaded [OF names(2)] Cons.prems(3) m by simp
  moreover have "read_mapping m X (p + 16) = Some (getGlobalMapping P M Globals)"
    using Cons.prems names(4) m by (intro Cons.IH [of _ names']) (simp_all add: names(1) entries_at_Cons)
  ultimately show ?case
    using Cons.prems(1) names(3) m by (simp add: names(1) entries_at_Cons getGlobalMapping_def)
qed

fun exact_bytes :: "registration \<Rightarrow> registration" where
  "exact_bytes (easy_register p n g b l) = easy_register p n g (take l b) l"
| "exact_bytes (easy_register_layout lid N) = easy_register_layout lid N"

fun reg_size :: "registration \<Rightarrow> nat" where
  "reg_size (easy_register p n g b l) = l"
| "reg_size (easy_register_layout lid N) = 0"

lemma exact_bytes_lookup:
  assumes "\<forall>c \<in> set calls. \<forall>p n g b l. c = easy_register p n g b l \<longrightarrow> l \<le> length b"
  shows "getNameAndGlobalMapping (run_registrations (map exact_bytes calls) TheTracker) p =
      getNameAndGlobalMapping (run_registrations calls TheTracker) p \<and>
    getModule parse (run_registrations (map exact_bytes calls) TheTracker) p =
      getModule parse (run_registrations calls TheTracker) p"
proof -
  let ?exact = "\<lambda>i. i\<lparr>fi_Bitcode := take (fi_BitcodeLen i) (fi_Bitcode i)\<rparr>"
  have "um_find (=) p (Functions (run_registrations (map exact_bytes calls) BT')) =
        map_option ?exact (um_find (=) p (Functions (run_registrations calls BT))) \<and>
      (\<forall>i. um_find (=) p (Functions (run_registrations calls BT)) = Some i \<longrightarrow> fi_BitcodeLen i \<le> length (fi_Bitcode i))"
    if "um_find (=) p (Functions BT') = map_option ?exact (um_find (=) p (Functions BT))"
      "\<forall>i. um_find (=) p (Functions BT) = Some i \<longrightarrow> fi_BitcodeLen i \<le> length (fi_Bitcode i)" for BT BT'
    using assms that
  proof (induction calls arbitrary: BT BT')
    case (Cons c calls)
    show ?case
      unfolding run_registrations_Cons list.map
      by (rule Cons.IH; (use Cons.prems in \<open>cases c\<close>))
        (auto simp: registerFunction_def registerLayout_def find_emplace_eq)
  qed (simp add: run_registrations_def)
  from this [of TheTracker TheTracker] show ?thesis
    by (auto simp: TheTracker_def getNameAndGlobalMapping_def getModule_def getModuleWithContext_def min_def
        split: option.splits)
qed

definition registration_of :: "plugin_env \<Rightarrow> static_module \<Rightarrow> GlobalMapping list \<Rightarrow> nat \<times> byte list \<Rightarrow> registration" where
  "registration_of P M Mapping e =
     easy_register (address_of P (fst e)) (name_of M (fst e)) (Some Mapping) (snd e @ [0]) (length (snd e))"

lemma registerBitcode_terminated:
  "registerBitcode P M Objs (map (\<lambda>b. b @ [0]) bs) Mapping = map (registration_of P M Mapping) (zip Objs bs)"
  by (simp add: registerBitcode_def zip_map2 registration_of_def split_def comp_def)

definition register_width :: "ctor_env \<Rightarrow> static_module \<Rightarrow> nat option" where
  "register_width CE M = (case find (\<lambda>(i, GO). ob_function GO \<and> ob_name GO = ''easy_register'') (gobjects M) of
     Some (i, GO) \<Rightarrow> Some (size_param CE i) | None \<Rightarrow> legal_int CE)"

lemma declare_width:
  "register_width CE M = Some w \<Longrightarrow> \<exists>Em'. declareRegisterBitcode CE M Em = Inr (w, Em') \<and> em_extends Em Em'"
  by (auto simp: register_width_def declareRegisterBitcode_def em_extends_def split: option.splits)

definition names_readable :: "nat \<Rightarrow> static_module \<Rightarrow> bool" where
  "names_readable k M \<longleftrightarrow> (\<forall>v. CHR 0x00 \<notin> set (name_of M v) \<and> length (name_of M v) + length (collectLocalGlobals M) < k)"

lemma run_call_for:
  assumes "call_for M w GM Em e ops" and "loaded P X Em" and "read_mapping k X (ref_address P X GM) = Some Mapping"
    and "names_readable k M" and "length (snd e) < 2 ^ w"
  shows "run_call k P X ops = Some (exact_bytes (registration_of P M Mapping e))"
proof -
  from assms(1) obtain Name B where c:
      "ops = [CastOp (OrigRef (fst e)), CastOp Name, CastOp GM, CastOp B, SizeOp (take_bit w (length (snd e)))]"
      "holds Em Name (StringInit (c_string (name_of M (fst e))))" "holds Em B (StringInit (snd e @ [0]))"
    unfolding call_for_def by blast
  have "read_cstring k X (ref_address P X Name) = Some (name_of M (fst e))"
  proof (rule read_cstring_loaded)
    show "bytes_at X (ref_address P X Name) (c_string (name_of M (fst e)))" using holds_string [OF assms(2) c(2)] ..
    have *: "CHR 0x00 \<notin> set (name_of M (fst e)) \<and> length (name_of M (fst e)) + length (collectLocalGlobals M) < k"
      using assms(4) by (simp add: names_readable_def)
    then show "CHR 0x00 \<notin> set (name_of M (fst e))" "length (name_of M (fst e)) < k" by simp_all
  qed
  moreover have "read_bytes X (ref_address P X B) (length (snd e)) = Some (snd e)"
    using holds_string [OF assms(2) c(3)] bytes_at_append read_bytes_loaded by blast
  moreover have "take_bit w (length (snd e)) = length (snd e)" using assms(5) by (simp add: take_bit_nat_eq_self)
  ultimately show ?thesis using assms(3) c(1) by (simp add: registration_of_def)
qed

lemma seqO_Some:
  "seqO (map f xs) = Some (Inr ys) \<Longrightarrow> list_all2 (\<lambda>x y. f x = Some (Inr y)) xs ys"
proof (induction xs arbitrary: ys)
  case (Cons x xs)
  from Cons.prems obtain r where r: "f x = Some r" by (cases "f x") auto
  with Cons.prems obtain y where y: "r = Inr y" by (cases r) auto
  with r Cons.prems obtain rs where "seqO (map f xs) = Some rs" "bindR rs (\<lambda>ys. Inr (y # ys)) = Inr ys" by auto
  with Cons.IH r y show ?case by (auto simp: bindR_eq_Inr)
qed simp

lemma embedBitcodes_terminated:
  assumes "embedBitcodes n P M Objs = Some (Inr Bitcodes)"
  shows "\<exists>bs. Bitcodes = map (\<lambda>b. b @ [0]) bs \<and> length bs = length Objs"
proof -
  have all: "list_all2 (\<lambda>Obj b. embedBitcode n P M Obj = Some (Inr b)) Objs Bitcodes"
    using assms seqO_Some unfolding embedBitcodes_def by blast
  moreover have "\<exists>b'. b = b' @ [0]" if "embedBitcode n P M Obj = Some (Inr b)" for Obj b
    using that by (auto simp: embedBitcode_def writeModuleToGlobal_def bindR_eq_Inr split: if_splits)
  ultimately have "\<forall>b \<in> set Bitcodes. b = butlast b @ [0]"
    by (fastforce simp: list_all2_conv_all_nth in_set_conv_nth)
  then have "Bitcodes = map (\<lambda>b. b @ [0]) (map butlast Bitcodes)" by (simp add: map_idI)
  then show ?thesis using list_all2_lengthD [OF all] by (intro exI [of _ "map butlast Bitcodes"]) simp
qed

lemma those_map_Some: "list_all2 (\<lambda>x y. f y = Some (g x)) xs ys \<Longrightarrow> those (map f ys) = Some (map g xs)"
  by (induction xs ys rule: list_all2_induct) simp_all

lemma emit_registration_runs:
  assumes len: "length bs = length Objs" and w: "register_width CE M = Some w"
    and readable: "names_readable k M" and size: "\<forall>b \<in> set bs. length b < 2 ^ w"
    and locals: "Locals = collectLocalGlobals M"
  shows "\<exists>Em. emit_registration CE M Objs (map (\<lambda>b. b @ [0]) bs) Locals no_emission = Inr Em \<and>
    (\<exists>Calls. em_ctors Em = [\<lparr>ctor_name = ''register_bitcode'', ctor_priority = 65535, ctor_calls = Calls\<rparr>]) \<and>
    (\<forall>X. loaded P X Em \<longrightarrow> run_ctors k P X Em =
      Some (map (\<lambda>e. exact_bytes (registration_of P M (getGlobalMapping P M Locals) e)) (zip Objs bs)))"
proof -
  let ?Objs = "zip Objs (map (\<lambda>b. b @ [0]) bs)" and ?gm = "getGlobalMapping P M Locals"
  obtain Bs Em1 where B: "emit_bitcodes M ?Objs no_emission = (Bs, Em1)" by fastforce
  obtain Es Em1' where E: "emit_entries M Locals Em1 = (Es, Em1')" by fastforce
  obtain GM Em2 where G: "new_global ''global_mapping'' (MappingInit Es) Em1' = (GM, Em2)" by fastforce
  obtain Em3 where D: "declareRegisterBitcode CE M Em2 = Inr (w, Em3)" "em_extends Em2 Em3"
    using declare_width [OF w] by blast
  note b = emit_bitcodes_holds [OF B] and e = emit_entries_holds [OF E] and g = new_global_holds [OF G]
  have upto: "em_extends Em1 Em3" using e g D(2) em_extends_trans by blast
  have lenB: "length Bs = length Objs" using b list_all2_lengthD len by fastforce
  then have "list_all2 (\<lambda>B b. holds Em3 B (StringInit (b @ [0]))) Bs bs"
    using b upto len by (auto simp: list_all2_conv_all_nth intro: holds_extends)
  from emit_calls_holds [OF this lenB [symmetric], of M w GM] obtain Calls Em4 where C:
      "emit_calls M w GM (zip Objs Bs) Em3 = Inr (Calls, Em4)" "em_extends Em3 Em4"
      "list_all2 (call_for M w GM Em4) (zip Objs bs) Calls" by blast
  let ?Em = "GetCtor ''register_bitcode'' 65535 Calls Em4"
  have emit: "emit_registration CE M Objs (map (\<lambda>b. b @ [0]) bs) Locals no_emission = Inr ?Em"
    using B E G D C by (simp add: emit_registration_def emit_mapping_def)
  have ctors: "em_ctors ?Em = [\<lparr>ctor_name = ''register_bitcode'', ctor_priority = 65535, ctor_calls = Calls\<rparr>]"
    using b upto C(2) by (simp add: GetCtor_def em_extends_def no_emission_def)
  have "run_ctors k P X ?Em = Some (map (\<lambda>e. exact_bytes (registration_of P M ?gm e)) (zip Objs bs))"
    if X: "loaded P X ?Em" for X
  proof -
    have X4: "loaded P X Em4" using X by (simp add: loaded_def GetCtor_def)
    have ext: "em_extends Em1' Em4" "em_extends Em2 Em4" using g D(2) C(2) em_extends_trans by blast+
    from e obtain names where names: "Es = map2 (\<lambda>r GV. Some (r, OrigRef GV)) names Locals @ [None]"
        "list_all2 (\<lambda>r GV. holds Em1' r (StringInit (c_string (name_of M GV)))) names Locals" by blast
    have "read_mapping k X (ref_address P X GM) = Some ?gm"
    proof (rule read_mapping_loaded)
      have "holds Em4 GM (MappingInit Es)" using g ext(2) holds_extends by blast
      from holds_mapping [OF X4 this]
      show "entries_at P X (ref_address P X GM) (map2 (\<lambda>r GV. Some (r, OrigRef GV)) names Locals @ [None])"
        by (simp add: names(1))
      show "list_all2 (\<lambda>r GV. bytes_at X (ref_address P X r) (c_string (name_of M GV)) \<and> ref_address P X r \<noteq> 0) names Locals"
        using names(2) holds_string [OF X4] holds_extends [OF _ ext(1)] by (auto elim!: list.rel_mono_strong)
      show "\<forall>GV \<in> set Locals. CHR 0x00 \<notin> set (name_of M GV) \<and> length (name_of M GV) + length Locals < k"
        "length Locals < k"
        using readable locals by (fastforce simp: names_readable_def)+
    qed
    note run = run_call_for [OF _ X4 this readable]
    have "list_all2 (\<lambda>e ops. run_call k P X ops = Some (exact_bytes (registration_of P M ?gm e))) (zip Objs bs) Calls"
      using C(3)
    proof (rule list.rel_mono_strong)
      fix e ops assume e: "e \<in> set (zip Objs bs)" "call_for M w GM Em4 e ops"
      then have "length (snd e) < 2 ^ w" using size by (metis prod.collapse set_zip_rightD)
      with run [OF e(2)] show "run_call k P X ops = Some (exact_bytes (registration_of P M ?gm e))" .
    qed
    from those_map_Some [OF this] show ?thesis by (simp add: run_ctors_def ctors)
  qed
  with emit ctors show ?thesis by blast
qed

text \<open>
  C9. The static constructor does what the pass means: whenever the plugin's pass succeeds with a list of
  registrations, it emits one constructor of lowest priority, and in every program in which the emitted variables are loaded
  this constructor, run once, reads each name up to its terminating zero, the mapping of the local variables up to its null entry and
  exactly the bytes of each bitcode, and calls \<open>easy_register\<close> with the registrations of the pass, in order; the
  tracker answers as for these. It is assumed that no name holds a zero byte, that the sizes fit
  the integer type of the declaration, and that the target has such a type.
\<close>
theorem constructor_registers:
  assumes "RegisterBitcode_runOnModule n P M = Some (Inr (True, calls, M'))" and "register_width CE M' = Some w"
    and "names_readable k M'" and "\<forall>c \<in> set calls. reg_size c < 2 ^ w"
  shows "\<exists>Em. RegisterBitcode_emission n P CE M = Some (Inr (True, Em)) \<and>
    map (\<lambda>c. (ctor_name c, ctor_priority c)) (em_ctors Em) = [(''register_bitcode'', 65535)] \<and>
    (\<forall>X. loaded P X Em \<longrightarrow> (\<exists>made. run_ctors k P X Em = Some made \<and> made = map exact_bytes calls \<and>
       (\<forall>p parse. getNameAndGlobalMapping (run_registrations made TheTracker) p =
            getNameAndGlobalMapping (run_registrations calls TheTracker) p \<and>
          getModule parse (run_registrations made TheTracker) p = getModule parse (run_registrations calls TheTracker) p)))"
proof -
  from assms(1) obtain Objs M1 Bitcodes where run: "collectObjectsToJIT n P M = Some (Objs, M1)" "Objs \<noteq> []"
      "M' = nameGlobals P ''unnamed_local_global'' (collectLocalGlobals M1) M1"
      "embedBitcodes n P M' Objs = Some (Inr Bitcodes)"
      "calls = registerBitcode P M' Objs Bitcodes (getGlobalMapping P M' (collectLocalGlobals M1))"
    by (auto simp: RegisterBitcode_runOnModule_def bind_eq_Some_conv bindR_eq_Inr Let_def split: if_splits prod.splits)
  have locals: "collectLocalGlobals M1 = collectLocalGlobals M'" by (simp add: run(3))
  obtain bs where bs: "Bitcodes = map (\<lambda>b. b @ [0]) bs" "length bs = length Objs"
    using embedBitcodes_terminated [OF run(4)] by blast
  let ?reg = "registration_of P M' (getGlobalMapping P M' (collectLocalGlobals M1))"
  have calls: "calls = map ?reg (zip Objs bs)" by (simp add: run(5) bs(1) registerBitcode_terminated)
  have size: "\<forall>b \<in> set bs. length b < 2 ^ w"
  proof
    fix b assume "b \<in> set bs"
    then obtain i where i: "i < length bs" "bs ! i = b" by (auto simp: in_set_conv_nth)
    then have "?reg (Objs ! i, b) \<in> set calls" using bs(2) by (force simp: calls in_set_conv_nth)
    with assms(4) show "length b < 2 ^ w" by (fastforce simp: registration_of_def)
  qed
  from emit_registration_runs [OF bs(2) assms(2,3) size locals] obtain Em Calls where Em:
      "emit_registration CE M' Objs (map (\<lambda>b. b @ [0]) bs) (collectLocalGlobals M1) no_emission = Inr Em"
      "em_ctors Em = [\<lparr>ctor_name = ''register_bitcode'', ctor_priority = 65535, ctor_calls = Calls\<rparr>]"
      "\<And>X. loaded P X Em \<Longrightarrow> run_ctors k P X Em = Some (map (\<lambda>e. exact_bytes (?reg e)) (zip Objs bs))" by blast
  have "RegisterBitcode_emission n P CE M = Some (Inr (True, Em))"
    using run(1,2,4) Em(1) by (simp add: RegisterBitcode_emission_def run(3) [symmetric] bs(1) Let_def)
  moreover have "map (\<lambda>e. exact_bytes (?reg e)) (zip Objs bs) = map exact_bytes calls" by (simp add: calls)
  moreover have terminated: "\<forall>c \<in> set calls. \<forall>p n g b l. c = easy_register p n g b l \<longrightarrow> l \<le> length b"
    by (auto simp: calls registration_of_def)
  note lookup = exact_bytes_lookup [OF terminated]
  ultimately show ?thesis using Em(2,3) by (intro exI [of _ Em]) (simp add: lookup)
qed

subsection \<open>A program in which the variables are loaded\<close>

text \<open>Every emission of moderate size has one: each variable gets 2 ^ 32 bytes of its own.\<close>

definition init_size :: "ginit \<Rightarrow> nat" where
  "init_size Init = (case Init of StringInit bs \<Rightarrow> length bs | MappingInit Es \<Rightarrow> 16 * length Es)"

definition place :: "plugin_env \<Rightarrow> emission \<Rightarrow> program" where
  "place P Em = (let at = \<lambda>i. of_nat (2 ^ 32 * Suc i);
       init = \<lambda>a. (let i = unat a div 2 ^ 32 - 1 in if i < length (em_globals Em) then Some (snd (em_globals Em ! i)) else None);
       off = \<lambda>a :: ptr. unat a mod 2 ^ 32;
       X = \<lparr>new_at = at, byte_mem = (\<lambda>a. None), ptr_mem = (\<lambda>a. None)\<rparr>
     in X\<lparr>byte_mem := (\<lambda>a. case init a of Some (StringInit bs) \<Rightarrow> if off a < length bs then Some (bs ! off a) else None | _ \<Rightarrow> None),
          ptr_mem := (\<lambda>a. case init a of
              Some (MappingInit Es) \<Rightarrow> if off a div 16 < length Es
                then Some ((if off a mod 16 = 0 then fst else snd) (entry_pointers P X (Es ! (off a div 16)))) else None
            | _ \<Rightarrow> None)\<rparr>)"

lemma place_address:
  assumes "i < 2 ^ 31" and "k < 2 ^ 32"
  shows "unat (of_nat (2 ^ 32 * Suc i) + of_nat k :: ptr) = 2 ^ 32 * Suc i + k"
proof -
  have "2 ^ 32 * Suc i + k < 2 ^ 64" using assms by simp
  then have "unat (of_nat (2 ^ 32 * Suc i + k) :: ptr) = 2 ^ 32 * Suc i + k"
    by (subst unat_of_nat) simp
  then show ?thesis by (simp only: of_nat_add)
qed

lemma entry_pointers_new_at:
  "new_at X = new_at X' \<Longrightarrow> entry_pointers P X e = entry_pointers P X' e"
proof -
  assume "new_at X = new_at X'"
  then have "ref_address P X r = ref_address P X' r" for r by (cases r) simp_all
  then show ?thesis by (cases "(P, X, e)" rule: entry_pointers.cases) simp_all
qed

lemma block_parts: "(k :: nat) < b \<Longrightarrow> (b * Suc i + k) div b - 1 = i \<and> (b * Suc i + k) mod b = k"
  by (subst (1 2) add.commute, subst (1 2) mult.commute, subst div_mult_self1, simp, subst mod_mult_self1, simp)

lemma place_parts:
  assumes "i < 2 ^ 31" and "k < 2 ^ 32"
  shows "unat (of_nat (2 ^ 32 * Suc i) + of_nat k :: ptr) div 2 ^ 32 - 1 = i \<and>
    unat (of_nat (2 ^ 32 * Suc i) + of_nat k :: ptr) mod 2 ^ 32 = k"
  unfolding place_address [OF assms] by (rule block_parts [OF assms(2)])

lemma place_loaded:
  assumes small: "length (em_globals Em) < 2 ^ 31" "\<forall>e \<in> set (em_globals Em). init_size (snd e) < 2 ^ 32"
  shows "loaded P (place P Em) Em"
  unfolding loaded_def
proof (intro allI impI conjI)
  fix i assume i: "i < length (em_globals Em)"
  then have i31: "i < 2 ^ 31" using small(1) by simp
  have at: "new_at (place P Em) i = of_nat (2 ^ 32 * Suc i)" by (simp add: place_def Let_def)
  have size: "init_size (snd (em_globals Em ! i)) < 2 ^ 32" using small(2) i by simp
  have "unat (of_nat (2 ^ 32 * Suc i) :: ptr) \<noteq> 0" using place_address [OF i31, of 0] by simp
  then show "new_at (place P Em) i \<noteq> 0" unfolding at by force
  show "case snd (em_globals Em ! i) of
        StringInit bs \<Rightarrow> bytes_at (place P Em) (new_at (place P Em) i) bs
      | MappingInit Es \<Rightarrow> entries_at P (place P Em) (new_at (place P Em) i) Es"
  proof (cases "snd (em_globals Em ! i)")
    case (StringInit bs)
    have "byte_mem (place P Em) (of_nat (2 ^ 32 * Suc i) + of_nat k) = Some (bs ! k)" if k: "k < length bs" for k
    proof -
      have "k < 2 ^ 32" using k size StringInit by (simp add: init_size_def)
      from place_parts [OF i31 this] show ?thesis using i k StringInit by (simp add: place_def Let_def)
    qed
    then show ?thesis using StringInit by (simp add: bytes_at_def at)
  next
    case (MappingInit Es)
    have entry: "ptr_mem (place P Em) (of_nat (2 ^ 32 * Suc i) + of_nat (16 * k + d)) =
        Some ((if d = 0 then fst else snd) (entry_pointers P (place P Em) (Es ! k)))"
      if k: "k < length Es" and d: "d = 0 \<or> d = 8" for k d
    proof -
      have "16 * k + d < 2 ^ 32" using k d size MappingInit by (auto simp: init_size_def)
      moreover have "(16 * k + d) div 16 = k" "(16 * k + d) mod 16 = d" using d by auto
      moreover have "entry_pointers P (place P Em) e =
          entry_pointers P \<lparr>new_at = \<lambda>i. of_nat (2 ^ 32 * Suc i), byte_mem = \<lambda>a. None, ptr_mem = \<lambda>a. None\<rparr> e" for e
        by (rule entry_pointers_new_at) (simp add: place_def Let_def)
      ultimately show ?thesis using place_parts [OF i31, of "16 * k + d"] i k MappingInit
        by (simp add: place_def Let_def)
    qed
    have "ptr_mem (place P Em) (of_nat (2 ^ 32 * Suc i) + 16 * of_nat k) = Some (fst (entry_pointers P (place P Em) (Es ! k)))"
      "ptr_mem (place P Em) (of_nat (2 ^ 32 * Suc i) + 16 * of_nat k + 8) = Some (snd (entry_pointers P (place P Em) (Es ! k)))"
      if "k < length Es" for k
      using entry [OF that, of 0] entry [OF that, of 8] by (simp_all add: algebra_simps)
    then show ?thesis using MappingInit by (simp add: entries_at_def at del: of_nat_mult of_nat_Suc)
  qed
qed

definition sample_ctor_env :: ctor_env where
  "sample_ctor_env = \<lparr>legal_int = Some 64, size_param = (\<lambda>i. 64)\<rparr>"

definition sample_locals :: "GlobalMapping list" where
  "sample_locals = [\<lparr>gm_Name = Some ''unnamed_local_global'', gm_Address = 32\<rparr>, \<lparr>gm_Name = None, gm_Address = 0\<rparr>]"

lemma sample_collected:
  "collectObjectsToJIT 13 sample_env sample_tu = Some ([0], unmarked sample_env sample_tu)"
  using enough_fuelD(1) [OF sample_unit_ok(1)] by (simp add: sample_plugin_objects)

lemma sample_plugin_module:
  "plugin_module sample_env sample_tu = sample_tu\<lparr>gobjects :=
     [(0, \<lparr>ob_name = ''kernel'', ob_function = True, ob_section = [], ob_declaration = False,
         ob_constant = False, ob_local = False\<rparr>),
      (1, \<lparr>ob_name = ''helper'', ob_function = True, ob_section = [], ob_declaration = False,
         ob_constant = False, ob_local = True\<rparr>),
      (2, \<lparr>ob_name = ''jit'', ob_function = True, ob_section = CI_SECTION, ob_declaration = True,
         ob_constant = False, ob_local = False\<rparr>),
      (3, \<lparr>ob_name = ''unnamed_local_global'', ob_function = False, ob_section = [], ob_declaration = False,
         ob_constant = False, ob_local = True\<rparr>)]\<rparr>"
proof -
  have "unmarked sample_env sample_tu = sample_tu\<lparr>gobjects := map (\<lambda>(i, GO).
      (i, if i = 0 then GO\<lparr>ob_section := []\<rparr> else GO)) (gobjects sample_tu)\<rparr>"
    unfolding unmarked_def by (rule update_objects_cong) (auto simp: sample_to_jit)
  moreover have "collectLocalGlobals sample_tu = [3]" by (simp add: collectLocalGlobals_def sample_tu_def)
  ultimately show ?thesis
    by (simp add: plugin_module_def nameGlobals_def name_global_def sample_env_def) (simp add: sample_tu_def)
qed

lemma sample_names:
  "name_of (plugin_module sample_env sample_tu) v = (if v = 0 then ''kernel'' else if v = 1 then ''helper''
     else if v = 2 then ''jit'' else if v = 3 then ''unnamed_local_global'' else [])"
  "collectLocalGlobals (plugin_module sample_env sample_tu) = [3]"
  "register_width sample_ctor_env (plugin_module sample_env sample_tu) = Some 64"
  unfolding sample_plugin_module
  by (simp_all add: name_of_def object_at_def collectLocalGlobals_def register_width_def sample_ctor_env_def)

lemma sample_named:
  "nameGlobals sample_env ''unnamed_local_global'' [3] (unmarked sample_env sample_tu) = plugin_module sample_env sample_tu"
  using sample_names(2) by (simp add: plugin_module_def)

lemma sample_bitcodes:
  "embedBitcodes 13 sample_env (plugin_module sample_env sample_tu) [0] = Some (Inr [[7, 9, 0]])"
proof -
  let ?M = "plugin_module sample_env sample_tu"
  obtain Funs where "getReferencedFromEntry 13 ?M 0 = Some Funs"
    using enough_fuelD(2) [OF sample_unit_ok(1)] by (auto simp: sample_plugin_objects)
  moreover have "\<forall>(i, GV) \<in> set (extraction_passes sample_env (Funs @ [0]) (set_entry_external 0 (CloneModule sample_env ?M))).
      \<not> unsupported_alias GV"
    using sample_unit_ok(3) calculation by (auto simp: no_aliases_def sample_plugin_objects)
  ultimately obtain E where "embedBitcode 13 sample_env ?M 0 = Some (Inr (bitcode_of sample_env E @ [0]))"
    using embedBitcode_total [of 13 ?M 0 Funs sample_env] by (auto simp: sample_names)
  moreover have "bitcode_of sample_env E = [7, 9]" by (simp add: sample_env_def)
  ultimately have "embedBitcode 13 sample_env ?M 0 = Some (Inr [7, 9, 0])" by simp
  then show ?thesis by (simp add: embedBitcodes_def)
qed

definition sample_calls :: "registration list" where
  "sample_calls = [easy_register 8 ''kernel'' (Some sample_locals) [7, 9, 0] 2]"

lemma sample_pass:
  "RegisterBitcode_runOnModule 13 sample_env sample_tu = Some (Inr (True, sample_calls, plugin_module sample_env sample_tu))"
proof -
  let ?M = "plugin_module sample_env sample_tu"
  have "getGlobalMapping sample_env ?M [3] = sample_locals"
    by (simp add: getGlobalMapping_def sample_locals_def sample_names) (simp add: sample_env_def)
  then have "registerBitcode sample_env ?M [0] [[7, 9, 0]] (getGlobalMapping sample_env ?M [3]) = sample_calls"
    by (simp add: registerBitcode_def sample_calls_def sample_names) (simp add: sample_env_def)
  then show ?thesis
    using sample_bitcodes sample_names(2)
    by (simp add: RegisterBitcode_runOnModule_def sample_collected Let_def sample_named)
qed

theorem constructor_registers_witness:
  "\<exists>Em. RegisterBitcode_emission 13 sample_env sample_ctor_env sample_tu = Some (Inr (True, Em)) \<and>
     loaded sample_env (place sample_env Em) Em \<and>
     run_ctors 30 sample_env (place sample_env Em) Em = Some [easy_register 8 ''kernel'' (Some sample_locals) [7, 9] 2]"
proof -
  let ?M = "plugin_module sample_env sample_tu"
  have "collectLocalGlobals sample_tu = [3]" using sample_names(2) by simp
  then have "names_readable 30 ?M" by (simp add: names_readable_def sample_names)
  moreover have "\<forall>c \<in> set sample_calls. reg_size c < 2 ^ 64" by (simp add: sample_calls_def)
  ultimately obtain Em where Em: "RegisterBitcode_emission 13 sample_env sample_ctor_env sample_tu = Some (Inr (True, Em))"
      "\<And>X. loaded sample_env X Em \<Longrightarrow> run_ctors 30 sample_env X Em = Some (map exact_bytes sample_calls)"
    using constructor_registers [OF sample_pass sample_names(3)] by metis
  have "emit_registration sample_ctor_env ?M [0] [[7, 9, 0]] [3] no_emission = Inr Em"
    using Em(1) sample_bitcodes sample_names(2)
    by (simp add: RegisterBitcode_emission_def sample_collected Let_def sample_named bindR_eq_Inr)
  then have sizes: "map (init_size \<circ> snd) (em_globals Em) = [3, 21, 32, 7]"
    by (auto simp: emit_registration_def emit_mapping_def new_global_def getStringGlobal_def declareRegisterBitcode_def
        sample_plugin_module name_of_def object_at_def sample_ctor_env_def array_elements_def GetCtor_def no_emission_def
        init_size_def)
  then have "length (map (init_size \<circ> snd) (em_globals Em)) = 4" by (simp only: sizes) simp
  moreover have "\<forall>n \<in> set (map (init_size \<circ> snd) (em_globals Em)). n < 2 ^ 32" by (simp only: sizes) simp
  ultimately have "length (em_globals Em) < 2 ^ 31" "\<forall>e \<in> set (em_globals Em). init_size (snd e) < 2 ^ 32" by simp_all
  from place_loaded [OF this, of sample_env] Em show ?thesis
    by (intro exI [of _ Em]) (simp add: sample_calls_def)
qed

end
