(* ===== verification/Easy_Layout.thy ===== *)
theory Easy_Layout
  imports Easy_Struct
begin

text \<open>
  The static pass of \<open>pass/Layout.cpp\<close>. For every class passed by value the front end has a function in the
  section \<open>layout\<close> that takes the address of an undefined function \<open>serialize_arg\<close>; the pass defines the
  latter, so that it copies its parameters into a buffer behind their total size, and registers its address
  with the number of parameters. The reader of such buffers is \<open>serialized_arg\<close> of \<open>Context.h\<close>.

  A function is its section, its parameters and its body; of the instructions of a layout function only
  the operands matter. A generated body is the list of the instructions the builder emits: buffer offsets are
  32-bit constants, as \<open>CreateConstGEP1_32\<close> makes them. A store whose pointer has another element type than
  the value is an error of LLVM and so undefined behaviour; so is \<open>arg_begin()\<close> of a function without
  parameters. \<open>run_serializer\<close> is the specification of the emitted instructions: what the generated function
  does to a fresh buffer when it is called.
\<close>

definition LAYOUT_SECTION :: string where "LAYOUT_SECTION = ''layout''"

datatype lay_operand = FunctionOp nat | BitCastOp lay_operand | OtherOp

record lay_inst =
  li_intrinsic :: bool
  li_operands :: "lay_operand list"

datatype ser_inst =
    SMalloc nat "64 word"
  | SStoreSize "32 word"
  | SStoreArg nat "32 word"
  | SStoreField "nat list" "32 word"
  | SRet

record lay_function =
  lf_name :: string
  lf_section :: string
  lf_params :: "llvm_type list"
  lf_byval :: bool
  lf_insts :: "lay_inst list option"
  lf_generated :: "ser_inst list option"

record lay_module =
  lm_funs :: "(nat \<times> lay_function) list"
  lm_next :: nat

subsection \<open>The pass\<close>

definition collectLayouts :: "lay_module \<Rightarrow> nat list" where
  "collectLayouts M = map fst (filter (\<lambda>(i, F). lf_section F = LAYOUT_SECTION) (lm_funs M))"

fun called_function :: "lay_operand \<Rightarrow> nat option" where
  "called_function (FunctionOp f) = Some f"
| "called_function (BitCastOp (FunctionOp f)) = Some f"
| "called_function _ = None"

fun first_function :: "lay_inst list \<Rightarrow> nat option" where
  "first_function [] = None"
| "first_function (I # Is) =
     (if li_intrinsic I then first_function Is
      else case List.map_filter called_function (li_operands I) of
             f # _ \<Rightarrow> Some f
           | [] \<Rightarrow> first_function Is)"

definition GetSerializeStruct :: "lay_function \<Rightarrow> nat result" where
  "GetSerializeStruct F =
     (case first_function (case lf_insts F of Some Is \<Rightarrow> Is | None \<Rightarrow> []) of
        Some f \<Rightarrow> Inr f
      | None \<Rightarrow> Inl AssertionFailure)"

definition DeclareMalloc :: "DataLayout \<Rightarrow> lay_module \<Rightarrow> nat \<times> lay_module" where
  "DeclareMalloc DL M =
     (case List.find (\<lambda>(i, F). lf_name F = ''malloc'') (lm_funs M) of
        Some (i, F) \<Rightarrow> (i, M)
      | None \<Rightarrow> (lm_next M,
          M\<lparr>lm_funs := lm_funs M @ [(lm_next M, \<lparr>lf_name = ''malloc'', lf_section = [], lf_params = [getIntPtrType DL],
              lf_byval = False, lf_insts = None, lf_generated = None\<rparr>)],
            lm_next := Suc (lm_next M)\<rparr>))"

definition GetStructSize :: "DataLayout \<Rightarrow> llvm_type list \<Rightarrow> nat" where
  "GetStructSize DL Ts = foldl (\<lambda>A T. A + getTypeStoreSize DL T) 0 Ts"

function (sequential) SerializeStruct ::
    "DataLayout \<Rightarrow> llvm_type \<Rightarrow> nat list \<Rightarrow> nat \<times> ser_inst list \<Rightarrow> (nat \<times> ser_inst list) result" where
  "SerializeStruct DL (StructTy Ts) GEPOffset st =
     foldR (\<lambda>(Arg, T) st. SerializeStruct DL T (GEPOffset @ [Arg]) st) (enumerate 0 Ts) st"
| "SerializeStruct DL T GEPOffset (Offset, B) =
     (if T \<noteq> IntegerTy 8 then Inl UndefinedBehaviour
      else Inr (Offset + getTypeStoreSize DL T, B @ [SStoreField GEPOffset (of_nat Offset)]))"
  by pat_completeness auto
termination
  by (relation "measure (\<lambda>(DL, T, G, st). size T)")
    (auto simp: in_set_enumerate_eq less_Suc_eq_le intro!: size_list_estimation' [OF nth_mem])

fun SerializeArguments :: "DataLayout \<Rightarrow> nat \<Rightarrow> nat \<Rightarrow> llvm_type list \<Rightarrow> ser_inst list" where
  "SerializeArguments DL Arg Offset [] = []"
| "SerializeArguments DL Arg Offset (T # Ts) =
     SStoreArg Arg (of_nat Offset) # SerializeArguments DL (Suc Arg) (Offset + getTypeStoreSize DL T) Ts"

definition serialize_body :: "DataLayout \<Rightarrow> nat \<Rightarrow> lay_function \<Rightarrow> ser_inst list result" where
  "serialize_body DL Malloc F =
     (let I32Size = getTypeStoreSize DL (IntegerTy 32)
      in case lf_params F of
           [] \<Rightarrow> Inl UndefinedBehaviour
         | T # Ts \<Rightarrow>
             if lf_byval F then
               (case T of
                  PointerTy (StructTy STs) \<Rightarrow>
                    let ArgSize = GetStructSize DL STs
                    in bindR (SerializeStruct DL (StructTy STs) [0]
                         (I32Size, [SMalloc Malloc (of_nat (I32Size + ArgSize)), SStoreSize (of_nat ArgSize)]))
                         (\<lambda>(Offset, B). Inr (B @ [SRet]))
                | _ \<Rightarrow> Inl UndefinedBehaviour)
             else
               let ArgSize = GetStructSize DL (T # Ts)
               in Inr ([SMalloc Malloc (of_nat (I32Size + ArgSize)), SStoreSize (of_nat ArgSize)] @
                    SerializeArguments DL 0 I32Size (T # Ts) @ [SRet]))"

definition lay_function_at :: "lay_module \<Rightarrow> nat \<Rightarrow> lay_function result" where
  "lay_function_at M i = (case map_of (lm_funs M) i of None \<Rightarrow> Inl UndefinedBehaviour | Some F \<Rightarrow> Inr F)"

definition DefineSerializeStruct :: "DataLayout \<Rightarrow> nat \<Rightarrow> lay_module \<Rightarrow> lay_module result" where
  "DefineSerializeStruct DL i M =
     bindR (lay_function_at M i) (\<lambda>F.
       if lf_insts F \<noteq> None \<or> lf_generated F \<noteq> None then Inr M
       else case DeclareMalloc DL M of (Malloc, M1) \<Rightarrow>
         bindR (serialize_body DL Malloc F) (\<lambda>B.
           Inr (M1\<lparr>lm_funs := map (\<lambda>(j, G). (j, if j = i then G\<lparr>lf_generated := Some B\<rparr> else G)) (lm_funs M1)\<rparr>)))"

definition register_layout ::
    "DataLayout \<Rightarrow> (nat \<Rightarrow> ptr) \<Rightarrow> nat \<Rightarrow> lay_module \<times> registration list \<Rightarrow> (lay_module \<times> registration list) result" where
  "register_layout DL address i st = (case st of (M, calls) \<Rightarrow>
     bindR (lay_function_at M i) (\<lambda>F.
     bindR (GetSerializeStruct F) (\<lambda>S.
     bindR (DefineSerializeStruct DL S M) (\<lambda>M1.
     bindR (lay_function_at M1 S) (\<lambda>SF.
       Inr (M1, calls @ [easy_register_layout (address S) (length (lf_params SF))]))))))"

definition registerLayouts ::
    "DataLayout \<Rightarrow> (nat \<Rightarrow> ptr) \<Rightarrow> nat list \<Rightarrow> lay_module \<Rightarrow> (lay_module \<times> registration list) result" where
  "registerLayouts DL address LayoutFunctions M = foldR (register_layout DL address) LayoutFunctions (M, [])"

definition RegisterLayout_runOnModule ::
    "DataLayout \<Rightarrow> (nat \<Rightarrow> ptr) \<Rightarrow> lay_module \<Rightarrow> (bool \<times> lay_module \<times> registration list) result" where
  "RegisterLayout_runOnModule DL address M =
     (let LayoutFunctions = collectLayouts M
      in if LayoutFunctions = [] then Inr (False, M, [])
         else bindR (registerLayouts DL address LayoutFunctions M) (\<lambda>(M', calls). Inr (True, M', calls)))"

subsection \<open>What the generated function does\<close>

definition write_bytes :: "int \<Rightarrow> byte list \<Rightarrow> byte option list \<Rightarrow> byte option list result" where
  "write_bytes k bs buf =
     (if k < 0 \<or> length buf < nat k + length bs then Inl UndefinedBehaviour
      else Inr (take (nat k) buf @ map Some bs @ drop (nat k + length bs) buf))"

fun run_serializer ::
    "(nat list \<Rightarrow> byte) \<Rightarrow> byte list list \<Rightarrow> ser_inst list \<Rightarrow> byte option list \<Rightarrow> byte option list result" where
  "run_serializer field args [] buf = Inl UndefinedBehaviour"
| "run_serializer field args (SMalloc f n # B) buf = run_serializer field args B (replicate (unat n) None)"
| "run_serializer field args (SStoreSize n # B) buf =
     bindR (write_bytes 0 (le_bytes 4 (unat n)) buf) (run_serializer field args B)"
| "run_serializer field args (SStoreArg a k # B) buf =
     bindR (nth_checked args a) (\<lambda>bs. bindR (write_bytes (sint k) bs buf) (run_serializer field args B))"
| "run_serializer field args (SStoreField p k # B) buf =
     bindR (write_bytes (sint k) [field p] buf) (run_serializer field args B)"
| "run_serializer field args (SRet # B) buf = Inr buf"

lemma GetStructSize_sum: "GetStructSize DL Ts = sum_list (map (getTypeStoreSize DL) Ts)"
proof -
  have "foldl (\<lambda>A T. A + getTypeStoreSize DL T) n Ts = n + sum_list (map (getTypeStoreSize DL) Ts)" for n
    by (induction Ts arbitrary: n) simp_all
  then show ?thesis by (simp add: GetStructSize_def)
qed

lemma sint_of_nat_small: "n < 2 ^ 31 \<Longrightarrow> sint (of_nat n :: 32 word) = int n"
  by (simp add: signed_of_nat signed_take_bit_int_eq_self)

lemma write_bytes_append:
  "length bs \<le> length rest \<Longrightarrow>
   write_bytes (int (length pre)) bs (pre @ rest) = Inr (pre @ map Some bs @ drop (length bs) rest)"
  by (simp add: write_bytes_def)

lemma run_SerializeArguments:
  assumes "list_all2 (\<lambda>bs T. length bs = getTypeStoreSize DL T) args Ts"
    and "length rest = length (concat args)" and "length pre + length rest < 2 ^ 31"
  shows "run_serializer field (done @ args) (SerializeArguments DL (length done) (length pre) Ts @ [SRet]) (pre @ rest) =
    Inr (pre @ map Some (concat args))"
  using assms
proof (induction args Ts arbitrary: "done" pre rest rule: list_all2_induct)
  case (Cons bs args T Ts)
  have small: "length pre < 2 ^ 31" using Cons.prems(2) by simp
  have len: "length bs \<le> length rest" using Cons.prems(1) by simp
  let ?pre = "pre @ map Some bs" and ?rest = "drop (length bs) rest"
  have "run_serializer field ((done @ [bs]) @ args) (SerializeArguments DL (length (done @ [bs])) (length ?pre) Ts @ [SRet])
      (?pre @ ?rest) = Inr (?pre @ map Some (concat args))"
    by (rule Cons.IH) (use Cons.prems in simp_all)
  then show ?case using Cons.hyps(1) sint_of_nat_small [OF small] write_bytes_append [OF len, of pre]
    by simp
qed simp

lemma word_le_le_bytes: "v < 256 ^ n \<Longrightarrow> word_le (le_bytes n v) = v"
proof (induction n arbitrary: v)
  case (Suc n)
  then have "v div 256 < 256 ^ n" by (simp add: less_mult_imp_div_less)
  with Suc have "word_le (le_bytes n (v div 256)) = v div 256" by blast
  moreover have "unat (of_nat v :: byte) = v mod 256" by (simp add: unat_of_nat)
  ultimately show ?case by (simp add: word_le_def)
qed (simp add: word_le_def)

lemma length_le_bytes [simp]: "length (le_bytes n v) = n"
  by (induction n arbitrary: v) simp_all

lemma serialized_arg_read:
  assumes "length data < 2 ^ 31"
  shows "serialized_arg (le_bytes 4 (length data) @ data) = Inr data"
proof -
  have "word_le (le_bytes 4 (length data)) = length data" using assms by (intro word_le_le_bytes) simp
  then show ?thesis by (simp add: serialized_arg_def Let_def)
qed

lemma DeclareMalloc_keeps:
  "DeclareMalloc DL M = (f, M') \<Longrightarrow> map_of (lm_funs M) i = Some F \<Longrightarrow> map_of (lm_funs M') i = Some F"
  by (auto simp: DeclareMalloc_def split: option.splits prod.splits)

lemma map_of_mapped: "map_of (map (\<lambda>(j, x). (j, f j x)) xs) i = map_option (f i) (map_of xs i)"
  by (induction xs) auto

lemma DefineSerializeStruct_body:
  assumes "map_of (lm_funs M) i = Some F" "lf_insts F = None" "lf_generated F = None"
    and "\<And>Malloc. serialize_body DL Malloc F = Inr (B Malloc)"
  shows "\<exists>M' Malloc. DefineSerializeStruct DL i M = Inr M' \<and>
    map_of (lm_funs M') i = Some (F\<lparr>lf_generated := Some (B Malloc)\<rparr>)"
proof -
  obtain Malloc M1 where m: "DeclareMalloc DL M = (Malloc, M1)" by (cases "DeclareMalloc DL M")
  with assms DeclareMalloc_keeps [OF m assms(1)] show ?thesis
    by (auto simp: DefineSerializeStruct_def lay_function_at_def map_of_mapped)
qed

lemma run_after_size:
  assumes "4 + n < 2 ^ 31"
  shows "run_serializer field args (SMalloc f (of_nat (4 + n)) # SStoreSize (of_nat n) # B) buf =
    run_serializer field args B (map Some (le_bytes 4 n) @ replicate n None)"
proof -
  have "unat (of_nat (4 + n) :: 64 word) = 4 + n" "unat (of_nat n :: 32 word) = n"
    using assms by (simp_all add: unat_of_nat take_bit_nat_eq_self del: of_nat_add)
  moreover have "write_bytes 0 (le_bytes 4 n) (replicate (4 + n) None) =
      Inr (map Some (le_bytes 4 n) @ replicate n None)"
    by (simp add: write_bytes_def)
  ultimately show ?thesis by simp
qed


definition sample_serializer :: lay_function where
  "sample_serializer = \<lparr>lf_name = ''serialize_arg'', lf_section = [], lf_params = [IntegerTy 32, IntegerTy 8],
     lf_byval = False, lf_insts = None, lf_generated = None\<rparr>"

definition sample_layouts :: lay_module where
  "sample_layouts = \<lparr>lm_funs = [(0, \<lparr>lf_name = ''get_layout'', lf_section = LAYOUT_SECTION, lf_params = [],
       lf_byval = False, lf_insts = Some [\<lparr>li_intrinsic = True, li_operands = [FunctionOp 7]\<rparr>,
         \<lparr>li_intrinsic = False, li_operands = [OtherOp, BitCastOp (FunctionOp 1)]\<rparr>], lf_generated = None\<rparr>),
     (1, sample_serializer)], lm_next = 2\<rparr>"


subsection \<open>Objects passed by value\<close>

fun only_bytes :: "llvm_type \<Rightarrow> bool" where
  "only_bytes (StructTy Ts) \<longleftrightarrow> (\<forall>T \<in> set Ts. only_bytes T)"
| "only_bytes T \<longleftrightarrow> T = IntegerTy 8"

fun byte_paths :: "nat list \<Rightarrow> llvm_type \<Rightarrow> nat list list" where
  "byte_paths G (StructTy Ts) = concat (map (\<lambda>(i, T). byte_paths (G @ [i]) T) (enumerate 0 Ts))"
| "byte_paths G T = [G]"

definition field_stores :: "nat \<Rightarrow> nat list list \<Rightarrow> ser_inst list" where
  "field_stores k ps = map (\<lambda>(j, p). SStoreField p (of_nat j)) (enumerate k ps)"

lemma field_stores_append: "field_stores k (ps @ qs) = field_stores k ps @ field_stores (k + length ps) qs"
  by (simp add: field_stores_def enumerate_append_eq)

lemma foldR_Inr_each: "foldR f xs s = Inr t \<Longrightarrow> x \<in> set xs \<Longrightarrow> \<exists>u v. f x u = Inr v"
proof (induction xs arbitrary: s)
  case (Cons y xs)
  from Cons.prems(1) obtain u where "f y s = Inr u" "foldR f xs u = Inr t" by (auto simp: result_simps)
  with Cons show ?case by auto
qed simp

lemma SerializeStruct_needs_bytes: "SerializeStruct DL T G st = Inr r \<Longrightarrow> only_bytes T"
proof (induction DL T G st arbitrary: r rule: SerializeStruct.induct)
  case (1 DL Ts G st)
  have "only_bytes T" if T: "T \<in> set Ts" for T
  proof -
    from T obtain i where "i < length Ts" "T = Ts ! i" by (auto simp: in_set_conv_nth)
    then have i: "(i, T) \<in> set (enumerate 0 Ts)" by (simp add: in_set_enumerate_eq)
    from foldR_Inr_each [OF 1(2) [unfolded SerializeStruct.simps] i]
    obtain u v where "SerializeStruct DL T (G @ [i]) u = Inr v" by auto
    with 1(1) [OF i] show ?thesis by blast
  qed
  then show ?case by simp
qed (auto split: if_splits)

lemma foldR_fields:
  assumes "\<And>i T k B. (i, T) \<in> set xs \<Longrightarrow>
      f (i, T) (k, B) = Inr (k + length (ps (i, T)), B @ field_stores k (ps (i, T)))"
  shows "foldR f xs (k, B) = Inr (k + length (concat (map ps xs)), B @ field_stores k (concat (map ps xs)))"
  using assms
proof (induction xs arbitrary: k B)
  case (Cons x xs)
  then show ?case by (cases x) (simp add: field_stores_append add.assoc)
qed (simp add: field_stores_def)

lemma SerializeStruct_bytes:
  assumes "getTypeStoreSize DL (IntegerTy 8) = 1"
  shows "only_bytes T \<Longrightarrow>
    SerializeStruct DL T G (k, B) = Inr (k + length (byte_paths G T), B @ field_stores k (byte_paths G T))"
proof (induction G T arbitrary: k B rule: byte_paths.induct)
  case (1 G Ts)
  then show ?case unfolding SerializeStruct.simps byte_paths.simps
    by (intro foldR_fields) (auto simp: in_set_enumerate_eq)
qed (use assms in \<open>auto simp: field_stores_def\<close>)

lemma run_field_stores:
  "length rest = length ps \<Longrightarrow> length pre + length ps < 2 ^ 31 \<Longrightarrow>
   run_serializer field args (field_stores (length pre) ps @ [SRet]) (pre @ rest) = Inr (pre @ map (Some \<circ> field) ps)"
proof (induction ps arbitrary: pre rest)
  case (Cons p ps)
  then have small: "length pre < 2 ^ 31" and len: "length [field p] \<le> length rest" by simp_all
  let ?pre = "pre @ [Some (field p)]"
  have "run_serializer field args (field_stores (length ?pre) ps @ [SRet]) (?pre @ drop 1 rest) =
      Inr (?pre @ map (Some \<circ> field) ps)" by (rule Cons.IH) (use Cons.prems in simp_all)
  then show ?case using sint_of_nat_small [OF small] write_bytes_append [OF len, of pre]
    by (simp add: field_stores_def)
qed (simp add: field_stores_def)

fun byte_count :: "llvm_type \<Rightarrow> nat" where
  "byte_count (StructTy Ts) = sum_list (map byte_count Ts)"
| "byte_count T = 1"

lemma map_enumerate_snd: "map (\<lambda>(i, x). f x) (enumerate n xs) = map f xs"
  by (induction xs arbitrary: n) simp_all

lemma length_byte_paths [simp]: "length (byte_paths G T) = byte_count T"
proof (induction G T rule: byte_paths.induct)
  case (1 G Ts)
  then have "map (length \<circ> (\<lambda>(i, T). byte_paths (G @ [i]) T)) (enumerate 0 Ts) = map (\<lambda>(i, T). byte_count T) (enumerate 0 Ts)"
    by (intro map_cong) auto
  then show ?case by (simp add: length_concat map_enumerate_snd)
qed simp_all

lemma GetStructSize_bytes:
  assumes "\<forall>T. only_bytes T \<longrightarrow> getTypeStoreSize DL T = byte_count T" "only_bytes (StructTy Ts)"
  shows "GetStructSize DL Ts = byte_count (StructTy Ts)"
  using assms by (auto simp: GetStructSize_sum intro!: arg_cong [of _ _ sum_list])


definition byte_layout :: DataLayout where
  "byte_layout = packed_layout\<lparr>getTypeStoreSize := (\<lambda>T. case T of IntegerTy w \<Rightarrow> w div 8 | _ \<Rightarrow> byte_count T)\<rparr>"

definition byval_layouts :: "llvm_type list \<Rightarrow> lay_module" where
  "byval_layouts Ts = \<lparr>lm_funs = [(1, sample_serializer\<lparr>lf_byval := True,
     lf_params := [PointerTy (StructTy Ts)]\<rparr>)], lm_next = 2\<rparr>"


subsection \<open>Registration\<close>

definition serializer_of :: "lay_module \<Rightarrow> nat \<Rightarrow> nat" where
  "serializer_of M i = (case bindR (lay_function_at M i) GetSerializeStruct of Inr S \<Rightarrow> S | Inl e \<Rightarrow> 0)"

definition fields_of :: "lay_module \<Rightarrow> nat \<Rightarrow> nat" where
  "fields_of M i = (case lay_function_at M i of Inr F \<Rightarrow> length (lf_params F) | Inl e \<Rightarrow> 0)"

definition is_defined :: "lay_module \<Rightarrow> nat \<Rightarrow> bool" where
  "is_defined M i \<longleftrightarrow> (\<exists>F. map_of (lm_funs M) i = Some F \<and> (lf_insts F \<noteq> None \<or> lf_generated F \<noteq> None))"

definition serializable :: "lay_function \<Rightarrow> bool" where
  "serializable F \<longleftrightarrow> lf_insts F \<noteq> None \<or> lf_generated F \<noteq> None \<or> lf_params F \<noteq> [] \<and> \<not> lf_byval F"

definition layout_ok :: "lay_module \<Rightarrow> nat \<Rightarrow> bool" where
  "layout_ok M i \<longleftrightarrow> (\<exists>F S SF. map_of (lm_funs M) i = Some F \<and> GetSerializeStruct F = Inr S \<and>
     map_of (lm_funs M) S = Some SF \<and> serializable SF)"

definition extends_module :: "lay_module \<Rightarrow> lay_module \<Rightarrow> bool" where
  "extends_module M M' \<longleftrightarrow> (\<forall>i F. map_of (lm_funs M) i = Some F \<longrightarrow>
     (\<exists>g. map_of (lm_funs M') i = Some (F\<lparr>lf_generated := g\<rparr>) \<and> (lf_generated F \<noteq> None \<longrightarrow> g \<noteq> None)))"

lemma extends_refl: "extends_module M M"
proof -
  have "F = F\<lparr>lf_generated := lf_generated F\<rparr>" for F :: lay_function by simp
  then show ?thesis unfolding extends_module_def by metis
qed

lemma extends_trans:
  assumes "extends_module M M1" "extends_module M1 M2"
  shows "extends_module M M2"
  unfolding extends_module_def
proof (intro allI impI)
  fix i F assume "map_of (lm_funs M) i = Some F"
  with assms(1) obtain g where g: "map_of (lm_funs M1) i = Some (F\<lparr>lf_generated := g\<rparr>)" "lf_generated F \<noteq> None \<longrightarrow> g \<noteq> None"
    unfolding extends_module_def by blast
  from assms(2) g(1) obtain h where "map_of (lm_funs M2) i = Some (F\<lparr>lf_generated := g\<rparr>\<lparr>lf_generated := h\<rparr>)" "g \<noteq> None \<longrightarrow> h \<noteq> None"
    unfolding extends_module_def by fastforce
  with g(2) show "\<exists>g. map_of (lm_funs M2) i = Some (F\<lparr>lf_generated := g\<rparr>) \<and> (lf_generated F \<noteq> None \<longrightarrow> g \<noteq> None)"
    by auto
qed

lemma is_defined_extends: "extends_module M M' \<Longrightarrow> is_defined M i \<Longrightarrow> is_defined M' i"
  unfolding extends_module_def is_defined_def by fastforce

lemma DefineSerializeStruct_total:
  assumes "map_of (lm_funs M) i = Some F" "serializable F"
  shows "\<exists>M'. DefineSerializeStruct DL i M = Inr M' \<and> extends_module M M' \<and> is_defined M' i"
proof (cases "lf_insts F \<noteq> None \<or> lf_generated F \<noteq> None")
  case True
  with assms(1) have "DefineSerializeStruct DL i M = Inr M" "is_defined M i"
    by (auto simp: DefineSerializeStruct_def lay_function_at_def is_defined_def)
  then show ?thesis using extends_refl by blast
next
  case False
  then obtain T Ts where "lf_params F = T # Ts" "\<not> lf_byval F"
    using assms(2) by (cases "lf_params F") (auto simp: serializable_def)
  then have body: "\<exists>B. serialize_body DL f F = Inr B" for f by (simp add: serialize_body_def Let_def)
  obtain f M1 where m: "DeclareMalloc DL M = (f, M1)" by (cases "DeclareMalloc DL M")
  obtain B where B: "serialize_body DL f F = Inr B" using body by blast
  let ?M = "M1\<lparr>lm_funs := map (\<lambda>(j, G). (j, if j = i then G\<lparr>lf_generated := Some B\<rparr> else G)) (lm_funs M1)\<rparr>"
  have "DefineSerializeStruct DL i M = Inr ?M"
    using assms(1) False m B by (simp add: DefineSerializeStruct_def lay_function_at_def)
  moreover have "is_defined ?M i"
    using DeclareMalloc_keeps [OF m assms(1)] by (simp add: is_defined_def map_of_mapped)
  moreover have "extends_module M ?M"
    unfolding extends_module_def
  proof (intro allI impI)
    fix j G assume "map_of (lm_funs M) j = Some G"
    from DeclareMalloc_keeps [OF m this]
    have "map_of (lm_funs ?M) j = Some (G\<lparr>lf_generated := if j = i then Some B else lf_generated G\<rparr>)"
      by (simp add: map_of_mapped)
    then show "\<exists>g. map_of (lm_funs ?M) j = Some (G\<lparr>lf_generated := g\<rparr>) \<and> (lf_generated G \<noteq> None \<longrightarrow> g \<noteq> None)"
      by (intro exI [of _ "if j = i then Some B else lf_generated G"]) simp
  qed
  ultimately show ?thesis by blast
qed

definition layout_call :: "(nat \<Rightarrow> ptr) \<Rightarrow> lay_module \<Rightarrow> nat \<Rightarrow> registration" where
  "layout_call address M i =
     easy_register_layout (address (serializer_of M i)) (fields_of M (serializer_of M i))"

lemma register_layout_total:
  assumes "layout_ok M i" "extends_module M M1"
  shows "\<exists>M2. register_layout DL address i (M1, calls) = Inr (M2, calls @ [layout_call address M i]) \<and>
    extends_module M1 M2 \<and> is_defined M2 (serializer_of M i)"
proof -
  from assms(1) obtain F S SF where ok: "map_of (lm_funs M) i = Some F" "GetSerializeStruct F = Inr S"
      "map_of (lm_funs M) S = Some SF" "serializable SF" unfolding layout_ok_def by blast
  from assms(2) ok obtain g h where at: "map_of (lm_funs M1) i = Some (F\<lparr>lf_generated := g\<rparr>)"
      "map_of (lm_funs M1) S = Some (SF\<lparr>lf_generated := h\<rparr>)" "lf_generated SF \<noteq> None \<longrightarrow> h \<noteq> None"
    unfolding extends_module_def by meson
  have "serializable (SF\<lparr>lf_generated := h\<rparr>)" using ok(4) at(3) by (auto simp: serializable_def)
  from DefineSerializeStruct_total [OF at(2) this] obtain M2 where
    M2: "DefineSerializeStruct DL S M1 = Inr M2" "extends_module M1 M2" "is_defined M2 S" by blast
  from M2(2) at(2) obtain h' where "map_of (lm_funs M2) S = Some (SF\<lparr>lf_generated := h\<rparr>\<lparr>lf_generated := h'\<rparr>)"
    unfolding extends_module_def by fastforce
  moreover have "serializer_of M i = S" "fields_of M S = length (lf_params SF)"
    using ok(1-3) by (simp_all add: serializer_of_def fields_of_def lay_function_at_def)
  moreover have "GetSerializeStruct (F\<lparr>lf_generated := g\<rparr>) = Inr S"
    using ok(2) by (simp add: GetSerializeStruct_def)
  ultimately show ?thesis
    using M2 at(1) by (auto simp: register_layout_def layout_call_def lay_function_at_def)
qed

lemma registerLayouts_total:
  "\<forall>i \<in> set xs. layout_ok M i \<Longrightarrow> extends_module M M1 \<Longrightarrow>
   \<exists>M2. foldR (register_layout DL address) xs (M1, calls) = Inr (M2, calls @ map (layout_call address M) xs) \<and>
     extends_module M1 M2 \<and> (\<forall>i \<in> set xs. is_defined M2 (serializer_of M i))"
proof (induction xs arbitrary: M1 calls)
  case (Cons i xs)
  then obtain M2 where M2: "register_layout DL address i (M1, calls) = Inr (M2, calls @ [layout_call address M i])"
      "extends_module M1 M2" "is_defined M2 (serializer_of M i)"
    using register_layout_total [of M i M1 DL address calls] by auto
  have "\<forall>i \<in> set xs. layout_ok M i" using Cons.prems(1) by simp
  from Cons.IH [OF this extends_trans [OF Cons.prems(2) M2(2)], of "calls @ [layout_call address M i]"]
  obtain M3 where M3: "foldR (register_layout DL address) xs (M2, calls @ [layout_call address M i]) =
        Inr (M3, (calls @ [layout_call address M i]) @ map (layout_call address M) xs)"
      "extends_module M2 M3" "\<forall>i \<in> set xs. is_defined M3 (serializer_of M i)" by blast
  show ?case
  proof (intro exI conjI)
    show "foldR (register_layout DL address) (i # xs) (M1, calls) =
        Inr (M3, calls @ map (layout_call address M) (i # xs))" using M2(1) M3(1) by simp
    show "extends_module M1 M3" by (rule extends_trans [OF M2(2) M3(2)])
    show "\<forall>i \<in> set (i # xs). is_defined M3 (serializer_of M i)"
      using M3(3) is_defined_extends [OF M3(2) M2(3)] by simp
  qed
qed (simp add: extends_refl)

lemma run_layouts_find:
  assumes "\<And>x y. x \<in> set xs \<Longrightarrow> y \<in> set xs \<Longrightarrow> a x = a y \<Longrightarrow> n x = n y" and "x \<in> set xs"
  shows "\<forall>y \<in> set xs. um_find (=) (a y) (Layouts BT) \<in> {None, Some \<lparr>NumFields = n y\<rparr>} \<Longrightarrow>
    um_find (=) (a x) (Layouts (run_registrations (map (\<lambda>y. easy_register_layout (a y) (n y)) xs) BT)) =
      Some \<lparr>NumFields = n x\<rparr>"
  using assms
proof (induction xs arbitrary: BT x)
  case (Cons y ys)
  let ?BT = "run_registration (easy_register_layout (a y) (n y)) BT"
  let ?rs = "map (\<lambda>y. easy_register_layout (a y) (n y)) ys"
  have find: "um_find (=) k (Layouts ?BT) = (if um_find (=) k (Layouts BT) = None \<and> k = a y
      then Some \<lparr>NumFields = n y\<rparr> else um_find (=) k (Layouts BT))" for k
    by (simp add: registerLayout_def find_emplace_eq)
  have keep: "um_find (=) k (Layouts B) = Some v \<Longrightarrow> um_find (=) k (Layouts (run_registrations ?rs B)) = Some v" for k v B
    by (induction ys arbitrary: B) (simp_all add: run_registrations_def registerLayout_def find_emplace_eq)
  have ok: "\<forall>z \<in> set ys. um_find (=) (a z) (Layouts ?BT) \<in> {None, Some \<lparr>NumFields = n z\<rparr>}"
  proof
    fix z assume z: "z \<in> set ys"
    with Cons.prems(2) [of z y] have "a z = a y \<Longrightarrow> n z = n y" by simp
    with z Cons.prems(1) show "um_find (=) (a z) (Layouts ?BT) \<in> {None, Some \<lparr>NumFields = n z\<rparr>}"
      unfolding find by auto
  qed
  show ?case
  proof (cases "x \<in> set ys")
    case True
    then show ?thesis using Cons.IH [OF ok] Cons.prems(2) by (simp add: run_registrations_Cons)
  next
    case False
    then have "um_find (=) (a x) (Layouts ?BT) = Some \<lparr>NumFields = n x\<rparr>"
      unfolding find using Cons.prems(1,3) by auto
    from keep [OF this] show ?thesis by (simp add: run_registrations_Cons)
  qed
next
  case Nil
  from Nil.prems(3) show ?case by simp
qed

text \<open>
  C23. The layout pass on a module whose layout functions each refer to a serializer with parameters in registers (or
  already defined): the pass succeeds, every serializer is defined afterwards, and when the static
  constructor has run, \<open>getLayoutInfo\<close> answers for the address of each with its number of parameters.
\<close>
theorem RegisterLayout_registers:
  assumes "collectLayouts M \<noteq> []" and "\<forall>i \<in> set (collectLayouts M). layout_ok M i" and "inj_on address (serializer_of M ` set (collectLayouts M))"
  shows "\<exists>M' calls. RegisterLayout_runOnModule DL address M = Inr (True, M', calls) \<and>
    (\<forall>i \<in> set (collectLayouts M). is_defined M' (serializer_of M i) \<and>
       getLayoutInfo (run_registrations calls TheTracker) (address (serializer_of M i)) =
         Inr \<lparr>NumFields = fields_of M (serializer_of M i)\<rparr>)"
proof -
  let ?xs = "collectLayouts M" and ?calls = "map (layout_call address M) (collectLayouts M)"
  obtain M' where M': "foldR (register_layout DL address) ?xs (M, []) = Inr (M', ?calls)"
      "\<forall>i \<in> set ?xs. is_defined M' (serializer_of M i)"
    using registerLayouts_total [OF assms(2) extends_refl, of DL address "[]"] by auto
  have "um_find (=) (address (serializer_of M i)) (Layouts (run_registrations ?calls TheTracker)) =
      Some \<lparr>NumFields = fields_of M (serializer_of M i)\<rparr>" if "i \<in> set ?xs" for i
    unfolding layout_call_def
  proof (rule run_layouts_find [where a = "\<lambda>i. address (serializer_of M i)" and n = "\<lambda>i. fields_of M (serializer_of M i)"])
    fix x y assume xy: "x \<in> set ?xs" "y \<in> set ?xs" "address (serializer_of M x) = address (serializer_of M y)"
    then have "serializer_of M x = serializer_of M y" by (intro inj_onD [OF assms(3)]) simp_all
    then show "fields_of M (serializer_of M x) = fields_of M (serializer_of M y)" by simp
  qed (use that in \<open>simp_all add: TheTracker_def\<close>)
  with M' assms(1) show ?thesis
    by (auto simp: RegisterLayout_runOnModule_def registerLayouts_def Let_def getLayoutInfo_def)
qed

theorem RegisterLayout_registers_witness:
  "\<exists>M' calls. RegisterLayout_runOnModule packed_layout of_nat sample_layouts = Inr (True, M', calls) \<and>
     getLayoutInfo (run_registrations calls TheTracker) 1 = Inr \<lparr>NumFields = 2\<rparr>"
proof -
  have "collectLayouts sample_layouts = [0]"
    by (simp add: collectLayouts_def sample_layouts_def sample_serializer_def LAYOUT_SECTION_def)
  moreover have "serializer_of sample_layouts 0 = 1" "fields_of sample_layouts 1 = 2" "layout_ok sample_layouts 0"
    by (auto simp: serializer_of_def fields_of_def layout_ok_def lay_function_at_def GetSerializeStruct_def
        sample_layouts_def serializable_def sample_serializer_def List.map_filter_simps)
  ultimately show ?thesis
    using RegisterLayout_registers [of sample_layouts of_nat packed_layout] by auto
qed

end
