(* ===== verification/Easy_LayoutCtor.thy ===== *)
theory Easy_LayoutCtor
  imports Easy_Ctor Easy_Layout
begin

text \<open>
  The static constructor that \<open>pass/Layout.cpp\<close> writes: the declaration of \<open>easy_register_layout\<close> and one call per layout
  function, with the address of its serializer and the number of its parameters. \<open>Easy_Layout\<close> takes the
  registrations for the result of the pass; here they are what the emitted calls do. The types of what is emitted are
  those of \<open>Easy_Ctor\<close>. Unlike the other pass, this one does not check that the target has a legal integer type.
\<close>

definition declareRegisterLayout :: "ctor_env \<Rightarrow> lay_module \<Rightarrow> emission \<Rightarrow> (nat \<times> emission) result" where
  "declareRegisterLayout CE M Em =
     (case find (\<lambda>(i, F). lf_name F = ''easy_register_layout'') (lm_funs M) of
        Some (i, F) \<Rightarrow> Inr (size_param CE i, Em)
      | None \<Rightarrow>
          (case legal_int CE of
             None \<Rightarrow> Inl UndefinedBehaviour
           | Some SizeT \<Rightarrow> Inr (SizeT, Em\<lparr>em_declared := em_declared Em @ [''easy_register_layout'']\<rparr>)))"

definition emit_layout ::
    "DataLayout \<Rightarrow> nat \<Rightarrow> nat \<Rightarrow> lay_module \<times> ctor_operand list list \<Rightarrow> (lay_module \<times> ctor_operand list list) result" where
  "emit_layout DL SizeT i st = (case st of (M, Calls) \<Rightarrow>
     bindR (lay_function_at M i) (\<lambda>F.
     bindR (GetSerializeStruct F) (\<lambda>S.
     bindR (DefineSerializeStruct DL S M) (\<lambda>M1.
     bindR (lay_function_at M1 S) (\<lambda>SF.
       Inr (M1, Calls @ [[CastOp (OrigRef S), SizeOp (take_bit SizeT (length (lf_params SF)))]]))))))"

definition RegisterLayout_emission :: "DataLayout \<Rightarrow> ctor_env \<Rightarrow> lay_module \<Rightarrow> (bool \<times> lay_module \<times> emission) result" where
  "RegisterLayout_emission DL CE M =
     (let LayoutFunctions = collectLayouts M
      in if LayoutFunctions = [] then Inr (False, M, no_emission)
         else bindR (declareRegisterLayout CE M no_emission) (\<lambda>(SizeT, Em).
              bindR (foldR (emit_layout DL SizeT) LayoutFunctions (M, [])) (\<lambda>(M', Calls).
                Inr (True, M', GetCtor ''register_layout'' 65535 Calls Em))))"

fun run_layout_call :: "(nat \<Rightarrow> ptr) \<Rightarrow> ctor_operand list \<Rightarrow> registration option" where
  "run_layout_call address [CastOp (OrigRef S), SizeOp N] = Some (easy_register_layout (address S) N)"
| "run_layout_call address _ = None"

fun num_fields :: "registration \<Rightarrow> nat" where
  "num_fields (easy_register_layout lid N) = N"
| "num_fields _ = 0"

lemma emit_layout_simulates:
  assumes "register_layout DL address i (M, calls) = Inr (M', calls')" and "\<forall>c \<in> set calls'. num_fields c < 2 ^ w"
    and "those (map (run_layout_call address) Calls) = Some calls"
  shows "\<exists>Calls'. emit_layout DL w i (M, Calls) = Inr (M', Calls') \<and> those (map (run_layout_call address) Calls') = Some calls'"
proof -
  have those_snoc: "those (xs @ [Some y]) = map_option (\<lambda>ys. ys @ [y]) (those xs)" for xs :: "registration option list" and y
    by (induction xs) (auto simp: option.map_comp comp_def split: option.splits)
  from assms(1) obtain F S SF where s: "lay_function_at M i = Inr F" "GetSerializeStruct F = Inr S"
      "DefineSerializeStruct DL S M = Inr M'" "lay_function_at M' S = Inr SF"
      "calls' = calls @ [easy_register_layout (address S) (length (lf_params SF))]"
    by (auto simp: register_layout_def bindR_eq_Inr)
  then have "take_bit w (length (lf_params SF)) = length (lf_params SF)"
    using assms(2) by (simp add: take_bit_nat_eq_self)
  with s assms(3) show ?thesis by (simp add: emit_layout_def those_snoc)
qed

lemma register_layout_appends: "register_layout DL address i (M, calls) = Inr (M', calls') \<Longrightarrow> set calls \<subseteq> set calls'"
  by (auto simp: register_layout_def bindR_eq_Inr)

lemma registerLayouts_appends:
  "foldR (register_layout DL address) xs (M, calls) = Inr (M', calls') \<Longrightarrow> set calls \<subseteq> set calls'"
proof (induction xs arbitrary: M calls)
  case (Cons x xs)
  then obtain M1 c1 where "register_layout DL address x (M, calls) = Inr (M1, c1)"
      "foldR (register_layout DL address) xs (M1, c1) = Inr (M', calls')" by (auto simp: bindR_eq_Inr)
  with Cons.IH register_layout_appends show ?case by blast
qed simp

lemma emit_layouts_simulate:
  assumes "foldR (register_layout DL address) xs (M, calls) = Inr (M', calls')" and "\<forall>c \<in> set calls'. num_fields c < 2 ^ w"
    and "those (map (run_layout_call address) Calls) = Some calls"
  shows "\<exists>Calls'. foldR (emit_layout DL w) xs (M, Calls) = Inr (M', Calls') \<and>
    those (map (run_layout_call address) Calls') = Some calls'"
  using assms
proof (induction xs arbitrary: M calls Calls)
  case (Cons x xs)
  then obtain M1 c1 where step: "register_layout DL address x (M, calls) = Inr (M1, c1)"
      "foldR (register_layout DL address) xs (M1, c1) = Inr (M', calls')" by (auto simp: bindR_eq_Inr)
  have "\<forall>c \<in> set c1. num_fields c < 2 ^ w" using registerLayouts_appends [OF step(2)] Cons.prems(2) by blast
  from emit_layout_simulates [OF step(1) this Cons.prems(3)] obtain Calls1 where
      "emit_layout DL w x (M, Calls) = Inr (M1, Calls1)" "those (map (run_layout_call address) Calls1) = Some c1" by blast
  with Cons.IH [OF step(2) Cons.prems(2)] show ?case by simp
qed simp

text \<open>
  Whenever the layout pass succeeds and the sizes fit the integer type of the declaration, it emits one
  constructor, and the calls in it are the registrations of the pass, in order.
\<close>
lemma layout_constructor_registers:
  assumes "RegisterLayout_runOnModule DL address M = Inr (True, M', calls)"
    and "declareRegisterLayout CE M no_emission = Inr (w, Em0)" and "\<forall>c \<in> set calls. num_fields c < 2 ^ w"
  shows "\<exists>Em Calls. RegisterLayout_emission DL CE M = Inr (True, M', Em) \<and>
    em_ctors Em = [\<lparr>ctor_name = ''register_layout'', ctor_priority = 65535, ctor_calls = Calls\<rparr>] \<and>
    those (map (run_layout_call address) Calls) = Some calls"
proof -
  have ne: "collectLayouts M \<noteq> []" and run: "foldR (register_layout DL address) (collectLayouts M) (M, []) = Inr (M', calls)"
    using assms(1) by (auto simp: RegisterLayout_runOnModule_def registerLayouts_def bindR_eq_Inr Let_def split: if_splits)
  from emit_layouts_simulate [OF run assms(3), of "[]"] obtain Calls where
      "foldR (emit_layout DL w) (collectLayouts M) (M, []) = Inr (M', Calls)"
      "those (map (run_layout_call address) Calls) = Some calls" by auto
  moreover have "em_ctors Em0 = []"
    using assms(2) by (auto simp: declareRegisterLayout_def no_emission_def split: option.splits)
  ultimately show ?thesis using ne assms(2) by (simp add: RegisterLayout_emission_def Let_def GetCtor_def)
qed

text \<open>On a target without a legal integer type the two passes differ: one fails an assertion, the other builds a function of a null type.\<close>

lemma declarations_without_integer:
  assumes "legal_int CE = None" and "\<forall>(i, F) \<in> set (lm_funs M). lf_name F \<noteq> ''easy_register_layout''"
    and "\<forall>(i, GO) \<in> set (gobjects N). ob_name GO \<noteq> ''easy_register''"
  shows "declareRegisterLayout CE M Em = Inl UndefinedBehaviour" and "declareRegisterBitcode CE N Em = Inl AssertionFailure"
proof -
  have "find (\<lambda>(i, F). lf_name F = ''easy_register_layout'') (lm_funs M) = None"
    "find (\<lambda>(i, GO). ob_function GO \<and> ob_name GO = ''easy_register'') (gobjects N) = None"
    using assms(2,3) by (auto simp: find_None_iff)
  then show "declareRegisterLayout CE M Em = Inl UndefinedBehaviour" "declareRegisterBitcode CE N Em = Inl AssertionFailure"
    using assms(1) by (simp_all add: declareRegisterLayout_def declareRegisterBitcode_def)
qed

end
