(* ===== verification/Easy_Meta.thy ===== *)
theory Easy_Meta
  imports Easy_Prelude
begin

text \<open>
  The compile-time part of the library: the C++ types its templates inspect, the type lists of
  \<open>include/easy/meta.h\<close> and the computation of the signature of the specialized function
  (\<open>discard_options\<close>, \<open>max_placeholder\<close>, \<open>map_placeholder_to_type\<close>, \<open>new_function_traits\<close>).
  A template alias or a \<open>constexpr\<close> member is a function on lists of types; a \<open>static_assert\<close> that
  fails is the fault \<open>StaticAssert\<close>.

  The types are those the traits of the library can tell apart: \<open>TClass\<close> carries the name of the
  class and its \<open>sizeof\<close>; \<open>TOther\<close> stands for the scalar types no overload of the library takes
  (enumerations, member pointers, \<open>nullptr_t\<close>).
\<close>

subsection \<open>C++ types and the standard traits\<close>

datatype cxx_type =
    TVoid
  | TBool
  | TInt nat bool
  | TFloating nat
  | TPointer cxx_type
  | TLRef cxx_type
  | TRRef cxx_type
  | TConst cxx_type
  | TFun cxx_type "cxx_type list"
  | TClass string nat
  | TPlaceholder nat
  | TOptLevel
  | TDumpIR
  | TWrapper cxx_type "cxx_type list"
  | TOther string

fun remove_reference :: "cxx_type \<Rightarrow> cxx_type" where
  "remove_reference (TLRef t) = t"
| "remove_reference (TRRef t) = t"
| "remove_reference t = t"

fun remove_const :: "cxx_type \<Rightarrow> cxx_type" where
  "remove_const (TConst t) = t"
| "remove_const t = t"

fun remove_pointer :: "cxx_type \<Rightarrow> cxx_type" where
  "remove_pointer (TPointer t) = t"
| "remove_pointer t = t"

definition decay :: "cxx_type \<Rightarrow> cxx_type" where
  "decay t = (case remove_reference t of
      TFun r ps \<Rightarrow> TPointer (TFun r ps)
    | u \<Rightarrow> remove_const u)"

fun is_placeholder :: "cxx_type \<Rightarrow> nat" where
  "is_placeholder (TPlaceholder n) = n"
| "is_placeholder _ = 0"

definition is_ph :: "cxx_type \<Rightarrow> nat" where
  "is_ph t = is_placeholder (decay t)"

fun is_option :: "cxx_type \<Rightarrow> bool" where
  "is_option TOptLevel = True"
| "is_option TDumpIR = True"
| "is_option _ = False"

fun is_integral :: "cxx_type \<Rightarrow> bool" where
  "is_integral TBool = True"
| "is_integral (TInt w s) = True"
| "is_integral (TConst t) = is_integral t"
| "is_integral _ = False"

fun is_floating_point :: "cxx_type \<Rightarrow> bool" where
  "is_floating_point (TFloating w) = True"
| "is_floating_point (TConst t) = is_floating_point t"
| "is_floating_point _ = False"

fun is_pointer :: "cxx_type \<Rightarrow> bool" where
  "is_pointer (TPointer t) = True"
| "is_pointer (TConst t) = is_pointer t"
| "is_pointer _ = False"

fun is_reference :: "cxx_type \<Rightarrow> bool" where
  "is_reference (TLRef t) = True"
| "is_reference (TRRef t) = True"
| "is_reference _ = False"

fun is_class :: "cxx_type \<Rightarrow> bool" where
  "is_class (TClass n s) = True"
| "is_class (TPlaceholder n) = True"
| "is_class TOptLevel = True"
| "is_class TDumpIR = True"
| "is_class (TWrapper r ps) = True"
| "is_class (TConst t) = is_class t"
| "is_class _ = False"

fun is_function_wrapper_helper :: "cxx_type \<Rightarrow> bool" where
  "is_function_wrapper_helper (TWrapper r ps) = True"
| "is_function_wrapper_helper _ = False"

definition is_function_wrapper :: "cxx_type \<Rightarrow> bool" where
  "is_function_wrapper t = is_function_wrapper_helper (remove_reference t)"

subsection \<open>Type lists\<close>

type_synonym type_list = "cxx_type list"

definition tl_push_front :: "type_list \<Rightarrow> cxx_type \<Rightarrow> type_list" where
  "tl_push_front ts New = New # ts"

definition tl_push_back :: "type_list \<Rightarrow> cxx_type \<Rightarrow> type_list" where
  "tl_push_back ts New = ts @ [New]"

fun tl_at :: "type_list \<Rightarrow> nat \<Rightarrow> cxx_type" where
  "tl_at [] I = TVoid"
| "tl_at (h # t) I = (if I = 0 then h else tl_at t (I - 1))"

fun tl_set :: "type_list \<Rightarrow> nat \<Rightarrow> cxx_type \<Rightarrow> type_list" where
  "tl_set [] I T = []"
| "tl_set (h # t) I T = (if I = 0 then tl_push_front t T else tl_push_front (tl_set t (I - 1) T) h)"

fun tl_remove :: "type_list \<Rightarrow> cxx_type \<Rightarrow> type_list" where
  "tl_remove [] T = []"
| "tl_remove (h # t) T = (if h = T then tl_remove t T else tl_push_front (tl_remove t T) h)"

fun tl_has_trait :: "type_list \<Rightarrow> cxx_type \<Rightarrow> bool" where
  "tl_has_trait [] T = False"
| "tl_has_trait (h # t) T = (T = h \<or> tl_has_trait t T)"

fun tl_size :: "type_list \<Rightarrow> nat" where
  "tl_size [] = 0"
| "tl_size (h # t) = 1 + tl_size t"

fun tl_empty :: "type_list \<Rightarrow> bool" where
  "tl_empty [] = True"
| "tl_empty (h # t) = False"

fun init_list :: "nat \<Rightarrow> cxx_type \<Rightarrow> type_list" where
  "init_list 0 T = []"
| "init_list (Suc N) T = tl_push_front (init_list N T) T"

subsection \<open>The signature of the specialized function\<close>

fun discard_options :: "type_list \<Rightarrow> type_list" where
  "discard_options [] = []"
| "discard_options (head # tail) =
     (let is_opt = is_option (decay head); recursive = discard_options tail
      in if is_opt then recursive else tl_push_front recursive head)"

fun max_placeholder_helper :: "type_list \<Rightarrow> nat \<Rightarrow> nat" where
  "max_placeholder_helper [] mx = mx"
| "max_placeholder_helper (head # tail) mx =
     max_placeholder_helper tail (if is_ph head > mx then is_ph head else mx)"

definition max_placeholder :: "type_list \<Rightarrow> nat" where
  "max_placeholder AL = max_placeholder_helper AL 0"

fun mptt_helper ::
    "type_list \<Rightarrow> type_list \<Rightarrow> type_list \<Rightarrow> type_list \<Rightarrow> nat \<Rightarrow> bool \<Rightarrow> type_list result" where
  "mptt_helper PL AL Result Seen N True =
     (if tl_size Seen \<noteq> N then Inl (StaticAssert ''Seen::size != N'')
      else if tl_size Result \<noteq> N then Inl (StaticAssert ''Result::size != N'')
      else if tl_has_trait Result TVoid
        then Inl (StaticAssert ''Void cannot appear in the resulting type'')
      else Inr Result)"
| "mptt_helper PL [] Result Seen N False =
     Inl (StaticAssert ''easy::jit: Invalid bind, placeholder cannot be bound to a formal argument'')"
| "mptt_helper PL (al_head # al_tail) Result Seen N False =
     (let parse_placeholder = (is_ph al_head \<noteq> 0 \<and> \<not> tl_has_trait Seen al_head);
          result_idx = (if parse_placeholder then is_ph al_head - 1 else 0);
          arg_idx = tl_size PL - tl_size (al_head # al_tail);
          pl_at_idx = tl_at PL arg_idx;
          new_result = (if parse_placeholder then tl_set Result result_idx pl_at_idx else Result);
          new_seen = (if parse_placeholder then tl_push_back Seen al_head else Seen)
      in if \<not> tl_size PL \<ge> tl_size (al_head # al_tail)
           then Inl (StaticAssert ''easy::jit: More parameters than arguments specified'')
         else if \<not> result_idx < tl_size Result
           then Inl (StaticAssert ''easy::jit: Cannot have a placeholder outside the maximum'')
         else mptt_helper PL al_tail new_result new_seen N (tl_size new_seen = N))"

definition map_placeholder_to_type :: "type_list \<Rightarrow> type_list \<Rightarrow> type_list result" where
  "map_placeholder_to_type ParamList ArgList =
     (let N = max_placeholder ArgList
      in mptt_helper ParamList ArgList (init_list N TVoid) [] N (N = 0))"

fun function_traits :: "cxx_type \<Rightarrow> (cxx_type \<times> type_list) result" where
  "function_traits (TFun return_type parameter_list) = Inr (return_type, parameter_list)"
| "function_traits _ = Inl (StaticAssert ''function expected.'')"

definition new_function_traits :: "cxx_type \<Rightarrow> type_list \<Rightarrow> (cxx_type \<times> type_list) result" where
  "new_function_traits FunTy ArgList =
     bindR (function_traits FunTy) (\<lambda>(return_type, parameter_list).
     bindR (map_placeholder_to_type parameter_list (discard_options ArgList)) (\<lambda>new_parameters.
       Inr (return_type, new_parameters)))"

subsection \<open>Lemmas on type lists\<close>

lemma tl_size_length [simp]: "tl_size ts = length ts"
  by (induction ts) auto

lemma tl_empty_iff [simp]: "tl_empty ts \<longleftrightarrow> ts = []"
  by (cases ts) auto

lemma tl_push_simps [simp]:
  "tl_push_front ts t = t # ts"
  "tl_push_back ts t = ts @ [t]"
  by (simp_all add: tl_push_front_def tl_push_back_def)

lemma tl_has_trait_iff [simp]: "tl_has_trait ts t \<longleftrightarrow> t \<in> set ts"
  by (induction ts) auto

lemma tl_at_nth: "tl_at ts i = (if i < length ts then ts ! i else TVoid)"
  by (induction ts arbitrary: i) (auto simp: nth_Cons split: nat.splits)

lemma tl_set_update [simp]: "tl_set ts i t = ts[i := t]"
  by (induction ts arbitrary: i) (auto split: nat.splits)

lemma tl_remove_filter: "tl_remove ts t = filter (\<lambda>u. u \<noteq> t) ts"
  by (induction ts) auto

lemma init_list_replicate [simp]: "init_list n t = replicate n t"
  by (induction n) auto

lemma discard_options_filter: "discard_options ts = filter (\<lambda>t. \<not> is_option (decay t)) ts"
  by (induction ts) (auto simp: Let_def)

lemma max_placeholder_helper_max:
  "max_placeholder_helper AL m = Max (insert m (is_ph ` set AL))"
proof (induction AL arbitrary: m)
  case (Cons a AL)
  have "max_placeholder_helper (a # AL) m = Max (insert (max m (is_ph a)) (is_ph ` set AL))"
    using Cons.IH by (simp add: max_def)
  also have "\<dots> = Max (insert m (insert (is_ph a) (is_ph ` set AL)))"
    by (cases "is_ph ` set AL = {}") (auto simp: max.assoc)
  finally show ?case by simp
qed simp

lemma max_placeholder_ge: "x \<in> set AL \<Longrightarrow> is_ph x \<le> max_placeholder AL"
  by (simp add: max_placeholder_def max_placeholder_helper_max)

subsection \<open>What the signature computation means\<close>

text \<open>
  The reference: placeholder \<open>n\<close> stands for the parameter at the first argument position that
  holds it. \<open>same_placeholders\<close> says that an argument list writes each placeholder with one type
  only (the library compares types, so \<open>_1\<close> and a reference to \<open>_1\<close> count as different).
\<close>

fun first_ph :: "type_list \<Rightarrow> nat \<Rightarrow> nat option" where
  "first_ph [] n = None"
| "first_ph (a # AL) n = (if is_ph a = n then Some 0 else map_option Suc (first_ph AL n))"

definition same_placeholders :: "type_list \<Rightarrow> bool" where
  "same_placeholders AL \<longleftrightarrow>
     (\<forall>x \<in> set AL. \<forall>y \<in> set AL. is_ph x = is_ph y \<longrightarrow> is_ph x \<noteq> 0 \<longrightarrow> x = y)"

definition bound_types :: "type_list \<Rightarrow> type_list \<Rightarrow> type_list" where
  "bound_types PL AL =
     map (\<lambda>i. PL ! the (first_ph AL (Suc i))) [0..<max_placeholder AL]"

lemma first_ph_None_iff: "first_ph AL n = None \<longleftrightarrow> n \<notin> is_ph ` set AL"
  by (induction AL) auto

lemma first_ph_Some:
  "first_ph AL n = Some j \<longleftrightarrow> j < length AL \<and> is_ph (AL ! j) = n \<and> (\<forall>i<j. is_ph (AL ! i) \<noteq> n)"
proof (induction AL arbitrary: j)
  case (Cons a AL)
  show ?case
  proof (cases j)
    case 0
    then show ?thesis by auto
  next
    case (Suc k)
    then show ?thesis using Cons.IH [of k] by (auto simp: All_less_Suc2)
  qed
qed simp

text \<open>
  One state of the recursion: the parameter that the argument at index \<open>j\<close> of the remaining list
  is matched with, and what the result will hold at index \<open>i\<close>.
\<close>

definition pl_pos :: "type_list \<Rightarrow> type_list \<Rightarrow> nat \<Rightarrow> nat" where
  "pl_pos PL AL j = length PL - length AL + j"

lemma pl_pos_Cons:
  "pl_pos PL (a # AL) 0 = length PL - Suc (length AL)"
  "Suc (length AL) \<le> length PL \<Longrightarrow> pl_pos PL (a # AL) (Suc j) = pl_pos PL AL j"
  by (simp_all add: pl_pos_def)

definition mptt_at :: "type_list \<Rightarrow> type_list \<Rightarrow> type_list \<Rightarrow> type_list \<Rightarrow> nat \<Rightarrow> cxx_type" where
  "mptt_at PL AL R S i =
     (if Suc i \<in> is_ph ` set S then R ! i
      else case first_ph AL (Suc i) of
             None \<Rightarrow> TVoid | Some j \<Rightarrow> tl_at PL (pl_pos PL AL j))"

definition mptt_inv :: "type_list \<Rightarrow> type_list \<Rightarrow> type_list \<Rightarrow> type_list \<Rightarrow> nat \<Rightarrow> bool" where
  "mptt_inv PL AL R S N \<longleftrightarrow>
     distinct (map is_ph S) \<and> is_ph ` set S \<subseteq> {1..N} \<and> is_ph ` set AL \<subseteq> {0..N} \<and>
     same_placeholders (S @ AL) \<and> length R = N \<and> length AL \<le> length PL \<and> TVoid \<notin> set PL \<and>
     (\<forall>i<N. Suc i \<in> is_ph ` set S \<longrightarrow> R ! i \<noteq> TVoid)"

lemma mptt_inv_full:
  assumes "mptt_inv PL AL R S N"
  shows "length S = N \<longleftrightarrow> is_ph ` set S = {1..N}"
proof -
  from assms have d: "distinct (map is_ph S)" and sub: "is_ph ` set S \<subseteq> {1..N}"
    by (auto simp: mptt_inv_def)
  from d have "card (is_ph ` set S) = length S"
    by (metis distinct_card length_map set_map)
  then show ?thesis
    using sub by (metis card_atLeastAtMost card_subset_eq diff_Suc_1 finite_atLeastAtMost)
qed

lemma mptt_inv_skip:
  assumes "mptt_inv PL (a # AL) R S N" and "is_ph a = 0 \<or> a \<in> set S"
  shows "mptt_inv PL AL R S N" and "i < N \<Longrightarrow> mptt_at PL AL R S i = mptt_at PL (a # AL) R S i"
proof -
  show "mptt_inv PL AL R S N"
    using assms by (auto simp: mptt_inv_def same_placeholders_def)
  have "is_ph a \<noteq> Suc i" if "Suc i \<notin> is_ph ` set S"
    using assms(2) that by (auto intro: rev_image_eqI)
  moreover have "Suc (length AL) \<le> length PL"
    using assms(1) by (simp add: mptt_inv_def)
  ultimately show "mptt_at PL AL R S i = mptt_at PL (a # AL) R S i"
    by (auto simp: mptt_at_def pl_pos_Cons split: option.splits)
qed

lemma mptt_inv_take:
  assumes inv: "mptt_inv PL (a # AL) R S N" and new: "is_ph a \<noteq> 0" "a \<notin> set S"
  defines "R' \<equiv> R[is_ph a - 1 := tl_at PL (length PL - Suc (length AL))]"
  shows "mptt_inv PL AL R' (S @ [a]) N"
    and "i < N \<Longrightarrow> mptt_at PL AL R' (S @ [a]) i = mptt_at PL (a # AL) R S i"
proof -
  have fresh: "is_ph a \<notin> is_ph ` set S"
    using inv new by (auto simp: mptt_inv_def same_placeholders_def)
  have nv: "tl_at PL (length PL - Suc (length AL)) \<noteq> TVoid"
    using inv by (auto simp: mptt_inv_def tl_at_nth in_set_conv_nth)
  show "mptt_inv PL AL R' (S @ [a]) N"
    using inv new fresh nv unfolding mptt_inv_def R'_def
    by (auto simp: same_placeholders_def nth_list_update Suc_le_eq)
  show "mptt_at PL AL R' (S @ [a]) i = mptt_at PL (a # AL) R S i" if "i < N"
    using inv new fresh that unfolding mptt_inv_def R'_def mptt_at_def
    by (auto simp: nth_list_update pl_pos_Cons split: option.splits)
qed

abbreviation invalid_bind :: fault where
  "invalid_bind \<equiv> StaticAssert
     ''easy::jit: Invalid bind, placeholder cannot be bound to a formal argument''"

lemma mptt_helper_spec:
  assumes "mptt_inv PL AL R S N"
  shows "mptt_helper PL AL R S N (length S = N) =
     (if {1..N} \<subseteq> is_ph ` set S \<union> is_ph ` set AL
      then Inr (map (mptt_at PL AL R S) [0..<N]) else Inl invalid_bind)"
  using assms
proof (induction AL arbitrary: R S)
  case Nil
  show ?case
  proof (cases "length S = N")
    case True
    with Nil have "is_ph ` set S = {1..N}" by (simp add: mptt_inv_full)
    with Nil True show ?thesis
      by (auto simp: mptt_inv_def mptt_at_def in_set_conv_nth intro!: nth_equalityI)
  next
    case False
    with Nil have "\<not> {1..N} \<subseteq> is_ph ` set S"
      using mptt_inv_full [OF Nil] by (auto simp: mptt_inv_def)
    with False show ?thesis by simp
  qed
next
  case (Cons a AL)
  show ?case
  proof (cases "length S = N")
    case True
    with Cons have "is_ph ` set S = {1..N}" by (simp add: mptt_inv_full)
    with Cons.prems True show ?thesis
      by (auto simp: mptt_inv_def mptt_at_def in_set_conv_nth intro!: nth_equalityI)
  next
    case False
    with mptt_inv_full [OF Cons.prems] have N: "0 < N"
      using Cons.prems by (cases N) (auto simp: mptt_inv_def)
    have len: "Suc (length AL) \<le> length PL" "length R = N"
      using Cons.prems by (auto simp: mptt_inv_def)
    show ?thesis
    proof (cases "is_ph a = 0 \<or> a \<in> set S")
      case True
      have "mptt_helper PL (a # AL) R S N (length S = N) = mptt_helper PL AL R S N (length S = N)"
        using True False N len by (auto simp: Let_def)
      also have "\<dots> = (if {1..N} \<subseteq> is_ph ` set S \<union> is_ph ` set AL
          then Inr (map (mptt_at PL AL R S) [0..<N]) else Inl invalid_bind)"
        by (rule Cons.IH) (rule mptt_inv_skip [OF Cons.prems True])
      also have "map (mptt_at PL AL R S) [0..<N] = map (mptt_at PL (a # AL) R S) [0..<N]"
        using mptt_inv_skip(2) [OF Cons.prems True] by simp
      finally show ?thesis using True by auto
    next
      case new: False
      let ?R = "R[is_ph a - 1 := tl_at PL (length PL - Suc (length AL))]"
      have new': "is_ph a \<noteq> 0" "a \<notin> set S" and le: "is_ph a \<le> N"
        using new Cons.prems by (auto simp: mptt_inv_def)
      have "mptt_helper PL (a # AL) R S N (length S = N) =
          mptt_helper PL AL ?R (S @ [a]) N (length (S @ [a]) = N)"
        using new' le False N len by (auto simp: Let_def)
      also have "\<dots> = (if {1..N} \<subseteq> is_ph ` set (S @ [a]) \<union> is_ph ` set AL
          then Inr (map (mptt_at PL AL ?R (S @ [a])) [0..<N]) else Inl invalid_bind)"
        by (rule Cons.IH) (rule mptt_inv_take [OF Cons.prems new'])
      also have "map (mptt_at PL AL ?R (S @ [a])) [0..<N] = map (mptt_at PL (a # AL) R S) [0..<N]"
        using mptt_inv_take(2) [OF Cons.prems new'] by simp
      finally show ?thesis by auto
    qed
  qed
qed

lemma mptt_inv_start:
  "same_placeholders AL \<Longrightarrow> length AL \<le> length PL \<Longrightarrow> TVoid \<notin> set PL \<Longrightarrow>
     mptt_inv PL AL (replicate (max_placeholder AL) TVoid) [] (max_placeholder AL)"
  by (auto simp: mptt_inv_def dest: max_placeholder_ge)

text \<open>Soundness alone needs no assumption on how the placeholders are written.\<close>

definition mptt_from :: "type_list \<Rightarrow> type_list \<Rightarrow> nat \<Rightarrow> cxx_type \<Rightarrow> bool" where
  "mptt_from PL AL i t \<longleftrightarrow>
     (\<exists>j<length AL. is_ph (AL ! j) = Suc i \<and> t = tl_at PL (pl_pos PL AL j))"

lemma mptt_from_Cons:
  assumes "Suc (length AL) \<le> length PL" and "mptt_from PL AL i t"
  shows "mptt_from PL (a # AL) i t"
proof -
  from assms(2) obtain j where "j < length AL" "is_ph (AL ! j) = Suc i"
    "t = tl_at PL (pl_pos PL AL j)" by (auto simp: mptt_from_def)
  with assms(1) show ?thesis
    unfolding mptt_from_def by (intro exI [of _ "Suc j"]) (simp add: pl_pos_Cons)
qed

lemma mptt_from_head:
  "is_ph a = Suc i \<Longrightarrow> mptt_from PL (a # AL) i (tl_at PL (length PL - Suc (length AL)))"
  unfolding mptt_from_def by (intro exI [of _ 0]) (simp add: pl_pos_Cons)

lemma mptt_helper_sound:
  "mptt_helper PL AL R S N d = Inr Q \<Longrightarrow>
     length Q = N \<and> TVoid \<notin> set Q \<and> (\<forall>i<N. Q ! i = R ! i \<or> mptt_from PL AL i (Q ! i))"
proof (induction AL arbitrary: R S d)
  case Nil
  then show ?case by (cases d) (auto split: if_splits)
next
  case (Cons a AL)
  show ?case
  proof (cases d)
    case True
    with Cons.prems show ?thesis by (auto split: if_splits)
  next
    case False
    have le: "Suc (length AL) \<le> length PL"
      using Cons.prems False by (auto simp: Let_def split: if_splits)
    show ?thesis
    proof (cases "is_ph a \<noteq> 0 \<and> a \<notin> set S")
      case True
      let ?R = "R[is_ph a - 1 := tl_at PL (length PL - Suc (length AL))]"
      have lt: "is_ph a - 1 < length R"
        and rec: "mptt_helper PL AL ?R (S @ [a]) N (length (S @ [a]) = N) = Inr Q"
        using Cons.prems False True by (auto simp: Let_def split: if_splits)
      have "?R ! i = R ! i \<or> mptt_from PL (a # AL) i (?R ! i)" for i
        using True lt by (cases "i = is_ph a - 1") (auto intro: mptt_from_head)
      then show ?thesis
        using Cons.IH [OF rec] mptt_from_Cons [OF le] by metis
    next
      case skip: False
      then have "mptt_helper PL AL R S N (length S = N) = Inr Q"
        using Cons.prems False by (auto simp: Let_def split: if_splits)
      from Cons.IH [OF this] show ?thesis
        using mptt_from_Cons [OF le] by blast
    qed
  qed
qed

text \<open>
  C25. The parameter list of the specialized function: for an argument list as long as the parameter
  list, in which every placeholder is written with one type, \<open>map_placeholder_to_type\<close> gives, for
  each placeholder number from 1 to the largest one, the type of the parameter where that
  placeholder first occurs; if some number below the largest is missing, the program is refused.
\<close>
theorem map_placeholder_to_type_spec:
  assumes "length PL = length AL" and "TVoid \<notin> set PL" and "same_placeholders AL"
  shows "map_placeholder_to_type PL AL =
     (if {1..max_placeholder AL} \<subseteq> is_ph ` set AL
      then Inr (bound_types PL AL) else Inl invalid_bind)"
proof -
  let ?N = "max_placeholder AL"
  have inv: "mptt_inv PL AL (replicate ?N TVoid) [] ?N"
    using assms by (intro mptt_inv_start) auto
  have "mptt_at PL AL (replicate ?N TVoid) [] i = PL ! the (first_ph AL (Suc i))"
    if "{1..?N} \<subseteq> is_ph ` set AL" and "i < ?N" for i
  proof -
    from that have "Suc i \<in> is_ph ` set AL" by auto
    then obtain j where j: "first_ph AL (Suc i) = Some j"
      by (cases "first_ph AL (Suc i)") (auto simp: first_ph_None_iff)
    then have "j < length AL" by (simp add: first_ph_Some)
    with j assms(1) show ?thesis by (simp add: mptt_at_def pl_pos_def tl_at_nth)
  qed
  then have "map (mptt_at PL AL (replicate ?N TVoid) []) [0..<?N] = bound_types PL AL"
    if "{1..?N} \<subseteq> is_ph ` set AL"
    using that by (simp add: bound_types_def)
  moreover have "map_placeholder_to_type PL AL =
      mptt_helper PL AL (replicate ?N TVoid) [] ?N (length ([] :: type_list) = ?N)"
    by (simp add: map_placeholder_to_type_def Let_def eq_commute [of 0])
  ultimately show ?thesis
    using mptt_helper_spec [OF inv] by simp
qed

theorem map_placeholder_to_type_spec_witness:
  "length [TInt 32 True, TBool, TFloating 32] =
     length [TInt 32 True, TPlaceholder 2, TPlaceholder 1] \<and>
   map_placeholder_to_type [TInt 32 True, TBool, TFloating 32]
     [TInt 32 True, TPlaceholder 2, TPlaceholder 1] = Inr [TFloating 32, TBool]"
proof -
  let ?PL = "[TInt 32 True, TBool, TFloating 32]"
  let ?AL = "[TInt 32 True, TPlaceholder 2, TPlaceholder 1]"
  have same: "same_placeholders ?AL"
    by (simp add: same_placeholders_def is_ph_def decay_def)
  have mx: "max_placeholder ?AL = 2"
    by (simp add: max_placeholder_def is_ph_def decay_def)
  have "{1..2::nat} = {1, 2}" by auto
  then show ?thesis
    using map_placeholder_to_type_spec [OF _ _ same, of ?PL] mx
    by (simp add: bound_types_def is_ph_def decay_def numeral_2_eq_2)
qed

end
