(* ===== verification/Easy_Param.thy ===== *)
theory Easy_Param
  imports Easy_Meta Easy_Context
begin

text \<open>
  \<open>include/easy/param.h\<close>, \<open>include/easy/options.h\<close> and the front half of \<open>include/easy/jit.h\<close>: how
  the arguments of a call \<open>easy::jit(f, args...)\<close> become a \<open>Context\<close>.

  An argument is a record of its deduced type, its value and its object representation. The choice
  between the \<open>set_param\<close> overloads is the cascade of the traits in their \<open>enable_if\<close> conditions; when
  no overload is viable the call does not compile, the fault \<open>NoOverload\<close>. For a parameter of
  reference type the only overload whose condition holds calls \<open>std::addressof<Param>(arg)\<close>, whose
  return type for \<open>Param = T&\<close> is a pointer to a reference; no such type exists, so the call has no
  viable function either and every non-special argument of a reference parameter is refused.

  Standard integer conversions are computed. What depends on the floating-point environment and on
  the conversion functions of the user's own classes is the parameter \<open>E\<close>. A pointer argument is the
  value it has after the conversion to the parameter's pointer type.
\<close>

datatype 'm cxx_value =
    VInt int
  | VFloat "64 word"
  | VPtr ptr
  | VObj
  | VPlaceholder
  | VWrapper "'m Function option"
  | VOptLevel uint uint
  | VDumpIR string

record 'm cxx_arg =
  arg_type :: cxx_type
  arg_val :: "'m cxx_value"
  arg_bytes :: "byte list"

record 'm cxx_env =
  int_to_fp :: "nat \<Rightarrow> int \<Rightarrow> 64 word"
  fp_round :: "nat \<Rightarrow> 64 word \<Rightarrow> 64 word"
  fp_to_int :: "64 word \<Rightarrow> int"
  user_conversion :: "cxx_type \<Rightarrow> 'm cxx_arg \<Rightarrow> 'm cxx_value option"
  fun_converts :: "cxx_type \<Rightarrow> cxx_type \<Rightarrow> bool"

definition wrap_int :: "nat \<Rightarrow> bool \<Rightarrow> int \<Rightarrow> int" where
  "wrap_int w s n = (if s then signed_take_bit (w - 1) n else take_bit w n)"

subsection \<open>Implicit conversion of an argument to the parameter's type\<close>

definition to_integral :: "'m cxx_env \<Rightarrow> cxx_type \<Rightarrow> 'm cxx_arg \<Rightarrow> int option" where
  "to_integral E Param a =
     (let v = (case arg_val a of VObj \<Rightarrow> user_conversion E Param a | u \<Rightarrow> Some u)
      in case (remove_const Param, v) of
           (TInt w s, Some (VInt n)) \<Rightarrow> Some (wrap_int w s n)
         | (TInt w s, Some (VFloat d)) \<Rightarrow> Some (wrap_int w s (fp_to_int E d))
         | (TBool, Some (VInt n)) \<Rightarrow> Some (of_bool (n \<noteq> 0))
         | (TBool, Some (VFloat d)) \<Rightarrow> Some (of_bool (double_magnitude d \<noteq> 0))
         | (TBool, Some (VPtr p)) \<Rightarrow> Some (of_bool (p \<noteq> 0))
         | _ \<Rightarrow> None)"

definition to_floating :: "'m cxx_env \<Rightarrow> cxx_type \<Rightarrow> 'm cxx_arg \<Rightarrow> 64 word option" where
  "to_floating E Param a =
     (let v = (case arg_val a of VObj \<Rightarrow> user_conversion E Param a | u \<Rightarrow> Some u)
      in case (remove_const Param, v) of
           (TFloating w, Some (VInt n)) \<Rightarrow> Some (int_to_fp E w n)
         | (TFloating w, Some (VFloat d)) \<Rightarrow> Some (fp_round E w d)
         | _ \<Rightarrow> None)"

definition to_pointer :: "'m cxx_env \<Rightarrow> cxx_type \<Rightarrow> 'm cxx_arg \<Rightarrow> ptr option" where
  "to_pointer E Param a =
     (case (case arg_val a of VObj \<Rightarrow> user_conversion E Param a | u \<Rightarrow> Some u) of
        Some (VPtr p) \<Rightarrow> Some p | _ \<Rightarrow> None)"

text \<open>\<open>function_wrapper_specialization_is_possible\<close>: a function of the wrapper's type initializes a
  parameter of type \<open>remove_pointer_t<Param>\<close>.\<close>

fun function_wrapper_specialization_is_possible ::
    "'m cxx_env \<Rightarrow> cxx_type \<Rightarrow> cxx_type \<Rightarrow> bool" where
  "function_wrapper_specialization_is_possible E Param (TWrapper r ps) =
     (case remove_pointer Param of
        TFun r' ps' \<Rightarrow> r' = r \<and> ps' = ps
      | TLRef (TFun r' ps') \<Rightarrow> r' = r \<and> ps' = ps
      | TRRef (TFun r' ps') \<Rightarrow> r' = r \<and> ps' = ps
      | TBool \<Rightarrow> True
      | t \<Rightarrow> is_class t \<and> fun_converts E t (TFun r ps))"
| "function_wrapper_specialization_is_possible E Param _ = False"

subsection \<open>Binding one parameter\<close>

definition set_param_special ::
    "'m cxx_env \<Rightarrow> cxx_type \<Rightarrow> 'm cxx_arg \<Rightarrow> 'm Context \<Rightarrow> 'm Context result" where
  "set_param_special E Param a C =
     (if is_ph (arg_type a) \<noteq> 0 then Inr (setParameterIndex (of_nat (is_ph (arg_type a) - 1)) C)
      else if \<not> function_wrapper_specialization_is_possible E Param (remove_reference (arg_type a))
        then Inl (StaticAssert ''easy::jit composition is not possible. Incompatible types.'')
      else case arg_val a of
             VWrapper (Some F) \<Rightarrow> Inr (setParameterModule F C)
           | VWrapper None \<Rightarrow> Inl UndefinedBehaviour
           | _ \<Rightarrow> Inl NoOverload)"

definition set_param_plain ::
    "'m cxx_env \<Rightarrow> cxx_type \<Rightarrow> 'm cxx_arg \<Rightarrow> 'm Context \<Rightarrow> 'm Context result" where
  "set_param_plain E Param a C =
     (if is_integral Param then
        (case to_integral E Param a of
           Some arg_as_param \<Rightarrow> Inr (setParameterInt (word_of_int arg_as_param) C)
         | None \<Rightarrow> Inl NoOverload)
      else if is_floating_point Param then
        (case to_floating E Param a of
           Some arg_as_param \<Rightarrow> Inr (setParameterFloat arg_as_param C)
         | None \<Rightarrow> Inl NoOverload)
      else if is_pointer Param then
        (case to_pointer E Param a of
           Some arg_as_param \<Rightarrow> Inr (setParameterTypedPointer arg_as_param C)
         | None \<Rightarrow> Inl NoOverload)
      else if is_reference Param then Inl NoOverload
      else if is_class Param then setParameterTypedStruct (arg_bytes a) (length (arg_bytes a)) C
      else Inl NoOverload)"

definition set_param ::
    "'m cxx_env \<Rightarrow> cxx_type \<Rightarrow> 'm cxx_arg \<Rightarrow> 'm Context \<Rightarrow> 'm Context result" where
  "set_param E Param a C =
     (let is_special = (is_ph (arg_type a) \<noteq> 0 \<or> is_function_wrapper (arg_type a))
      in if is_special then set_param_special E Param a C else set_param_plain E Param a C)"

subsection \<open>Options\<close>

fun handle_option :: "'m cxx_value \<Rightarrow> 'm Context \<Rightarrow> 'm Context result" where
  "handle_option (VOptLevel lvl sz) C = Inr (setOptLevel lvl sz C)"
| "handle_option (VDumpIR file) C = Inr (setDebugFile file C)"
| "handle_option _ C = Inl NoOverload"

fun is_const :: "cxx_type \<Rightarrow> bool" where
  "is_const (TConst t) = True"
| "is_const _ = False"

fun set_options :: "'m cxx_arg list \<Rightarrow> 'm Context \<Rightarrow> 'm Context result" where
  "set_options [] C = Inr C"
| "set_options (Opt # Opts) C =
     (if is_const (remove_reference (arg_type Opt)) then Inl NoOverload
      else if \<not> is_option (decay (arg_type Opt))
        then Inl (StaticAssert ''An easy::jit option is expected'')
      else bindR (handle_option (arg_val Opt) C) (set_options Opts))"

fun set_parameters ::
    "'m cxx_env \<Rightarrow> type_list \<Rightarrow> 'm cxx_arg list \<Rightarrow> 'm Context \<Rightarrow> 'm Context result" where
  "set_parameters E [] opts C = set_options opts C"
| "set_parameters E (Param0 # ParametersTail) (arg0 # args) C =
     bindR (set_param E Param0 arg0 C) (set_parameters E ParametersTail args)"
| "set_parameters E (Param0 # ParametersTail) [] C = Inl NoOverload"

subsection \<open>Layouts\<close>

text \<open>
  The identity of a layout is the address of the function \<open>serialize_arg<Arg>\<close>, which the layout pass generates; where
  the instances of the template are loaded is the parameter.
\<close>

definition get_layout :: "(cxx_type \<Rightarrow> ptr) \<Rightarrow> cxx_type \<Rightarrow> ptr" where
  "get_layout serialize_arg Arg = serialize_arg Arg"

definition set_layout :: "(cxx_type \<Rightarrow> ptr) \<Rightarrow> cxx_type \<Rightarrow> 'm Context \<Rightarrow> 'm Context" where
  "set_layout serialize_arg Arg C = setArgumentLayout (get_layout serialize_arg Arg) C"

lemma set_layout_frame:
  "getLayout (set_layout A T C) = getLayout C @ [A T]"
  "ArgumentMapping (set_layout A T C) = ArgumentMapping C"
  "getOptLevel (set_layout A T C) = getOptLevel C"
  by (simp_all add: set_layout_def get_layout_def setArgumentLayout_def getLayout_def getOptLevel_def)

text \<open>Layouts are no part of a key: contexts that differ only in them are equal and have equal hashes.\<close>

lemma layouts_not_compared:
  "Context_eq (set_layout A T C) D \<longleftrightarrow> Context_eq C D"
  "Context_hash H (set_layout A T C) = Context_hash H C"
  by (simp_all add: Context_eq_iff Context_hash_def set_layout_frame)

subsection \<open>The context of a call\<close>

definition FunOriginalTy :: "cxx_type \<Rightarrow> cxx_type" where
  "FunOriginalTy T = remove_pointer (decay T)"

definition get_context_for ::
    "'m cxx_env \<Rightarrow> cxx_type \<Rightarrow> 'm cxx_arg list \<Rightarrow> 'm Context result" where
  "get_context_for E T args =
     (case FunOriginalTy T of
        TFun r parameter_list \<Rightarrow>
          (if \<not> tl_size parameter_list \<le> length args
           then Inl (StaticAssert ''easy::jit: not providing enough argument to actual call'')
           else set_parameters E parameter_list args Context_new)
      | _ \<Rightarrow> Inl (StaticAssert ''easy::jit: supports only on functions and function pointers''))"

definition get_context_for_raw ::
    "'m cxx_env \<Rightarrow> RawBytes \<Rightarrow> cxx_type \<Rightarrow> 'm cxx_arg list \<Rightarrow> 'm Context result" where
  "get_context_for_raw E rawBytes T args =
     (case FunOriginalTy T of
        TFun r parameter_list \<Rightarrow>
          (if \<not> tl_size parameter_list \<le> length args
           then Inl (StaticAssert ''easy::jit: not providing enough argument to actual call'')
           else set_parameters E parameter_list args (setRawBytes rawBytes Context_new))
      | _ \<Rightarrow> Inl (StaticAssert ''easy::jit: supports only on functions and function pointers''))"

definition FuncType :: "cxx_type \<Rightarrow> type_list \<Rightarrow> cxx_type result" where
  "FuncType T Args =
     bindR (new_function_traits (FunOriginalTy T) Args) (\<lambda>(new_return_type, new_parameter_types).
       Inr (TWrapper new_return_type new_parameter_types))"

subsection \<open>Every parameter appends exactly one argument\<close>

definition argument_for :: "'m cxx_env \<Rightarrow> cxx_type \<Rightarrow> 'm cxx_arg \<Rightarrow> 'm Argument result" where
  "argument_for E Param a =
     bindR (set_param E Param a Context_new) (\<lambda>C. Inr (last (ArgumentMapping C)))"

definition opt_level_of :: "'m cxx_arg list \<Rightarrow> uint \<times> uint \<Rightarrow> uint \<times> uint" where
  "opt_level_of opts d =
     fold (\<lambda>a d. case arg_val a of VOptLevel l s \<Rightarrow> (l, s) | _ \<Rightarrow> d) opts d"

definition dump_file_of :: "'m cxx_arg list \<Rightarrow> string \<Rightarrow> string" where
  "dump_file_of opts f = fold (\<lambda>a f. case arg_val a of VDumpIR g \<Rightarrow> g | _ \<Rightarrow> f) opts f"

lemma set_param_frame:
  "set_param E P a C = bindR (argument_for E P a) (\<lambda>x. Inr (setArg x C))"
  unfolding argument_for_def set_param_def set_param_special_def set_param_plain_def Let_def
  by (auto simp: easy_simps Context_new_def split: option.split cxx_value.split)

lemma setArg_many:
  "setArg x C = C\<lparr>ArgumentMapping := ArgumentMapping C @ [x]\<rparr>"
  by (simp add: setArg_def)

lemma set_parameters_split:
  "length PL \<le> length args \<Longrightarrow> set_parameters E PL args C =
     bindR (mapR (\<lambda>(P, a). argument_for E P a) (zip PL args)) (\<lambda>xs.
       set_options (drop (length PL) args) (C\<lparr>ArgumentMapping := ArgumentMapping C @ xs\<rparr>))"
proof (induction PL args arbitrary: C rule: list_induct2')
  case (4 P PL a args)
  then show ?case
    by (auto simp: set_param_frame setArg_many bindR_assoc bindR_def split: sum.split)
qed auto

lemma set_options_frame:
  "set_options opts C = Inr C' \<Longrightarrow>
     ArgumentMapping C' = ArgumentMapping C \<and> CtxRawBytes C' = CtxRawBytes C \<and>
     ArgumentLayout C' = ArgumentLayout C \<and>
     getOptLevel C' = opt_level_of opts (getOptLevel C) \<and>
     DebugFile C' = dump_file_of opts (DebugFile C)"
proof (induction opts arbitrary: C)
  case (Cons a opts)
  then obtain D where D: "handle_option (arg_val a) C = Inr D" "set_options opts D = Inr C'"
    by (auto simp: result_simps split: if_splits)
  from D(1) have "ArgumentMapping D = ArgumentMapping C" "CtxRawBytes D = CtxRawBytes C"
    "ArgumentLayout D = ArgumentLayout C"
    "getOptLevel D = (case arg_val a of VOptLevel l s \<Rightarrow> (l, s) | _ \<Rightarrow> getOptLevel C)"
    "DebugFile D = (case arg_val a of VDumpIR g \<Rightarrow> g | _ \<Rightarrow> DebugFile C)"
    by (cases "arg_val a"; auto simp: easy_simps getOptLevel_def)+
  with Cons.IH [OF D(2)] show ?case
    by (simp add: opt_level_of_def dump_file_of_def)
qed (simp add: opt_level_of_def dump_file_of_def)

lemma set_options_only_options:
  "set_options opts C = Inr C' \<Longrightarrow> \<forall>a \<in> set opts. is_option (decay (arg_type a))"
  by (induction opts arbitrary: C) (auto simp: result_simps split: if_splits)

lemma get_context_for_unfold:
  assumes "FunOriginalTy T = TFun r PL" and "get_context_for E T args = Inr C"
  shows "length PL \<le> length args"
    and "list_all2 (\<lambda>(P, a) x. argument_for E P a = Inr x) (zip PL args) (ArgumentMapping C)"
    and "set_options (drop (length PL) args)
           (Context_new\<lparr>ArgumentMapping := ArgumentMapping C\<rparr>) = Inr C"
proof -
  show le: "length PL \<le> length args"
    using assms by (simp add: get_context_for_def split: if_splits)
  with assms obtain xs where xs: "mapR (\<lambda>(P, a). argument_for E P a) (zip PL args) = Inr xs"
    and opts: "set_options (drop (length PL) args) (Context_new\<lparr>ArgumentMapping := xs\<rparr>) = Inr C"
    by (auto simp: get_context_for_def set_parameters_split result_simps Context_new_def)
  from set_options_frame [OF opts] have "ArgumentMapping C = xs" by simp
  with xs opts show
    "list_all2 (\<lambda>(P, a) x. argument_for E P a = Inr x) (zip PL args) (ArgumentMapping C)"
    "set_options (drop (length PL) args) (Context_new\<lparr>ArgumentMapping := ArgumentMapping C\<rparr>) = Inr C"
    by (auto simp: mapR_Inr_iff case_prod_unfold)
qed

text \<open>
  C26. What \<open>get_context_for\<close> builds: one argument per parameter, in order, the one \<open>set_param\<close> chooses
  for that parameter and that argument alone; the optimization levels and the dump file of the last
  option that sets them, and (2, 0) and no file where none does; no raw bytes and no layouts.
\<close>
theorem get_context_for_spec:
  assumes "FunOriginalTy T = TFun r PL" and "get_context_for E T args = Inr C"
  shows "Context_size C = length PL \<and>
    (\<forall>i<length PL. argument_for E (PL ! i) (args ! i) = Inr (ArgumentMapping C ! i)) \<and>
    getOptLevel C = opt_level_of (drop (length PL) args) (2, 0) \<and>
    DebugFile C = dump_file_of (drop (length PL) args) [] \<and>
    CtxRawBytes C = \<lparr>bytes = [], reserved_regs = []\<rparr> \<and> ArgumentLayout C = []"
proof -
  note parts = get_context_for_unfold [OF assms]
  from parts(2) have "length (zip PL args) = length (ArgumentMapping C)"
    by (rule list_all2_lengthD)
  with parts(1) have len: "length (ArgumentMapping C) = length PL" by simp
  from parts(1,2) have "argument_for E (PL ! i) (args ! i) = Inr (ArgumentMapping C ! i)"
    if "i < length PL" for i
    using that by (auto simp: list_all2_conv_all_nth)
  with set_options_frame [OF parts(3)] len show ?thesis
    by (simp add: Context_size_def Context_new_def getOptLevel_def)
qed

definition example_env :: "unit cxx_env" where
  "example_env = \<lparr>int_to_fp = (\<lambda>w n. 0), fp_round = (\<lambda>w d. d), fp_to_int = (\<lambda>d. 0),
     user_conversion = (\<lambda>t a. None), fun_converts = (\<lambda>t f. False)\<rparr>"

definition int_arg :: "int \<Rightarrow> 'm cxx_arg" where
  "int_arg n = \<lparr>arg_type = TInt 32 True, arg_val = VInt n, arg_bytes = replicate 4 0\<rparr>"

definition ph_arg :: "nat \<Rightarrow> 'm cxx_arg" where
  "ph_arg n = \<lparr>arg_type = TLRef (TConst (TPlaceholder n)), arg_val = VPlaceholder, arg_bytes = [0]\<rparr>"

definition opt_level_arg :: "uint \<Rightarrow> uint \<Rightarrow> 'm cxx_arg" where
  "opt_level_arg l s = \<lparr>arg_type = TRRef TOptLevel, arg_val = VOptLevel l s,
     arg_bytes = replicate 8 0\<rparr>"

lemmas example_arg_defs [easy_simps] =
  int_arg_def ph_arg_def opt_level_arg_def example_env_def

lemmas param_defs [easy_simps] =
  set_param_def set_param_special_def set_param_plain_def to_integral_def to_floating_def
  to_pointer_def is_ph_def decay_def is_function_wrapper_def FunOriginalTy_def

theorem get_context_for_spec_witness:
  "get_context_for example_env (TFun (TInt 32 True) [TInt 32 True, TInt 16 True])
     [ph_arg 1, int_arg (-70000), opt_level_arg 3 1] =
   Inr \<lparr>ArgumentMapping = [ForwardArgument 0, IntArgument (-4464)], OptLevel = 3, OptSize = 1,
     DebugFile = [], ArgumentLayout = [], CtxRawBytes = \<lparr>bytes = [], reserved_regs = []\<rparr>\<rparr> \<and>
   opt_level_of (drop 2 [ph_arg 1, int_arg (-70000), opt_level_arg 3 1 :: unit cxx_arg]) (2, 0) = (3, 1)"
proof -
  let ?T = "TFun (TInt 32 True) [TInt 32 True, TInt 16 True]"
  let ?args = "[ph_arg 1, int_arg (-70000), opt_level_arg 3 1] :: unit cxx_arg list"
  let ?C = "\<lparr>ArgumentMapping = [ForwardArgument 0, IntArgument (-4464)], OptLevel = 3, OptSize = 1,
     DebugFile = [], ArgumentLayout = [], CtxRawBytes = \<lparr>bytes = [], reserved_regs = []\<rparr>\<rparr>"
  have T: "FunOriginalTy ?T = TFun (TInt 32 True) [TInt 32 True, TInt 16 True]"
    by (simp add: easy_simps)
  have C: "get_context_for example_env ?T ?args = Inr ?C"
    by (simp add: get_context_for_def easy_simps Context_new_def wrap_int_def signed_take_bit_eq_take_bit_shift)
  show ?thesis
    using get_context_for_spec [OF T C] C by (simp add: getOptLevel_def)
qed

subsection \<open>Integers keep their bits\<close>

lemma take_bit_wrap_int: "0 < w \<Longrightarrow> take_bit w (wrap_int w s n) = take_bit w n"
  by (auto simp: wrap_int_def take_bit_signed_take_bit)

lemma take_bit_word64: "w \<le> 64 \<Longrightarrow> take_bit w (uint (word_of_int n :: 64 word)) = take_bit w n"
  by (simp add: unsigned_of_int min_absorb1)

lemma wrap_int_range:
  "s \<Longrightarrow> 0 < w \<Longrightarrow> - (2 ^ (w - 1)) \<le> n \<Longrightarrow> n < 2 ^ (w - 1) \<Longrightarrow> wrap_int w s n = n"
  "\<not> s \<Longrightarrow> 0 \<le> n \<Longrightarrow> n < 2 ^ w \<Longrightarrow> wrap_int w s n = n"
  by (auto simp: wrap_int_def signed_take_bit_int_eq_self take_bit_int_eq_self)

lemma argument_for_int:
  assumes "is_ph (arg_type a) = 0" and "\<not> is_function_wrapper (arg_type a)" and "arg_val a = VInt n"
  shows "argument_for E (TInt w s) a = Inr (IntArgument (word_of_int (wrap_int w s n)))"
  using assms
  by (simp add: argument_for_def set_param_def set_param_plain_def to_integral_def Context_set_defs
      Context_new_def)

subsection \<open>Placeholders and the signature agree\<close>

lemma argument_for_placeholder:
  "argument_for E P a = Inr (ForwardArgument k) \<longleftrightarrow>
     is_ph (arg_type a) \<noteq> 0 \<and> k = of_nat (is_ph (arg_type a) - 1)"
  unfolding argument_for_def set_param_def set_param_special_def set_param_plain_def Let_def
  by (auto simp: Context_set_defs Context_new_def split: option.splits cxx_value.splits)

lemma discard_options_args:
  assumes "\<forall>a \<in> set (take n args). \<not> is_option (decay (arg_type a))"
    and "\<forall>a \<in> set (drop n args). is_option (decay (arg_type a))"
  shows "discard_options (map arg_type args) = map arg_type (take n args)"
proof -
  have "discard_options (map arg_type (take n args @ drop n args)) = map arg_type (take n args)"
    unfolding discard_options_filter map_append filter_append
    using assms by (auto simp: filter_map comp_def)
  then show ?thesis by simp
qed

lemma map_placeholder_sound:
  assumes "map_placeholder_to_type PL AL = Inr Q" and "length PL = length AL"
  shows "length Q = max_placeholder AL"
    and "i < length Q \<Longrightarrow> \<exists>j<length AL. is_ph (AL ! j) = Suc i \<and> Q ! i = PL ! j"
proof -
  let ?N = "max_placeholder AL"
  from assms(1) have "mptt_helper PL AL (replicate ?N TVoid) [] ?N (?N = 0) = Inr Q"
    by (simp add: map_placeholder_to_type_def Let_def)
  from mptt_helper_sound [OF this] have len: "length Q = ?N" and nv: "TVoid \<notin> set Q"
    and from': "\<forall>i<?N. Q ! i = replicate ?N TVoid ! i \<or> mptt_from PL AL i (Q ! i)"
    by auto
  show "length Q = ?N" by (rule len)
  assume i: "i < length Q"
  with nv have "Q ! i \<noteq> TVoid" using nth_mem by metis
  with from' i len have "mptt_from PL AL i (Q ! i)" by auto
  then show "\<exists>j<length AL. is_ph (AL ! j) = Suc i \<and> Q ! i = PL ! j"
    using assms(2) by (auto simp: mptt_from_def pl_pos_def tl_at_nth)
qed

lemma forwards_agree:
  assumes "FunOriginalTy T = TFun r PL" and "get_context_for E T args = Inr C"
    and "FuncType T (map arg_type args) = Inr (TWrapper r' Q)"
    and "\<forall>a \<in> set (take (length PL) args). \<not> is_option (decay (arg_type a)) \<and>
           is_ph (arg_type a) < 2 ^ 32"
  shows "unat ` {k. ForwardArgument k \<in> set (ArgumentMapping C)} = {0..<length Q} \<and> r' = r \<and>
    (\<forall>i<length Q. \<exists>j<length PL. ArgumentMapping C ! j = ForwardArgument (of_nat i) \<and> Q ! i = PL ! j)"
proof -
  let ?AL = "map arg_type (take (length PL) args)"
  note parts = get_context_for_unfold [OF assms(1,2)]
  have len: "length (ArgumentMapping C) = length PL" "length ?AL = length PL"
    using parts(1) list_all2_lengthD [OF parts(2)] by auto
  have arg: "argument_for E (PL ! j) (args ! j) = Inr (ArgumentMapping C ! j)" if "j < length PL" for j
    using parts(1,2) that by (auto simp: list_all2_conv_all_nth)
  have "\<forall>a \<in> set (drop (length PL) args). is_option (decay (arg_type a))"
    by (rule set_options_only_options [OF parts(3)])
  then have "discard_options (map arg_type args) = ?AL"
    using assms(4) by (intro discard_options_args) auto
  with assms(1,3) have Q: "map_placeholder_to_type PL ?AL = Inr Q" and r: "r' = r"
    by (auto simp: FuncType_def new_function_traits_def result_simps)
  note sound = map_placeholder_sound [OF Q len(2) [symmetric]]
  have small: "is_ph (?AL ! j) < 2 ^ 32" if "j < length PL" for j
    using assms(4) that parts(1) by (auto simp: set_conv_nth)
  have fwd: "ArgumentMapping C ! j = ForwardArgument k \<longleftrightarrow>
      is_ph (?AL ! j) \<noteq> 0 \<and> k = of_nat (is_ph (?AL ! j) - 1)" if "j < length PL" for j k
    using argument_for_placeholder [of E "PL ! j" "args ! j" k] arg [OF that] that parts(1) by simp
  have onto: "\<exists>j<length PL. ArgumentMapping C ! j = ForwardArgument (of_nat i) \<and> Q ! i = PL ! j"
    if "i < length Q" for i
    using sound(2) [OF that] fwd len(2) by fastforce
  moreover have "unat k < length Q" if "ForwardArgument k \<in> set (ArgumentMapping C)" for k
  proof -
    from that obtain j where j: "j < length PL" "ArgumentMapping C ! j = ForwardArgument k"
      using len(1) by (auto simp: in_set_conv_nth)
    have "is_ph (?AL ! j) \<le> length Q"
      using sound(1) max_placeholder_ge [of "?AL ! j" ?AL] j(1) len(2) nth_mem by metis
    moreover obtain m where m: "is_ph (?AL ! j) = Suc m" "k = of_nat m"
      using fwd [OF j(1), of k] j(2) by (cases "is_ph (?AL ! j)") auto
    moreover have "unat (of_nat m :: uint) = m"
      using small [OF j(1)] m(1) by (simp add: unat_of_nat)
    ultimately show ?thesis by simp
  qed
  moreover have "i \<in> unat ` {k. ForwardArgument k \<in> set (ArgumentMapping C)}" if "i < length Q" for i
  proof -
    from sound(2) [OF that] obtain j where j: "j < length PL" "is_ph (?AL ! j) = Suc i"
      using len(2) by auto
    with fwd [of j "of_nat i"] have "ArgumentMapping C ! j = ForwardArgument (of_nat i)" by simp
    then have "ForwardArgument (of_nat i) \<in> set (ArgumentMapping C)"
      using j(1) len(1) nth_mem [of j "ArgumentMapping C"] by simp
    moreover have "unat (of_nat i :: uint) = i"
      using small [OF j(1)] j(2) by (simp add: unat_of_nat)
    ultimately show ?thesis by (intro rev_image_eqI [where x = "of_nat i"]) auto
  qed
  ultimately show ?thesis using r by auto
qed

text \<open>
  The signature and the context of one call agree: if both are accepted, and no option stands
  among the arguments of the parameters, then the indices the context forwards are exactly the
  positions of the new signature, with no gap, the return type is kept, and each position has the
  type of a parameter that forwards it.
\<close>
lemma frontend_forwards:
  assumes "FunOriginalTy T = TFun r PL" and "get_context_for E T args = Inr C"
    and "FuncType T (map arg_type args) = Inr (TWrapper r' Q)"
    and "\<forall>a \<in> set (take (length PL) args). \<not> is_option (decay (arg_type a)) \<and>
           is_ph (arg_type a) < 2 ^ 32"
  shows "unat ` {k. ForwardArgument k \<in> set (ArgumentMapping C)} = {0..<length Q} \<and> r' = r \<and>
    (\<forall>i<length Q. \<exists>j<length PL. ArgumentMapping C ! j = ForwardArgument (of_nat i) \<and> Q ! i = PL ! j)"
  using assms by (rule forwards_agree)

text \<open>
  What happens without that assumption: for a function of an \<open>int\<close> and a class object, a call that
  passes the placeholder \<open>_1\<close> and an option, and no object, is accepted. The bytes of the option object
  are bound as the class argument, the option itself is not applied, and the signature gives
  \<open>_1\<close> the type of the class while the context forwards it to the \<open>int\<close> parameter.
\<close>
lemma option_bound_as_object:
  "get_context_for example_env (TFun TVoid [TInt 32 True, TClass nm sz]) [ph_arg 1, opt_level_arg l s] =
     Inr (Context_new\<lparr>ArgumentMapping := [ForwardArgument 0, StructArgument (replicate 8 0)]\<rparr>) \<and>
   FuncType (TFun TVoid [TInt 32 True, TClass nm sz])
     (map arg_type [ph_arg 1, opt_level_arg l s :: unit cxx_arg]) = Inr (TWrapper TVoid [TClass nm sz])"
  by (simp add: get_context_for_def easy_simps Context_new_def FuncType_def new_function_traits_def
      map_placeholder_to_type_def max_placeholder_def)

text \<open>
  An argument that is neither a placeholder nor a function wrapper cannot be bound to a parameter
  of reference type: there is no viable \<open>set_param\<close>. A wrapper that is only reachable as a constant,
  as \<open>Cache::jit\<close> returns it, is not recognised as a function wrapper.
\<close>
lemma reference_and_const_wrapper_refused:
  "argument_for E (TLRef t) (int_arg n) = Inl NoOverload \<and>
   argument_for E (TPointer (TFun r ps))
     \<lparr>arg_type = TLRef (TConst (TWrapper r ps)), arg_val = VWrapper (Some F), arg_bytes = bs\<rparr> =
     Inl NoOverload \<and>
   argument_for E (TPointer (TFun r ps))
     \<lparr>arg_type = TLRef (TWrapper r ps), arg_val = VWrapper (Some F), arg_bytes = bs\<rparr> =
     Inr (ModuleArgument F)"
  by (simp add: argument_for_def easy_simps Context_new_def)

end
