(* ===== verification/Easy_Cache.thy ===== *)
theory Easy_Cache
  imports Easy_Param
begin

unbundle bit_operations_syntax

text \<open>
  \<open>include/easy/function_wrapper.h\<close>, the compiling half of \<open>include/easy/jit.h\<close> and
  \<open>include/easy/code_cache.h\<close>.

  A \<open>FunctionWrapperBase\<close> owns a compiled function or nothing (the null object). A cache is an
  \<open>unordered_map\<close> from keys to wrappers; an iterator is the position of its entry, which the
  standard keeps valid while entries are added, and the reference \<open>jit\<close> returns is such a position.
  The cache that results is given together with the outcome, because it also changes when the
  compilation throws. \<open>Compile\<close> stands for \<open>Function::Compile\<close>, modelled in \<open>Easy_Function\<close>.
\<close>

subsection \<open>Wrappers\<close>

record 'm FunctionWrapperBase =
  Fun :: "'m Function option"

definition null_wrapper :: "'m FunctionWrapperBase" where
  "null_wrapper = \<lparr>Fun = None\<rparr>"

definition wrapper_of :: "'m Function \<Rightarrow> 'm FunctionWrapperBase" where
  "wrapper_of F = \<lparr>Fun = Some F\<rparr>"

definition wrapper_move ::
    "'m FunctionWrapperBase \<Rightarrow> 'm FunctionWrapperBase \<times> 'm FunctionWrapperBase" where
  "wrapper_move FW = (\<lparr>Fun = Fun FW\<rparr>, \<lparr>Fun = None\<rparr>)"

definition getFunction :: "'m FunctionWrapperBase \<Rightarrow> 'm Function result" where
  "getFunction FW = (case Fun FW of Some F \<Rightarrow> Inr F | None \<Rightarrow> Inl UndefinedBehaviour)"

definition isValid :: "'m FunctionWrapperBase \<Rightarrow> bool" where
  "isValid FW \<longleftrightarrow> Fun FW \<noteq> None"

definition getRawPointer :: "'m FunctionWrapperBase \<Rightarrow> ptr result" where
  "getRawPointer FW = bindR (getFunction FW) (\<lambda>F. Inr (Address F))"

subsection \<open>Compiling a call\<close>

type_synonym 'm compiler = "ptr \<Rightarrow> 'm Context \<Rightarrow> 'm Function result"

definition jit_with_context ::
    "'m compiler \<Rightarrow> cxx_type \<Rightarrow> type_list \<Rightarrow> 'm Context \<Rightarrow> ptr \<Rightarrow>
     (cxx_type \<times> 'm FunctionWrapperBase) result" where
  "jit_with_context Compile T Args C FunPtr =
     bindR (FuncType T Args) (\<lambda>wrapper_type.
     bindR (Compile FunPtr C) (\<lambda>CompiledFunction.
       Inr (wrapper_type, wrapper_of CompiledFunction)))"

definition jit ::
    "'m cxx_env \<Rightarrow> 'm compiler \<Rightarrow> cxx_type \<Rightarrow> ptr \<Rightarrow> 'm cxx_arg list \<Rightarrow>
     (cxx_type \<times> 'm FunctionWrapperBase) result" where
  "jit E Compile T FunPtr args =
     bindR (get_context_for E T args) (\<lambda>C.
       jit_with_context Compile T (map arg_type args) C FunPtr)"

definition jit_raw ::
    "'m cxx_env \<Rightarrow> 'm compiler \<Rightarrow> RawBytes \<Rightarrow> cxx_type \<Rightarrow> ptr \<Rightarrow> 'm cxx_arg list \<Rightarrow>
     (cxx_type \<times> 'm FunctionWrapperBase) result" where
  "jit_raw E Compile rawBytes T FunPtr args =
     bindR (get_context_for_raw E rawBytes T args) (\<lambda>C.
       jit_with_context Compile T (map arg_type args) C FunPtr)"

subsection \<open>The cache\<close>

type_synonym ('k, 'm) cache = "('k \<times> 'm FunctionWrapperBase) list"

definition cache_emplace ::
    "('k \<Rightarrow> 'k \<Rightarrow> bool) \<Rightarrow> 'k \<Rightarrow> ('k, 'm) cache \<Rightarrow> ('k, 'm) cache \<times> nat \<times> bool" where
  "cache_emplace eq K cache =
     (case um_index eq K cache of
        None \<Rightarrow> (cache @ [(K, null_wrapper)], length cache, True)
      | Some i \<Rightarrow> (cache, i, False))"

definition compile_if_not_in_cache ::
    "(cxx_type \<times> 'm FunctionWrapperBase) result \<Rightarrow> ('k, 'm) cache \<times> nat \<times> bool \<Rightarrow>
     nat result \<times> ('k, 'm) cache" where
  "compile_if_not_in_cache compiled CacheEntry =
     (case CacheEntry of (cache, it, inserted) \<Rightarrow>
        if inserted then
          (case compiled of
             Inl e \<Rightarrow> (Inl e, cache)
           | Inr (wrapper_ty, FW) \<Rightarrow>
               (Inr it, cache[it := (fst (cache ! it), fst (wrapper_move FW))]))
        else (Inr it, cache))"

definition Cache_jit ::
    "('k \<Rightarrow> 'k \<Rightarrow> bool) \<Rightarrow> 'k \<Rightarrow> (cxx_type \<times> 'm FunctionWrapperBase) result \<Rightarrow>
     ('k, 'm) cache \<Rightarrow> nat result \<times> ('k, 'm) cache" where
  "Cache_jit eq K compiled cache = compile_if_not_in_cache compiled (cache_emplace eq K cache)"

definition Cache_has :: "('k \<Rightarrow> 'k \<Rightarrow> bool) \<Rightarrow> 'k \<Rightarrow> ('k, 'm) cache \<Rightarrow> bool" where
  "Cache_has eq K cache \<longleftrightarrow> um_find eq K cache \<noteq> None"

type_synonym 'm AutoKey = "ptr \<times> 'm Context"

definition AutoKey_eq :: "'m AutoKey \<Rightarrow> 'm AutoKey \<Rightarrow> bool" where
  "AutoKey_eq a b \<longleftrightarrow> fst a = fst b \<and> Context_eq (snd a) (snd b)"

definition AutoKey_hash :: "std_hash \<Rightarrow> 'm AutoKey \<Rightarrow> size_t" where
  "AutoKey_hash H k = pair_hash (hash_pointer H) (Context_hash H) k"

definition AutoCache_jit ::
    "'m cxx_env \<Rightarrow> 'm compiler \<Rightarrow> cxx_type \<Rightarrow> ptr \<Rightarrow> 'm cxx_arg list \<Rightarrow>
     ('m AutoKey, 'm) cache \<Rightarrow> nat result \<times> ('m AutoKey, 'm) cache" where
  "AutoCache_jit E Compile T FunPtr args cache =
     (case get_context_for E T args of
        Inl e \<Rightarrow> (Inl e, cache)
      | Inr C \<Rightarrow> Cache_jit AutoKey_eq (FunPtr, C) (jit E Compile T FunPtr args) cache)"

definition AutoCache_has ::
    "'m cxx_env \<Rightarrow> cxx_type \<Rightarrow> ptr \<Rightarrow> 'm cxx_arg list \<Rightarrow> ('m AutoKey, 'm) cache \<Rightarrow> bool result" where
  "AutoCache_has E T FunPtr args cache =
     bindR (get_context_for E T args) (\<lambda>C. Inr (Cache_has AutoKey_eq (FunPtr, C) cache))"

subsection \<open>Laws of the cache\<close>

fun Cache_run ::
    "('k \<Rightarrow> 'k \<Rightarrow> bool) \<Rightarrow> ('k \<times> (cxx_type \<times> 'm FunctionWrapperBase) result) list \<Rightarrow>
     ('k, 'm) cache \<Rightarrow> ('k, 'm) cache" where
  "Cache_run eq [] c = c"
| "Cache_run eq ((K, compiled) # reqs) c = Cache_run eq reqs (snd (Cache_jit eq K compiled c))"

lemma Cache_jit_miss:
  assumes "um_find eq K c = None"
  shows "Cache_jit eq K (Inl e) c = (Inl e, c @ [(K, null_wrapper)])"
    and "Cache_jit eq K (Inr (ty, FW)) c = (Inr (length c), c @ [(K, FW)])"
  using assms by (auto simp: Cache_jit_def cache_emplace_def compile_if_not_in_cache_def
      um_index_None_iff wrapper_move_def split: option.split)

lemma Cache_jit_hit:
  assumes "um_find eq K c = Some w"
  shows "\<exists>i<length c. Cache_jit eq K compiled c = (Inr i, c) \<and> snd (c ! i) = w \<and> eq (fst (c ! i)) K"
proof -
  from assms obtain i where i: "um_index eq K c = Some i" "snd (c ! i) = w"
    by (auto simp: um_find_index)
  then have "i < length c" "eq (fst (c ! i)) K" by (auto simp: um_index_Some)
  with i show ?thesis
    by (intro exI [of _ i]) (simp add: Cache_jit_def cache_emplace_def compile_if_not_in_cache_def)
qed

lemma Cache_jit_cases:
  obtains (hit) w where "um_find eq K c = Some w" "snd (Cache_jit eq K compiled c) = c"
  | (failed) e where "um_find eq K c = None" "compiled = Inl e"
      "snd (Cache_jit eq K compiled c) = c @ [(K, null_wrapper)]"
  | (compiled) ty FW where "um_find eq K c = None" "compiled = Inr (ty, FW)"
      "snd (Cache_jit eq K compiled c) = c @ [(K, FW)]"
proof (cases "um_find eq K c")
  case None
  then show ?thesis
    using failed compiled Cache_jit_miss [OF None] by (cases compiled) auto
next
  case (Some w)
  then show ?thesis using hit Cache_jit_hit [OF Some, of compiled] by auto
qed

locale code_cache = key_equality eq for eq :: "'k \<Rightarrow> 'k \<Rightarrow> bool"
begin

lemma jit_keeps: "um_find eq K c = Some w \<Longrightarrow> um_find eq K (snd (Cache_jit eq K' x c)) = Some w"
  by (rule Cache_jit_cases [of eq K' c x]) (auto simp: um_find_append)

lemma run_keeps: "um_find eq K c = Some w \<Longrightarrow> um_find eq K (Cache_run eq reqs c) = Some w"
  by (induction reqs arbitrary: c) (auto simp: jit_keeps)

lemma jit_keys_apart:
  "um_keys_apart eq c \<Longrightarrow> um_keys_apart eq (snd (Cache_jit eq K x c))"
  by (rule Cache_jit_cases [of eq K c x])
    (auto simp: um_keys_apart_def sorted_wrt_append um_find_None_iff)

lemma run_keys_apart: "um_keys_apart eq c \<Longrightarrow> um_keys_apart eq (Cache_run eq reqs c)"
  by (induction reqs arbitrary: c) (auto simp: jit_keys_apart)

lemma jit_installs:
  "eq K K \<Longrightarrow> um_find eq K c = None \<Longrightarrow>
     um_find eq K (snd (Cache_jit eq K x c)) =
       Some (case x of Inl _ \<Rightarrow> null_wrapper | Inr (_, FW) \<Rightarrow> FW)"
  by (cases x) (auto simp: Cache_jit_miss um_find_append)

lemma later_request:
  assumes "eq K K" and "um_find eq K c = None" and "eq K K'"
    and "c' = Cache_run eq reqs (snd (Cache_jit eq K x c))"
  shows "\<exists>i<length c'. Cache_jit eq K' y c' = (Inr i, c') \<and> Cache_has eq K' c' \<and>
    snd (c' ! i) = (case x of Inl _ \<Rightarrow> null_wrapper | Inr (_, FW) \<Rightarrow> FW)"
proof -
  have "um_find eq K' c' = Some (case x of Inl _ \<Rightarrow> null_wrapper | Inr (_, FW) \<Rightarrow> FW)"
    unfolding assms(4) find_cong [OF assms(3), symmetric]
    by (rule run_keeps) (rule jit_installs [OF assms(1,2)])
  then show ?thesis
    using Cache_jit_hit [of eq K' c'] by (fastforce simp: Cache_has_def)
qed

lemma irreflexive_never_cached:
  "\<not> eq K K \<Longrightarrow> Cache_jit eq K (Inr (ty, FW)) c = (Inr (length c), c @ [(K, FW)]) \<and>
     \<not> Cache_has eq K (c @ [(K, FW)])"
  by (simp add: Cache_jit_miss find_irreflexive Cache_has_def)

end

interpretation AutoKey: code_cache AutoKey_eq
  by unfold_locales
    (auto simp: AutoKey_eq_def intro: Context_key.eq_sym Context_key.eq_trans)

interpretation user_key: code_cache "(=)"
  by unfold_locales auto

lemma AutoKey_refl_iff:
  "AutoKey_eq (p, C) (p, C) \<longleftrightarrow> \<not> list_ex nan_argument (ArgumentMapping C)"
  by (simp add: AutoKey_eq_def Context_eq_refl_iff)

lemma AutoCache_jit_Inr:
  "get_context_for E T args = Inr C \<Longrightarrow>
     AutoCache_jit E Compile T p args c = Cache_jit AutoKey_eq (p, C) (jit E Compile T p args) c"
  by (simp add: AutoCache_jit_def)

text \<open>
  A specialization is compiled once: after a call of \<open>Cache::jit\<close> that compiled a function, and
  whatever other calls follow, each call with the same function and an equal context returns that
  very function, compiles nothing and leaves the cache as it is, and \<open>has\<close> says yes.
\<close>
lemma AutoCache_jit_once:
  assumes "get_context_for E T args = Inr C" and "\<not> list_ex nan_argument (ArgumentMapping C)"
    and "\<not> Cache_has AutoKey_eq (p, C) c" and "jit E Compile T p args = Inr (ty, FW)"
    and "c' = Cache_run AutoKey_eq reqs (snd (AutoCache_jit E Compile T p args c))"
    and "get_context_for E' T' args' = Inr D" and "Context_eq C D"
  shows "\<exists>i<length c'. AutoCache_jit E' Compile' T' p args' c' = (Inr i, c') \<and> snd (c' ! i) = FW \<and>
    AutoCache_has E' T' p args' c' = Inr True"
proof -
  have "AutoKey_eq (p, C) (p, C)" "um_find AutoKey_eq (p, C) c = None" "AutoKey_eq (p, C) (p, D)"
    using assms(2,3,7) by (auto simp: Context_eq_refl_iff Cache_has_def AutoKey_eq_def)
  from AutoKey.later_request [OF this, of c' reqs "Inr (ty, FW)" "jit E' Compile' T' p args'"]
  show ?thesis
    using assms(1,4,5,6) by (auto simp: AutoCache_jit_Inr AutoCache_has_def)
qed

definition example_function :: "unit Function" where
  "example_function = \<lparr>Address = 64, M_ptr = 128, M_obj = ()\<rparr>"

definition example_add :: cxx_type where
  "example_add = TFun (TInt 32 True) [TInt 32 True, TInt 32 True]"

definition example_args :: "unit cxx_arg list" where
  "example_args = [ph_arg 1, int_arg 1]"

definition example_ctx :: "unit Context" where
  "example_ctx = Context_new\<lparr>ArgumentMapping := [ForwardArgument 0, IntArgument 1]\<rparr>"

lemma example_context: "get_context_for example_env example_add example_args = Inr example_ctx"
  by (simp add: example_add_def example_args_def example_ctx_def get_context_for_def easy_simps
      Context_new_def wrap_int_def signed_take_bit_eq_take_bit_shift)

lemma example_no_nan: "\<not> list_ex nan_argument (ArgumentMapping example_ctx)"
  by (simp add: example_ctx_def)

lemma example_FuncType:
  "FuncType example_add (map arg_type example_args) = Inr (TWrapper (TInt 32 True) [TInt 32 True])"
  by (simp add: FuncType_def example_add_def example_args_def new_function_traits_def
      map_placeholder_to_type_def max_placeholder_def easy_simps)

lemma example_jit:
  "jit example_env Compile example_add p example_args =
     bindR (Compile p example_ctx) (\<lambda>F. Inr (TWrapper (TInt 32 True) [TInt 32 True], wrapper_of F))"
  by (simp add: jit_def example_context jit_with_context_def example_FuncType)

definition entry_ok :: "'m compiler \<Rightarrow> 'm AutoKey \<times> 'm FunctionWrapperBase \<Rightarrow> bool" where
  "entry_ok Compile e \<longleftrightarrow>
     (\<forall>F. Fun (snd e) = Some F \<longrightarrow> Compile (fst (fst e)) (snd (fst e)) = Inr F)"

definition cache_ok :: "'m compiler \<Rightarrow> ('m AutoKey, 'm) cache \<Rightarrow> bool" where
  "cache_ok Compile c \<longleftrightarrow> um_keys_apart AutoKey_eq c \<and> (\<forall>e \<in> set c. entry_ok Compile e)"

lemma jit_compiles:
  "get_context_for E T args = Inr C \<Longrightarrow> jit E Compile T p args = Inr (ty, FW) \<Longrightarrow>
     entry_ok Compile ((p, C), FW)"
  by (auto simp: jit_def jit_with_context_def result_simps entry_ok_def wrapper_of_def)

lemma cache_ok_jit:
  assumes "cache_ok Compile c" and "get_context_for E T args = Inr C"
  shows "cache_ok Compile (snd (AutoCache_jit E Compile T p args c))"
proof -
  have "um_keys_apart AutoKey_eq (snd (AutoCache_jit E Compile T p args c))"
    using assms AutoKey.jit_keys_apart by (auto simp: AutoCache_jit_Inr cache_ok_def)
  moreover have "\<forall>e \<in> set (snd (AutoCache_jit E Compile T p args c)). entry_ok Compile e"
    unfolding AutoCache_jit_Inr [OF assms(2)]
  proof (rule Cache_jit_cases [of AutoKey_eq "(p, C)" c "jit E Compile T p args"])
    fix ty FW
    assume "jit E Compile T p args = Inr (ty, FW)"
      and "snd (Cache_jit AutoKey_eq (p, C) (jit E Compile T p args) c) = c @ [((p, C), FW)]"
    with assms(1) jit_compiles [OF assms(2)] show
      "\<forall>e \<in> set (snd (Cache_jit AutoKey_eq (p, C) (jit E Compile T p args) c)). entry_ok Compile e"
      by (auto simp: cache_ok_def)
  qed (use assms(1) in \<open>auto simp: cache_ok_def entry_ok_def null_wrapper_def\<close>)
  ultimately show ?thesis by (simp add: cache_ok_def)
qed

text \<open>
  What the cache holds: every function it stores under a key was compiled from the function
  pointer and the context of that key, at most one entry has a given key, and both are kept by
  \<open>Cache::jit\<close>; so what a call returns was compiled from its function pointer and a context equal
  to its own, or is empty.
\<close>
lemma AutoCache_jit_transparent:
  assumes "cache_ok Compile c" and "get_context_for E T args = Inr C"
    and "\<not> list_ex nan_argument (ArgumentMapping C)"
    and "AutoCache_jit E Compile T p args c = (Inr i, c')"
  shows "cache_ok Compile c' \<and> i < length c' \<and>
    (Fun (snd (c' ! i)) = None \<or>
     (\<exists>D F. Context_eq D C \<and> Compile p D = Inr F \<and> Fun (snd (c' ! i)) = Some F))"
proof -
  have ok: "cache_ok Compile c'"
    using cache_ok_jit [OF assms(1,2), of p] assms(4) by simp
  have eqC: "AutoKey_eq (p, C) (p, C)" using assms(3) by (simp add: AutoKey_refl_iff)
  have run: "Cache_jit AutoKey_eq (p, C) (jit E Compile T p args) c = (Inr i, c')"
    using assms(2,4) by (simp add: AutoCache_jit_Inr)
  have at: "i < length c' \<and> AutoKey_eq (fst (c' ! i)) (p, C)"
  proof (cases "um_find AutoKey_eq (p, C) c")
    case None
    then show ?thesis
      using run eqC by (cases "jit E Compile T p args") (auto simp: Cache_jit_miss)
  next
    case (Some w)
    then show ?thesis using Cache_jit_hit [OF Some, of "jit E Compile T p args"] run by auto
  qed
  obtain q D w where e: "c' ! i = ((q, D), w)" by (metis prod.exhaust)
  with at have "q = p" "Context_eq D C" and "((q, D), w) \<in> set c'"
    using nth_mem [of i c'] by (auto simp: AutoKey_eq_def)
  with ok have "entry_ok Compile ((p, D), w)" by (auto simp: cache_ok_def)
  with ok e at \<open>Context_eq D C\<close> show ?thesis by (cases "Fun w") (auto simp: entry_ok_def)
qed

text \<open>
  C39. A compilation that throws leaves its mark: the entry \<open>emplace\<close> made before the call stays in
  the cache with an empty wrapper. Every later call with an equal context finds it, compiles nothing
  and returns the empty wrapper, \<open>has\<close> says yes, and to call the function is undefined behaviour.
\<close>
theorem AutoCache_jit_poisoned:
  assumes "get_context_for E T args = Inr C" and "\<not> list_ex nan_argument (ArgumentMapping C)"
    and "\<not> Cache_has AutoKey_eq (p, C) c" and "jit E Compile T p args = Inl e"
    and "c' = Cache_run AutoKey_eq reqs (snd (AutoCache_jit E Compile T p args c))"
  shows "fst (AutoCache_jit E Compile T p args c) = Inl e \<and>
    (\<exists>i<length c'. AutoCache_jit E Compile' T p args c' = (Inr i, c') \<and>
      AutoCache_has E T p args c' = Inr True \<and> \<not> isValid (snd (c' ! i)) \<and>
      getRawPointer (snd (c' ! i)) = Inl UndefinedBehaviour)"
proof -
  have key: "AutoKey_eq (p, C) (p, C)" and miss: "um_find AutoKey_eq (p, C) c = None"
    using assms(2,3) by (auto simp: AutoKey_refl_iff Cache_has_def)
  from AutoKey.later_request [OF key miss key, of c' reqs "Inl e" "jit E Compile' T p args"]
  have "\<exists>i<length c'. AutoCache_jit E Compile' T p args c' = (Inr i, c') \<and>
      AutoCache_has E T p args c' = Inr True \<and> snd (c' ! i) = null_wrapper"
    using assms(1,4,5) by (auto simp: AutoCache_jit_Inr AutoCache_has_def)
  moreover have "fst (AutoCache_jit E Compile T p args c) = Inl e"
    using assms(1,4) Cache_jit_miss(1) [OF miss] by (simp add: AutoCache_jit_Inr)
  ultimately show ?thesis
    by (auto simp: isValid_def getRawPointer_def getFunction_def null_wrapper_def)
qed

theorem AutoCache_jit_poisoned_witness:
  "\<exists>i<1. getRawPointer (snd (snd (AutoCache_jit example_env
        (\<lambda>p C. Inl (Exception BitcodeNotRegistered)) example_add 8 example_args []) ! i)) =
      Inl UndefinedBehaviour"
proof -
  let ?Cmp = "\<lambda>p C. Inl (Exception BitcodeNotRegistered) :: unit Function result"
  have jit: "jit example_env ?Cmp example_add 8 example_args = Inl (Exception BitcodeNotRegistered)"
    by (simp add: example_jit)
  have new: "\<not> Cache_has AutoKey_eq (8, example_ctx) []" by (simp add: Cache_has_def)
  have "length (snd (AutoCache_jit example_env ?Cmp example_add 8 example_args [])) = 1"
    by (simp add: AutoCache_jit_Inr [OF example_context] jit Cache_jit_miss)
  with AutoCache_jit_poisoned [OF example_context example_no_nan new jit refl, where reqs = "[]"]
  show ?thesis by auto
qed



end
