(* ===== verification/Easy_Process.thy ===== *)
theory Easy_Process
  imports Easy_Cache Easy_Function
begin

text \<open>
  The library as the threads of one process use it: wrappers over compiled functions
  (\<open>include/easy/function_wrapper.h\<close>), \<open>easy::jit\<close> and \<open>Cache::jit\<close> (\<open>include/easy/jit.h\<close>,
  \<open>include/easy/code_cache.h\<close>) over the real \<open>Function::Compile\<close>, and \<open>deserialize\<close>.

  A \<open>process\<close> has the tracker, the patched virtual table of LLVM (\<open>p_hooked\<close>) and the table of register
  names, which all threads share, one pointer \<open>g_reservedRegs\<close> per thread (it is \<open>thread_local\<close>), and a
  code cache. Each call is one step of the thread that makes it: the code has no locks, so calls of the
  library that overlap are data races and not modelled. A context dies when the call that made it
  returns or throws. A call whose result is undefined or that aborts the process has no successor.
\<close>

subsection \<open>Wrappers over compiled functions\<close>

definition wrapper_serialize :: "llvm_api \<Rightarrow> ir_module FunctionWrapperBase \<Rightarrow> byte list result" where
  "wrapper_serialize L FW = bindR (getFunction FW) (\<lambda>F. Inr (serialize L F))"

definition wrapper_deserialize ::
    "llvm_api \<Rightarrow> jit_host \<Rightarrow> BitcodeTracker \<Rightarrow> byte list \<Rightarrow> runtime \<Rightarrow>
     ir_module FunctionWrapperBase result \<times> runtime" where
  "wrapper_deserialize L J BT is rt =
     (case deserialize L J BT is rt of
        (Inl e, rt') \<Rightarrow> (Inl e, rt')
      | (Inr F, rt') \<Rightarrow> (Inr \<lparr>Fun = F\<rparr>, rt'))"

definition getFunctionPointer :: "'m FunctionWrapperBase \<Rightarrow> ptr result" where
  "getFunctionPointer FW = getRawPointer FW"

definition call_wrapper :: "(ptr \<Rightarrow> 'a list \<Rightarrow> 'r) \<Rightarrow> 'm FunctionWrapperBase \<Rightarrow> 'a list \<Rightarrow> 'r result" where
  "call_wrapper run_code FW args = bindR (getFunctionPointer FW) (\<lambda>f. Inr (run_code f args))"

subsection \<open>A process and its threads\<close>

type_synonym thread = nat

record process =
  tracker :: BitcodeTracker
  p_hooked :: bool
  p_regNameToIdx :: "(string \<times> nat) list"
  thread_regs :: "thread \<Rightarrow> regs_ptr"
  p_cache :: "(ir_module AutoKey, ir_module) cache"

definition process_start :: process where
  "process_start = \<lparr>tracker = TheTracker, p_hooked = False, p_regNameToIdx = [],
     thread_regs = (\<lambda>t. NullRegs), p_cache = []\<rparr>"

definition thread_view :: "thread \<Rightarrow> process \<Rightarrow> runtime" where
  "thread_view t S = \<lparr>hooked = p_hooked S, g_reservedRegs = thread_regs S t, g_regNameToIdx = p_regNameToIdx S\<rparr>"

definition thread_writes :: "thread \<Rightarrow> runtime \<Rightarrow> process \<Rightarrow> process" where
  "thread_writes t rt S = S\<lparr>p_hooked := hooked rt, p_regNameToIdx := g_regNameToIdx rt,
     thread_regs := (thread_regs S)(t := g_reservedRegs rt)\<rparr>"

definition process_load :: "registration list \<Rightarrow> process \<Rightarrow> process" where
  "process_load rs S = S\<lparr>tracker := run_registrations rs (tracker S)\<rparr>"

definition process_compiler :: "llvm_api \<Rightarrow> jit_host \<Rightarrow> thread \<Rightarrow> process \<Rightarrow> ir_module compiler" where
  "process_compiler L J t S = (\<lambda>p C. fst (Compile L J (tracker S) p C (thread_view t S)))"

definition after_compile :: "llvm_api \<Rightarrow> jit_host \<Rightarrow> thread \<Rightarrow> ptr \<Rightarrow> ir_module Context \<Rightarrow> process \<Rightarrow> process" where
  "after_compile L J t p C S =
     thread_writes t (context_destroyed (snd (Compile L J (tracker S) p C (thread_view t S)))) S"

definition process_jit_with_context ::
    "llvm_api \<Rightarrow> jit_host \<Rightarrow> thread \<Rightarrow> cxx_type \<Rightarrow> type_list \<Rightarrow> ir_module Context \<Rightarrow> ptr \<Rightarrow> process \<Rightarrow>
     (cxx_type \<times> ir_module FunctionWrapperBase) result \<times> process" where
  "process_jit_with_context L J t T As C FunPtr S =
     (case FuncType T As of
        Inl e \<Rightarrow> (Inl e, S)
      | Inr _ \<Rightarrow> (jit_with_context (process_compiler L J t S) T As C FunPtr, after_compile L J t FunPtr C S))"

definition process_jit ::
    "ir_module cxx_env \<Rightarrow> llvm_api \<Rightarrow> jit_host \<Rightarrow> thread \<Rightarrow> cxx_type \<Rightarrow> ptr \<Rightarrow> ir_module cxx_arg list \<Rightarrow> process \<Rightarrow>
     (cxx_type \<times> ir_module FunctionWrapperBase) result \<times> process" where
  "process_jit E L J t T FunPtr args S =
     (case get_context_for E T args of
        Inl e \<Rightarrow> (Inl e, S)
      | Inr C \<Rightarrow> process_jit_with_context L J t T (map arg_type args) C FunPtr S)"

definition process_jit_raw ::
    "ir_module cxx_env \<Rightarrow> llvm_api \<Rightarrow> jit_host \<Rightarrow> thread \<Rightarrow> RawBytes \<Rightarrow> cxx_type \<Rightarrow> ptr \<Rightarrow>
     ir_module cxx_arg list \<Rightarrow> process \<Rightarrow> (cxx_type \<times> ir_module FunctionWrapperBase) result \<times> process" where
  "process_jit_raw E L J t rawBytes T FunPtr args S =
     (case get_context_for_raw E rawBytes T args of
        Inl e \<Rightarrow> (Inl e, S)
      | Inr C \<Rightarrow> process_jit_with_context L J t T (map arg_type args) C FunPtr S)"

definition process_cached_jit ::
    "ir_module cxx_env \<Rightarrow> llvm_api \<Rightarrow> jit_host \<Rightarrow> thread \<Rightarrow> cxx_type \<Rightarrow> ptr \<Rightarrow> ir_module cxx_arg list \<Rightarrow> process \<Rightarrow>
     nat result \<times> process" where
  "process_cached_jit E L J t T FunPtr args S =
     (case get_context_for E T args of
        Inl e \<Rightarrow> (Inl e, S)
      | Inr C \<Rightarrow>
          (case cache_emplace AutoKey_eq (FunPtr, C) (p_cache S) of (cache, it, inserted) \<Rightarrow>
             (case (if inserted then process_jit E L J t T FunPtr args S else (Inl AssertionFailure, S)) of
                (compiled, S1) \<Rightarrow>
                  (case compile_if_not_in_cache compiled (cache, it, inserted) of
                     (r, cache') \<Rightarrow> (r, S1\<lparr>p_cache := cache'\<rparr>)))))"

definition process_deserialize ::
    "llvm_api \<Rightarrow> jit_host \<Rightarrow> thread \<Rightarrow> byte list \<Rightarrow> process \<Rightarrow>
     ir_module FunctionWrapperBase result \<times> process" where
  "process_deserialize L J t is S =
     (case wrapper_deserialize L J (tracker S) is (thread_view t S) of
        (r, rt) \<Rightarrow> (r, thread_writes t rt S))"

fun continues :: "'a result \<Rightarrow> bool" where
  "continues (Inr x) \<longleftrightarrow> True"
| "continues (Inl (Exception e)) \<longleftrightarrow> True"
| "continues (Inl _) \<longleftrightarrow> False"

inductive process_step :: "ir_module cxx_env \<Rightarrow> llvm_api \<Rightarrow> jit_host \<Rightarrow> process \<Rightarrow> process \<Rightarrow> bool" for E L J where
  load: "process_step E L J S (process_load rs S)"
| jit: "process_jit E L J t T p args S = (r, S') \<Longrightarrow> continues r \<Longrightarrow> process_step E L J S S'"
| jit_raw: "process_jit_raw E L J t raw T p args S = (r, S') \<Longrightarrow> continues r \<Longrightarrow> process_step E L J S S'"
| cached_jit: "process_cached_jit E L J t T p args S = (r, S') \<Longrightarrow> continues r \<Longrightarrow> process_step E L J S S'"
| deserialize: "process_deserialize L J t buf S = (r, S') \<Longrightarrow> continues r \<Longrightarrow> process_step E L J S S'"

definition reachable :: "ir_module cxx_env \<Rightarrow> llvm_api \<Rightarrow> jit_host \<Rightarrow> process \<Rightarrow> bool" where
  "reachable E L J S \<longleftrightarrow> (process_step E L J)\<^sup>*\<^sup>* process_start S"

subsection \<open>What every call keeps\<close>

definition process_ok :: "process \<Rightarrow> bool" where
  "process_ok S \<longleftrightarrow> tracker_ok (tracker S) \<and> (\<forall>t regs. thread_regs S t \<noteq> LiveRegs regs) \<and>
     (\<not> p_hooked S \<longrightarrow> (\<forall>t. thread_regs S t = NullRegs))"

definition process_extends :: "process \<Rightarrow> process \<Rightarrow> bool" where
  "process_extends S S' \<longleftrightarrow> (p_hooked S \<longrightarrow> p_hooked S') \<and>
     (\<exists>rs. tracker S' = run_registrations rs (tracker S)) \<and> (\<exists>new. p_cache S' = p_cache S @ new)"

lemma process_extends_refl [simp]: "process_extends S S"
  by (auto simp: process_extends_def intro: exI [of _ "[]"] simp: run_registrations_def)

lemma process_extends_trans:
  "process_extends S S' \<Longrightarrow> process_extends S' S'' \<Longrightarrow> process_extends S S''"
  by (auto simp: process_extends_def run_registrations_append [symmetric])

locale process_call =
  fixes call :: "process \<Rightarrow> 'r \<times> process"
  assumes call_ok: "process_ok S \<Longrightarrow> process_ok (snd (call S))"
    and call_extends: "process_extends S (snd (call S))"
begin

lemma call_keeps_hook: "p_hooked S \<Longrightarrow> p_hooked (snd (call S))"
  using call_extends [of S] by (simp add: process_extends_def)

lemma call_keeps_entry: "i < length (p_cache S) \<Longrightarrow> p_cache (snd (call S)) ! i = p_cache S ! i"
  using call_extends [of S] by (auto simp: process_extends_def nth_append)

lemma call_sound: "process_ok S \<Longrightarrow> call S = (r, S') \<Longrightarrow> process_ok S' \<and> process_extends S S'"
  using call_ok [of S] call_extends [of S] by simp

end

lemma Hook_frame:
  "Hook_getReservedRegs M N rt = (r, rt') \<Longrightarrow>
     g_reservedRegs rt' = g_reservedRegs rt \<and> (hooked rt \<longrightarrow> hooked rt') \<and> (r = Inr () \<longrightarrow> hooked rt')"
  by (auto simp: Hook_getReservedRegs_def split: if_splits option.splits)

lemma Optimize_frame:
  "Optimize L J BT N C l s M rt = (r, rt') \<Longrightarrow>
     g_reservedRegs rt' = g_reservedRegs rt \<and> (hooked rt \<longrightarrow> hooked rt') \<and> (\<forall>M'. r = Inr M' \<longrightarrow> hooked rt')"
  by (auto simp: Optimize_def split: if_splits prod.splits sum.splits dest!: Hook_frame)

lemma CompileAndWrap_frame:
  "CompileAndWrap J N Gs M rt = (r, rt') \<Longrightarrow> g_reservedRegs rt' = g_reservedRegs rt \<and> hooked rt' = hooked rt"
  by (auto simp: CompileAndWrap_def getReservedRegs_def Hooked_getReservedRegs_def Let_def
      split: if_splits prod.splits sum.splits regs_ptr.splits)

lemma Compile_frame:
  "Compile L J BT p C rt = (r, rt') \<Longrightarrow> (hooked rt \<longrightarrow> hooked rt') \<and>
     (g_reservedRegs rt' = g_reservedRegs rt \<or> hooked rt' \<and> (\<exists>regs. g_reservedRegs rt' = LiveRegs regs))"
  by (auto simp: Compile_def split: prod.splits sum.splits dest!: Optimize_frame CompileAndWrap_frame)

lemma deserialize_frame:
  "wrapper_deserialize L J BT buf rt = (r, rt') \<Longrightarrow> g_reservedRegs rt' = g_reservedRegs rt \<and> hooked rt' = hooked rt"
  by (auto simp: wrapper_deserialize_def deserialize_def split: option.splits prod.splits sum.splits
      dest!: CompileAndWrap_frame)

lemma thread_view_simps [simp]:
  "hooked (thread_view t S) = p_hooked S" "g_reservedRegs (thread_view t S) = thread_regs S t"
  "g_regNameToIdx (thread_view t S) = p_regNameToIdx S"
  by (simp_all add: thread_view_def)

lemmas process_simps = thread_writes_def process_ok_def process_extends_def

lemma extends_same_tracker [simp]: "\<exists>rs. BT = run_registrations rs BT"
  by (rule exI [of _ "[]"]) (simp add: run_registrations_def)

lemma after_compile_sound:
  "process_extends S (after_compile L J t p C S) \<and> p_cache (after_compile L J t p C S) = p_cache S"
  "process_ok S \<Longrightarrow> process_ok (after_compile L J t p C S)"
proof -
  obtain r rt' where c: "Compile L J (tracker S) p C (thread_view t S) = (r, rt')" by fastforce
  note f = Compile_frame [OF c]
  show "process_extends S (after_compile L J t p C S) \<and> p_cache (after_compile L J t p C S) = p_cache S"
    using f by (auto simp: after_compile_def c process_simps context_destroyed_def split: regs_ptr.splits)
  show "process_ok S \<Longrightarrow> process_ok (after_compile L J t p C S)"
    using f by (auto simp: after_compile_def c process_simps context_destroyed_def split: regs_ptr.splits)
qed

interpretation load_call: process_call "\<lambda>S. ((), process_load rs S)" for rs
  by unfold_locales (auto simp: process_load_def process_ok_def process_extends_def tracker_ok_run)

interpretation jit_call: process_call "process_jit E L J t T p args" for E L J t T p args
  by unfold_locales (simp_all add: process_jit_def process_jit_with_context_def after_compile_sound split: sum.split)

interpretation jit_raw_call: process_call "process_jit_raw E L J t raw T p args" for E L J t raw T p args
  by unfold_locales (simp_all add: process_jit_raw_def process_jit_with_context_def after_compile_sound split: sum.split)

interpretation deserialize_call: process_call "process_deserialize L J t buf" for L J t buf
proof unfold_locales
  fix S
  obtain r rt' where d: "wrapper_deserialize L J (tracker S) buf (thread_view t S) = (r, rt')" by fastforce
  note f = deserialize_frame [OF d]
  show "process_ok S \<Longrightarrow> process_ok (snd (process_deserialize L J t buf S))"
    using f by (auto simp: process_deserialize_def d process_simps)
  show "process_extends S (snd (process_deserialize L J t buf S))"
    using f by (auto simp: process_deserialize_def d process_simps)
qed

subsection \<open>The cache over the real compiler\<close>

lemma process_jit_result:
  "fst (process_jit E L J t T p args S) = jit E (process_compiler L J t S) T p args"
  by (auto simp: process_jit_def jit_def process_jit_with_context_def jit_with_context_def result_simps
      split: sum.split)

lemma process_jit_cache: "p_cache (snd (process_jit E L J t T p args S)) = p_cache S"
  by (simp add: process_jit_def process_jit_with_context_def after_compile_sound split: sum.split)

text \<open>
  The cached call is the one of \<open>Easy_Cache\<close> with the compiler of the thread; a request that is found
  changes nothing.
\<close>

lemma process_cached_jit_refines:
  "fst (process_cached_jit E L J t T p args S) = fst (AutoCache_jit E (process_compiler L J t S) T p args (p_cache S))"
  "p_cache (snd (process_cached_jit E L J t T p args S)) =
     snd (AutoCache_jit E (process_compiler L J t S) T p args (p_cache S))"
  by (auto simp: process_cached_jit_def AutoCache_jit_def Cache_jit_def cache_emplace_def
      compile_if_not_in_cache_def process_jit_result [symmetric] split: sum.splits option.splits prod.splits)

lemma Cache_jit_extends: "\<exists>new. snd (Cache_jit eq K x c) = c @ new"
  by (rule Cache_jit_cases [of eq K c x]) simp_all

interpretation cached_jit_call: process_call "process_cached_jit E L J t T p args" for E L J t T p args
proof unfold_locales
  fix S
  let ?S' = "snd (process_cached_jit E L J t T p args S)"
  have call: "p_hooked ?S' = p_hooked S \<and> tracker ?S' = tracker S \<and> thread_regs ?S' = thread_regs S \<or>
      p_hooked ?S' = p_hooked (snd (process_jit E L J t T p args S)) \<and>
      tracker ?S' = tracker (snd (process_jit E L J t T p args S)) \<and>
      thread_regs ?S' = thread_regs (snd (process_jit E L J t T p args S))"
    by (auto simp: process_cached_jit_def split: sum.splits prod.splits)
  show "process_ok S \<Longrightarrow> process_ok ?S'"
    using call jit_call.call_ok [of S E L J t T p args] by (auto simp: process_ok_def)
  have "\<exists>new. p_cache ?S' = p_cache S @ new"
    unfolding process_cached_jit_refines
    by (cases "get_context_for E T args") (simp_all add: AutoCache_jit_def Cache_jit_extends)
  then show "process_extends S ?S'"
    using call jit_call.call_extends [of S E L J t T p args] by (auto simp: process_extends_def)
qed

lemma process_step_sound:
  assumes "process_step E L J S S'"
  shows "process_extends S S' \<and> (process_ok S \<longrightarrow> process_ok S')"
  using assms
proof cases
  case (load rs)
  then show ?thesis using load_call.call_ok [of S rs] load_call.call_extends [of S rs] by simp
next
  case (jit t T p args r)
  then show ?thesis using jit_call.call_ok [of S E L J t T p args] jit_call.call_extends [of S E L J t T p args] by simp
next
  case (jit_raw t raw T p args r)
  then show ?thesis
    using jit_raw_call.call_ok [of S E L J t raw T p args] jit_raw_call.call_extends [of S E L J t raw T p args] by simp
next
  case (cached_jit t T p args r)
  then show ?thesis
    using cached_jit_call.call_ok [of S E L J t T p args] cached_jit_call.call_extends [of S E L J t T p args] by simp
next
  case (deserialize t buf r)
  then show ?thesis
    using deserialize_call.call_ok [of S L J t buf] deserialize_call.call_extends [of S L J t buf] by simp
qed

lemma process_steps_extend:
  "(process_step E L J)\<^sup>*\<^sup>* S S' \<Longrightarrow> process_extends S S' \<and> (process_ok S \<longrightarrow> process_ok S')"
proof (induction rule: rtranclp_induct)
  case (step y z)
  then show ?case using process_step_sound [OF step.hyps(2)] process_extends_trans by blast
qed simp

lemma process_start_ok: "process_ok process_start"
  by (simp add: process_ok_def process_start_def tracker_ok_start)

lemma reachable_ok: "reachable E L J S \<Longrightarrow> process_ok S"
  using process_steps_extend process_start_ok unfolding reachable_def by blast

subsection \<open>Invariants of a process\<close>

definition compiled_earlier ::
    "ir_module cxx_env \<Rightarrow> llvm_api \<Rightarrow> jit_host \<Rightarrow> process \<Rightarrow> ir_module AutoKey \<times> ir_module FunctionWrapperBase \<Rightarrow> bool" where
  "compiled_earlier E L J S e \<longleftrightarrow>
     (\<exists>S0 t. reachable E L J S0 \<and> process_extends S0 S \<and> entry_ok (process_compiler L J t S0) e)"

lemma compiled_earlier_mono:
  "compiled_earlier E L J S e \<Longrightarrow> process_extends S S' \<Longrightarrow> compiled_earlier E L J S' e"
  using process_extends_trans unfolding compiled_earlier_def by blast

lemma cached_jit_entries:
  assumes "e \<in> set (p_cache (snd (process_cached_jit E L J t T p args S)))"
  shows "e \<in> set (p_cache S) \<or> entry_ok (process_compiler L J t S) e"
proof (cases "get_context_for E T args")
  case (Inl x)
  then show ?thesis using assms by (simp add: process_cached_jit_def)
next
  case (Inr C)
  let ?x = "jit E (process_compiler L J t S) T p args"
  have "e \<in> set (snd (Cache_jit AutoKey_eq (p, C) ?x (p_cache S)))"
    using assms by (simp add: process_cached_jit_refines AutoCache_jit_Inr [OF Inr])
  then show ?thesis
    using jit_compiles [OF Inr] by (cases rule: Cache_jit_cases [of AutoKey_eq "(p, C)" "p_cache S" ?x])
      (auto simp: entry_ok_def null_wrapper_def)
qed

lemma step_cache:
  assumes "process_step E L J S S'"
  shows "p_cache S' = p_cache S \<or>
    (\<exists>t T p args. p_cache S' = p_cache (snd (process_cached_jit E L J t T p args S)))"
  using assms
proof cases
  case (jit t T p args r)
  then show ?thesis using process_jit_cache [of E L J t T p args S] by simp
next
  case (jit_raw t raw T p args r)
  then show ?thesis
    by (auto simp: process_jit_raw_def process_jit_with_context_def after_compile_sound split: sum.splits)
next
  case (cached_jit t T p args r)
  then show ?thesis by (metis snd_conv)
qed (auto simp: process_load_def process_deserialize_def thread_writes_def split: prod.splits)

lemma cached_jit_keys_apart:
  "um_keys_apart AutoKey_eq (p_cache S) \<Longrightarrow>
     um_keys_apart AutoKey_eq (p_cache (snd (process_cached_jit E L J t T p args S)))"
  by (cases "get_context_for E T args")
    (simp_all add: process_cached_jit_refines AutoCache_jit_def AutoKey.jit_keys_apart)

lemma reachable_cache:
  assumes "reachable E L J S"
  shows "um_keys_apart AutoKey_eq (p_cache S) \<and> (\<forall>e \<in> set (p_cache S). compiled_earlier E L J S e)"
  using assms unfolding reachable_def
proof (induction rule: rtranclp_induct)
  case base
  show ?case by (simp add: process_start_def um_keys_apart_def)
next
  case (step S S')
  have "process_extends S S'" using process_step_sound [OF step.hyps(2)] by simp
  then have old: "compiled_earlier E L J S' e" if "e \<in> set (p_cache S)" for e
    using step.IH that compiled_earlier_mono by blast
  have new: "compiled_earlier E L J S' e" if "entry_ok (process_compiler L J t S) e" for t e
    using that step.hyps(1) \<open>process_extends S S'\<close> unfolding compiled_earlier_def reachable_def by blast
  from step_cache [OF step.hyps(2)] show ?case
    using step.IH old new cached_jit_keys_apart cached_jit_entries by metis
qed

text \<open>
  C13. What holds between any two calls of any threads, whatever they compiled, cached, read or loaded
  before: the tracker is well formed, no thread's register list points to a live context, no key is
  in the cache twice, and each compiled function in the cache is what \<open>Function::Compile\<close> returned, at some earlier
  point of the run, for the function pointer and the context of its key.
\<close>
theorem process_invariant:
  assumes "reachable E L J S"
  shows "tracker_ok (tracker S) \<and> (\<forall>t regs. thread_regs S t \<noteq> LiveRegs regs) \<and>
    um_keys_apart AutoKey_eq (p_cache S) \<and>
    (\<forall>p C FW F. ((p, C), FW) \<in> set (p_cache S) \<longrightarrow> Fun FW = Some F \<longrightarrow>
      (\<exists>S0 t. reachable E L J S0 \<and> process_extends S0 S \<and>
         fst (Compile L J (tracker S0) p C (thread_view t S0)) = Inr F))"
proof -
  have "\<exists>S0 t. reachable E L J S0 \<and> process_extends S0 S \<and>
         fst (Compile L J (tracker S0) p C (thread_view t S0)) = Inr F"
    if "((p, C), FW) \<in> set (p_cache S)" "Fun FW = Some F" for p C FW F
    using reachable_cache [OF assms] that
    by (fastforce simp: compiled_earlier_def entry_ok_def process_compiler_def)
  with reachable_ok [OF assms] reachable_cache [OF assms] show ?thesis by (simp add: process_ok_def)
qed

definition sample_env :: "ir_module cxx_env" where
  "sample_env = \<lparr>int_to_fp = (\<lambda>w n. 0), fp_round = (\<lambda>w d. d), fp_to_int = (\<lambda>d. 0),
     user_conversion = (\<lambda>t a. None), fun_converts = (\<lambda>t f. False)\<rparr>"

definition sample_type :: cxx_type where
  "sample_type = TFun (TInt 32 True) [TInt 32 True, TInt 8 True, TFloating 64]"

definition sample_args :: "ir_module cxx_arg list" where
  "sample_args = [ph_arg 2, int_arg 7, ph_arg 1]"

lemma sample_call:
  "FunOriginalTy sample_type = TFun (TInt 32 True) [TInt 32 True, TInt 8 True, TFloating 64]"
  "get_context_for sample_env sample_type sample_args = Inr sample_context"
  "FuncType sample_type (map arg_type sample_args) = Inr (TWrapper (TInt 32 True) [TFloating 64, TInt 32 True])"
  "HighLevelLayout_new sample_fun = Inr (layout_of sample_fun)"
  by (simp_all add: sample_type_def sample_args_def sample_env_def sample_context_def get_context_for_def
      easy_simps Context_new_def wrap_int_def signed_take_bit_eq_take_bit_shift FuncType_def
      new_function_traits_def map_placeholder_to_type_def max_placeholder_def numeral_2_eq_2
      HighLevelLayout_new_eq sample_fun_def hasStructRetAttr_def)

definition sample_process :: process where
  "sample_process = process_load [easy_register 64 ''f'' (Some [\<lparr>gm_Name = Some ''g'', gm_Address = 32\<rparr>,
     \<lparr>gm_Name = None, gm_Address = 0\<rparr>]) [222] 1] process_start"

lemma sample_process_tracker: "tracker sample_process = sample_tracker"
  by (simp add: sample_process_def process_load_def process_start_def sample_tracker_def
      run_registrations_def)

lemma sample_process_reachable: "reachable E L J sample_process"
  unfolding reachable_def sample_process_def by (rule r_into_rtranclp) (rule process_step.load)

lemma sample_compiles:
  "\<exists>F. fst (Compile sample_reader sample_host (tracker sample_process) 64 sample_context (thread_view t sample_process)) = Inr F \<and>
     Address F = 4096"
  using compile_scalar_result [OF sample_compile_facts, of "thread_view t sample_process"]
  by (fastforce simp: sample_process_tracker sample_host_def)

lemma sample_jit:
  "\<exists>F. process_jit sample_env sample_reader sample_host t sample_type 64 sample_args sample_process =
     (Inr (TWrapper (TInt 32 True) [TFloating 64, TInt 32 True], wrapper_of F),
      after_compile sample_reader sample_host t 64 sample_context sample_process) \<and> Address F = 4096"
  using sample_compiles [of t]
  by (auto simp: process_jit_def sample_call process_jit_with_context_def jit_with_context_def process_compiler_def)

lemma sample_cached_jit:
  "\<exists>F S. process_cached_jit sample_env sample_reader sample_host t sample_type 64 sample_args sample_process = (Inr 0, S) \<and>
     p_cache S = [((64, sample_context), wrapper_of F)] \<and> Address F = 4096"
proof -
  have "p_cache sample_process = []" by (simp add: sample_process_def process_load_def process_start_def)
  with sample_jit [of t] show ?thesis
    by (auto simp: process_cached_jit_def sample_call cache_emplace_def compile_if_not_in_cache_def wrapper_move_def wrapper_of_def)
qed

theorem process_invariant_witness:
  "\<exists>F S S0 t. process_cached_jit sample_env sample_reader sample_host 0 sample_type 64 sample_args sample_process = (Inr 0, S) \<and>
     p_cache S = [((64, sample_context), wrapper_of F)] \<and>
     fst (Compile sample_reader sample_host (tracker S0) 64 sample_context (thread_view t S0)) = Inr F"
proof -
  obtain F S where c: "process_cached_jit sample_env sample_reader sample_host 0 sample_type 64 sample_args sample_process = (Inr 0, S)"
      "p_cache S = [((64, sample_context), wrapper_of F)]" using sample_cached_jit by blast
  have "process_step sample_env sample_reader sample_host sample_process S"
    using c(1) by (rule process_step.cached_jit) simp
  then have "reachable sample_env sample_reader sample_host S"
    using sample_process_reachable unfolding reachable_def by (meson rtranclp.rtrancl_into_rtrancl)
  from process_invariant [OF this] c show ?thesis by (fastforce simp: wrapper_of_def)
qed

lemma jit_hooks:
  assumes "process_jit E L J t T p args S = (Inr w, S')"
  shows "p_hooked S'"
proof -
  from assms obtain C F rt where "Compile L J (tracker S) p C (thread_view t S) = (Inr F, rt)"
      and S': "S' = thread_writes t (context_destroyed rt) S"
    by (auto simp: process_jit_def process_jit_with_context_def jit_with_context_def process_compiler_def
        after_compile_def result_simps split: sum.splits) (metis prod.collapse snd_conv)
  with Compile_leaves show ?thesis
    by (fastforce simp: thread_writes_def context_destroyed_def split: regs_ptr.splits)
qed



subsection \<open>One compilation per specialization\<close>

lemma process_cached_jit_hit:
  assumes "get_context_for E T args = Inr D" and "um_index AutoKey_eq (p, D) (p_cache S) = Some i"
  shows "process_cached_jit E L J t T p args S = (Inr i, S)"
  using assms by (simp add: process_cached_jit_def cache_emplace_def compile_if_not_in_cache_def)

lemma process_cached_jit_miss:
  assumes "get_context_for E T args = Inr C" and "\<not> Cache_has AutoKey_eq (p, C) (p_cache S)"
    and "process_cached_jit E L J t T p args S = (Inr i, S')"
  shows "\<exists>F. process_compiler L J t S p C = Inr F \<and> i = length (p_cache S) \<and>
    p_cache S' = p_cache S @ [((p, C), wrapper_of F)]"
proof -
  let ?x = "jit E (process_compiler L J t S) T p args"
  have miss: "um_find AutoKey_eq (p, C) (p_cache S) = None" using assms(2) by (simp add: Cache_has_def)
  have run: "Cache_jit AutoKey_eq (p, C) ?x (p_cache S) = (Inr i, p_cache S')"
    using process_cached_jit_refines [of E L J t T p args S] assms(3)
    by (simp add: AutoCache_jit_Inr [OF assms(1)] prod_eq_iff)
  then obtain ty FW where x: "?x = Inr (ty, FW)" using Cache_jit_miss(1) [OF miss] by (cases ?x) auto
  then have "i = length (p_cache S)" "p_cache S' = p_cache S @ [((p, C), FW)]"
    using run Cache_jit_miss(2) [OF miss] by auto
  moreover obtain F where "process_compiler L J t S p C = Inr F" "FW = wrapper_of F"
    using x assms(1) by (auto simp: jit_def jit_with_context_def result_simps)
  ultimately show ?thesis by blast
qed

text \<open>
  C12. One compilation per specialization in the whole process: when \<open>Cache::jit\<close> has compiled a function for a
  key that was not in the cache, then after any further calls of any threads, a request by any thread
  with the same function pointer and an equal context returns that same cache entry, still holding what
  \<open>Function::Compile\<close> returned for the first request, changes nothing in the process, and to call it runs
  the code at the address of that function.
\<close>
theorem process_jit_once:
  assumes "get_context_for E T args = Inr C" and "\<not> Cache_has AutoKey_eq (p, C) (p_cache S)"
    and "process_cached_jit E L J t T p args S = (Inr i, S1)" and "(process_step E L J)\<^sup>*\<^sup>* S1 S2"
    and "get_context_for E T' args' = Inr D" and "Context_eq C D"
  shows "\<exists>F. fst (Compile L J (tracker S) p C (thread_view t S)) = Inr F \<and>
    process_cached_jit E L J u T' p args' S2 = (Inr i, S2) \<and>
    p_cache S2 ! i = ((p, C), wrapper_of F) \<and>
    call_wrapper run_code (snd (p_cache S2 ! i)) xs = Inr (run_code (Address F) xs)"
proof -
  obtain F where F: "process_compiler L J t S p C = Inr F" "i = length (p_cache S)"
      "p_cache S1 = p_cache S @ [((p, C), wrapper_of F)]"
    using process_cached_jit_miss [OF assms(1-3)] by blast
  obtain new where new: "p_cache S2 = p_cache S @ ((p, C), wrapper_of F) # new"
    using process_steps_extend [OF assms(4)] F(3) by (auto simp: process_extends_def)
  have eq: "AutoKey_eq (p, C) (p, D)" using assms(6) by (simp add: AutoKey_eq_def)
  then have "um_index AutoKey_eq (p, D) (p_cache S) = None"
    using assms(2) unfolding Cache_has_def AutoKey.find_cong [OF eq] by (simp add: um_index_None_iff)
  then have "um_index AutoKey_eq (p, D) (p_cache S2) = Some i"
    unfolding new using eq F(2) by (simp add: um_index_append)
  from process_cached_jit_hit [OF assms(5) this] F(1,2) new show ?thesis
    by (simp add: process_compiler_def call_wrapper_def getFunctionPointer_def getRawPointer_def getFunction_def
        wrapper_of_def)
qed

theorem process_jit_once_witness:
  "\<exists>S1 F. process_cached_jit sample_env sample_reader sample_host 0 sample_type 64 sample_args sample_process = (Inr 0, S1) \<and>
     process_cached_jit sample_env sample_reader sample_host 1 sample_type 64 sample_args (process_load [] S1) =
       (Inr 0, process_load [] S1) \<and>
     call_wrapper (\<lambda>f xs. (f, xs)) (snd (p_cache (process_load [] S1) ! 0)) [(3::nat)] = Inr (Address (F :: ir_module Function), [3])"
proof -
  obtain S1 where c: "process_cached_jit sample_env sample_reader sample_host 0 sample_type 64 sample_args sample_process = (Inr 0, S1)"
    using sample_cached_jit by blast
  have eq: "Context_eq sample_context sample_context" by (simp add: Context_eq_refl_iff sample_context_def)
  have new: "\<not> Cache_has AutoKey_eq (64, sample_context) (p_cache sample_process)"
    by (simp add: Cache_has_def sample_process_def process_load_def process_start_def)
  have step: "(process_step sample_env sample_reader sample_host)\<^sup>*\<^sup>* S1 (process_load [] S1)"
    by (rule r_into_rtranclp) (rule process_step.load)
  from process_jit_once [OF sample_call(2) new c step sample_call(2) eq, of 1 "\<lambda>f xs. (f, xs)" "[3 :: nat]"] c
  show ?thesis by blast
qed

subsection \<open>The type of a cached wrapper\<close>

lemma Context_eq_forward:
  assumes "Context_eq C D" and "j < length (ArgumentMapping C)"
  shows "ArgumentMapping C ! j = ForwardArgument k \<longleftrightarrow> ArgumentMapping D ! j = ForwardArgument k"
proof -
  have "compareWithSameType (ArgumentMapping C ! j) (ArgumentMapping D ! j)"
    using assms by (simp add: Context_eq_iff list_all2_conv_all_nth Argument_eq_compare)
  then show ?thesis by (cases "ArgumentMapping C ! j"; cases "ArgumentMapping D ! j") auto
qed

lemma Context_eq_forwards:
  assumes "Context_eq C D"
  shows "ForwardArgument k \<in> set (ArgumentMapping C) \<longleftrightarrow> ForwardArgument k \<in> set (ArgumentMapping D)"
proof -
  have "length (ArgumentMapping C) = length (ArgumentMapping D)"
    using assms by (auto simp: Context_eq_iff dest: list_all2_lengthD)
  then show ?thesis using Context_eq_forward [OF assms] by (auto simp: in_set_conv_nth)
qed

text \<open>
  C14. The cast of \<open>compile_if_not_in_cache\<close> to the wrapper type of the request is sound: two requests for one
  function whose contexts are equal, with no option among the arguments of the parameters and with each
  placeholder bound once (no other context compiles), have one wrapper type, so the entry that
  the first request compiled is read at the type at which it was written.
\<close>
theorem cached_wrapper_type:
  assumes "FunOriginalTy T = TFun r PL" and "Context_eq C D" and "forwards_once (ArgumentMapping C)"
    and "get_context_for E T args = Inr C" and "FuncType T (map arg_type args) = Inr (TWrapper q Q)"
    and "\<forall>a \<in> set (take (length PL) args). \<not> is_option (decay (arg_type a)) \<and> is_ph (arg_type a) < 2 ^ 32"
    and "get_context_for E T args' = Inr D" and "FuncType T (map arg_type args') = Inr (TWrapper q' Q')"
    and "\<forall>a \<in> set (take (length PL) args'). \<not> is_option (decay (arg_type a)) \<and> is_ph (arg_type a) < 2 ^ 32"
  shows "TWrapper q Q = TWrapper q' Q'"
proof -
  note first = forwards_agree [OF assms(1,4,5,6)] and second = forwards_agree [OF assms(1,7,8,9)]
  have len: "length (ArgumentMapping C) = length PL"
    using get_context_for_unfold [OF assms(1,4)] list_all2_lengthD by fastforce
  have "{0..<length Q} = {0..<length Q'}"
    using first second unfolding Context_eq_forwards [OF assms(2)] by simp
  then have n: "length Q = length Q'" by (metis card_atLeastLessThan diff_zero)
  have "Q ! i = Q' ! i" if "i < length Q" for i
  proof -
    from first that obtain j where j: "j < length PL" "ArgumentMapping C ! j = ForwardArgument (of_nat i)" "Q ! i = PL ! j"
      by blast
    from second that n obtain j' where j': "j' < length PL" "ArgumentMapping D ! j' = ForwardArgument (of_nat i)" "Q' ! i = PL ! j'"
      by auto
    from j' len Context_eq_forward [OF assms(2)] have "ArgumentMapping C ! j' = ForwardArgument (of_nat i)" by simp
    with j j' len assms(3) have "j = j'" unfolding forwards_once_def by (metis option.inject)
    with j j' show ?thesis by simp
  qed
  with n first second show ?thesis by (simp add: nth_equalityI)
qed

theorem cached_wrapper_type_witness:
  "FuncType sample_type (map arg_type [ph_arg 2, int_arg 263, ph_arg 1 :: ir_module cxx_arg]) =
     Inr (TWrapper (TInt 32 True) [TFloating 64, TInt 32 True])"
proof -
  let ?args = "[ph_arg 2, int_arg 263, ph_arg 1 :: ir_module cxx_arg]"
  have eq: "Context_eq sample_context sample_context" by (simp add: Context_eq_refl_iff sample_context_def)
  have once: "forwards_once (ArgumentMapping sample_context)"
    using sample_scalar_context by (simp add: scalar_context_def)
  have ok: "\<forall>a \<in> set (take (length [TInt 32 True, TInt 8 True, TFloating 64]) sample_args).
      \<not> is_option (decay (arg_type a)) \<and> is_ph (arg_type a) < 2 ^ 32"
    "\<forall>a \<in> set (take (length [TInt 32 True, TInt 8 True, TFloating 64]) ?args).
      \<not> is_option (decay (arg_type a)) \<and> is_ph (arg_type a) < 2 ^ 32"
    by (simp_all add: sample_args_def easy_simps)
  have ctx: "get_context_for sample_env sample_type ?args = Inr sample_context"
    by (simp add: sample_type_def sample_env_def sample_context_def get_context_for_def
      easy_simps Context_new_def wrap_int_def signed_take_bit_eq_take_bit_shift)
  obtain q' Q' where W: "FuncType sample_type (map arg_type ?args) = Inr (TWrapper q' Q')"
    by (simp add: sample_type_def easy_simps FuncType_def new_function_traits_def map_placeholder_to_type_def
        max_placeholder_def numeral_2_eq_2)
  from cached_wrapper_type [OF sample_call(1) eq once sample_call(2,3) ok(1) ctx W ok(2)] W show ?thesis by metis
qed

end
