(* ===== verification/Easy_Semantics.thy ===== *)
theory Easy_Semantics
  imports Easy_Process
begin

text \<open>
  What a specialized function computes. The specification is the C++ call itself: \<open>easy::jit(f, args...)\<close> called
  with \<open>vs\<close> is \<open>f\<close> called with each placeholder replaced by the value it stands for and with every other argument
  converted to its parameter's type (\<open>direct_argument\<close>). The theorem relates it to the machine code that the
  library returns for a call whose arguments are scalars.

  Values are machine values: integers modulo their width, floating-point values as the bits of the double that
  equals them, addresses. \<open>run_body\<close> interprets the bodies that the pass builds (a call and a return); \<open>sem\<close> is what
  the other functions compute, from their body and their arguments. \<open>fp_value\<close> is the value of a
  floating-point constant of a type and \<open>symbol_address\<close> the address of a global symbol. The meaning of a module
  that the standard passes may have rewritten is the parameter \<open>behaviour\<close>, the execution of the machine code the
  parameter \<open>run\<close>.
\<close>

datatype mval = MInt int | MFP "64 word" | MPtr ptr | MVoid

record ir_env =
  fp_value :: "llvm_type \<Rightarrow> 64 word \<Rightarrow> 64 word"
  symbol_address :: "nat \<Rightarrow> ptr"

subsection \<open>The meaning of a wrapper\<close>

fun const_value :: "ir_env \<Rightarrow> ir_constant \<Rightarrow> mval option" where
  "const_value env (ConstantInt (IntegerTy w) v s) = Some (MInt (take_bit w (if s then sint v else uint v)))"
| "const_value env (ConstantFP T (DLit d)) = Some (MFP (fp_value env T d))"
| "const_value env (ConstantPointerNull T) = Some (MPtr 0)"
| "const_value env (IntToPtr (ConstantInt T v s) P) = Some (MPtr v)"
| "const_value env (PointerCast c T) = const_value env c"
| "const_value env (GlobalRef g) = Some (MPtr (symbol_address env g))"
| "const_value env _ = None"

fun operand_value :: "ir_env \<Rightarrow> mval list \<Rightarrow> ir_value \<Rightarrow> mval option" where
  "operand_value env vs (ArgVal i) = (if i < length vs then Some (vs ! i) else None)"
| "operand_value env vs (ConstVal c) = const_value env c"
| "operand_value env vs _ = None"

fun run_body ::
    "ir_env \<Rightarrow> (nat \<Rightarrow> mval list \<Rightarrow> mval option) \<Rightarrow> mval list \<Rightarrow> mval option \<Rightarrow> instr list \<Rightarrow> mval option" where
  "run_body env callee vs res (CallInst (DirectCall g) ops # body) =
     Option.bind (those (map (operand_value env vs) ops)) (\<lambda>xs.
     Option.bind (callee g xs) (\<lambda>y. run_body env callee vs (Some y) body))"
| "run_body env callee vs res (RetVoid # body) = Some MVoid"
| "run_body env callee vs res (RetCall # body) = res"
| "run_body env callee vs res _ = None"

definition callee_meaning ::
    "(instr list option \<Rightarrow> mval list \<Rightarrow> mval) \<Rightarrow> ir_module \<Rightarrow> nat \<Rightarrow> mval list \<Rightarrow> mval option" where
  "callee_meaning sem M g xs = map_option (\<lambda>f. sem (fun_body f) xs) (function_at M g)"

definition run_named ::
    "ir_env \<Rightarrow> (instr list option \<Rightarrow> mval list \<Rightarrow> mval) \<Rightarrow> ir_module \<Rightarrow> string \<Rightarrow> mval list \<Rightarrow> mval option" where
  "run_named env sem M Name vs =
     Option.bind (getFunction_named M Name) (\<lambda>W.
     Option.bind (function_at M W) (\<lambda>w.
     Option.bind (fun_body w) (run_body env (callee_meaning sem M) vs None)))"

subsection \<open>The specification: the direct call\<close>

fun converted :: "'m cxx_env \<Rightarrow> cxx_type \<Rightarrow> 'm cxx_value \<Rightarrow> mval option" where
  "converted E (TInt w s) (VInt n) = Some (MInt (take_bit w n))"
| "converted E (TInt w s) (VFloat d) = Some (MInt (take_bit w (fp_to_int E d)))"
| "converted E TBool (VInt n) = Some (MInt (of_bool (n \<noteq> 0)))"
| "converted E TBool (VFloat d) = Some (MInt (of_bool (double_magnitude d \<noteq> 0)))"
| "converted E TBool (VPtr p) = Some (MInt (of_bool (p \<noteq> 0)))"
| "converted E (TFloating w) (VInt n) = Some (MFP (int_to_fp E w n))"
| "converted E (TFloating w) (VFloat d) = Some (MFP (fp_round E w d))"
| "converted E (TPointer t) (VPtr p) = Some (MPtr p)"
| "converted E _ _ = None"

definition direct_argument :: "'m cxx_env \<Rightarrow> mval list \<Rightarrow> cxx_type \<Rightarrow> 'm cxx_arg \<Rightarrow> mval option" where
  "direct_argument E vs P a =
     (case is_ph (arg_type a) of
        0 \<Rightarrow> converted E P (arg_val a)
      | Suc k \<Rightarrow> if k < length vs then Some (vs ! k) else None)"

definition direct_arguments :: "'m cxx_env \<Rightarrow> mval list \<Rightarrow> type_list \<Rightarrow> 'm cxx_arg list \<Rightarrow> mval list option" where
  "direct_arguments E vs PL args = those (map2 (direct_argument E vs) PL args)"

text \<open>
  The calls the theorem covers: parameters of arithmetic and pointer type as the C++ ABI lowers them, arguments
  that are values of such types and not objects of a class, each placeholder once, and no pointer to a
  function whose bitcode is registered.
\<close>

fun lowers :: "cxx_type \<Rightarrow> llvm_type \<Rightarrow> bool" where
  "lowers TBool T \<longleftrightarrow> T = IntegerTy 1"
| "lowers (TInt w s) T \<longleftrightarrow> T = IntegerTy w \<and> 0 < w \<and> w \<le> 64"
| "lowers (TFloating w) T \<longleftrightarrow> w = 32 \<and> T = FloatTy \<or> w = 64 \<and> T = DoubleTy"
| "lowers (TPointer t) T \<longleftrightarrow> isPointerTy T"
| "lowers _ T \<longleftrightarrow> False"

definition scalar_argument :: "BitcodeTracker \<Rightarrow> 'm cxx_arg \<Rightarrow> bool" where
  "scalar_argument BT a \<longleftrightarrow> \<not> is_option (decay (arg_type a)) \<and> is_ph (arg_type a) < 2 ^ 32 \<and>
     \<not> is_function_wrapper (arg_type a) \<and> arg_val a \<noteq> VObj \<and>
     (\<forall>p. arg_val a = VPtr p \<longrightarrow> \<not> hasGlobalMapping BT p)"

definition placeholders_once :: "'m cxx_arg list \<Rightarrow> bool" where
  "placeholders_once args \<longleftrightarrow> distinct (filter (\<lambda>k. k \<noteq> 0) (map (is_ph \<circ> arg_type) args))"

definition fp_faithful :: "'m cxx_env \<Rightarrow> ir_env \<Rightarrow> bool" where
  "fp_faithful E env \<longleftrightarrow> (\<forall>d. fp_value env DoubleTy d = d) \<and>
     (\<forall>d. fp_value env FloatTy (fp_round E 32 d) = fp_round E 32 d) \<and>
     (\<forall>n. fp_value env FloatTy (int_to_fp E 32 n) = int_to_fp E 32 n)"

definition interprets ::
    "ir_env \<Rightarrow> (instr list option \<Rightarrow> mval list \<Rightarrow> mval) \<Rightarrow> (ir_module \<Rightarrow> string \<Rightarrow> mval list \<Rightarrow> mval option) \<Rightarrow> bool" where
  "interprets env sem behaviour \<longleftrightarrow>
     (\<forall>M Name vs y. run_named env sem M Name vs = Some y \<longrightarrow> behaviour M Name vs = Some y)"

definition passes_preserve :: "jit_host \<Rightarrow> (ir_module \<Rightarrow> string \<Rightarrow> mval list \<Rightarrow> mval option) \<Rightarrow> bool" where
  "passes_preserve J behaviour \<longleftrightarrow>
     (\<forall>lvl sz M Name vs y. behaviour M Name vs = Some y \<longrightarrow> behaviour (standard_passes J lvl sz M) Name vs = Some y)"

definition code_implements ::
    "(ir_module \<Rightarrow> string \<Rightarrow> mval list \<Rightarrow> mval option) \<Rightarrow> (ptr \<Rightarrow> mval list \<Rightarrow> mval) \<Rightarrow> string \<Rightarrow> ir_module Function \<Rightarrow> bool" where
  "code_implements behaviour run Name F \<longleftrightarrow>
     (\<forall>vs y. behaviour (M_obj F) Name vs = Some y \<longrightarrow> run (Address F) vs = y)"

subsection \<open>One argument\<close>

lemma take_bit_sint_word64: "w \<le> 64 \<Longrightarrow> take_bit w (sint (word_of_int n :: 64 word)) = take_bit w n"
  by (simp add: signed_of_int take_bit_signed_take_bit)

lemma scalar_argument_correct:
  assumes "argument_for E P a = Inr x" and "lowers P T" and "scalar_argument BT a" and "fp_faithful E env"
    and "is_ph (arg_type a) \<le> length vs"
  shows "scalar_ok BT T x \<and> operand_value env vs (scalar_operand T x) = direct_argument E vs P a \<and>
    direct_argument E vs P a \<noteq> None"
proof (cases "is_ph (arg_type a)")
  case (Suc k)
  then have x: "x = ForwardArgument (of_nat k)"
    using assms(1) argument_for_placeholder [of E P a "of_nat k"] by simp
  have k: "Suc k < 2 ^ 32" using assms(3) Suc by (simp add: scalar_argument_def)
  then have "unat (of_nat k :: uint) = k" by (simp add: unat_of_nat)
  moreover have "of_nat k \<noteq> (-1 :: uint)"
  proof
    assume "of_nat k = (-1 :: uint)"
    then have "unat (of_nat k :: uint) = 2 ^ 32 - 1" by (simp add: unsigned_minus_1_eq_mask mask_eq_exp_minus_1)
    with \<open>unat (of_nat k :: uint) = k\<close> k show False by simp
  qed
  ultimately show ?thesis using x Suc assms(5) by (simp add: direct_argument_def)
next
  case 0
  show ?thesis
    using assms 0
    by (cases P; cases "arg_val a")
      (auto simp: argument_for_def set_param_def scalar_argument_def set_param_plain_def to_integral_def
        to_floating_def to_pointer_def Context_set_defs Context_new_def direct_argument_def fp_faithful_def
        take_bit_sint_word64 take_bit_wrap_int)
qed

subsection \<open>The context of a scalar call\<close>

lemma accepted_call_forwards:
  assumes fwd: "unat ` {k. ForwardArgument k \<in> set C} = {0..<n}"
    and bound: "\<forall>a \<in> set C. \<forall>k. as_Forward a = Some k \<longrightarrow> unat k < NNewArgs C"
  shows "gapless C \<and> NNewArgs C = n"
proof -
  have mem: "as_Forward a = Some k \<Longrightarrow> a \<in> set C \<Longrightarrow> ForwardArgument k \<in> set C" for a k
    by (cases a) auto
  have "p < n" if p: "p < NNewArgs C" for p
  proof -
    from NNewArgs_least [OF p] obtain k where "ForwardArgument k \<in> set C" "p \<le> unat k"
      using mem by blast
    moreover from this(1) fwd have "unat k \<in> {0..<n}" by blast
    ultimately show ?thesis by simp
  qed
  moreover have p: "p < NNewArgs C \<and> first_forward C p \<noteq> None" if "p < n" for p
  proof -
    from that fwd have "p \<in> unat ` {k. ForwardArgument k \<in> set C}" by simp
    then obtain k where k: "ForwardArgument k \<in> set C" "p = unat k" by blast
    then have "\<exists>x \<in> set C. forwards p x" by (intro bexI [of _ "ForwardArgument k"]) simp_all
    then have "first_forward C p \<noteq> None" by (simp add: first_forward_def first_index_None)
    with k bound show ?thesis by fastforce
  qed
  ultimately show ?thesis by (metis gapless_def linorder_neqE_nat less_irrefl)
qed

lemma distinct_filter_nth:
  assumes "distinct (filter (\<lambda>k. k \<noteq> 0) xs)" and "i < j" and "j < length xs" and "xs ! i = xs ! j"
  shows "xs ! i = (0 :: nat)"
proof (rule ccontr)
  assume nz: "xs ! i \<noteq> 0"
  have "xs = take j xs @ drop j xs" by simp
  moreover have "xs ! j \<in> set (take j xs)"
    using assms(2-4) by (auto simp: in_set_conv_nth intro!: exI [of _ i])
  moreover have "xs ! j \<in> set (drop j xs)" using assms(3) by (simp add: Cons_nth_drop_Suc [symmetric])
  ultimately have "xs ! j \<in> set (filter (\<lambda>k. k \<noteq> 0) (take j xs)) \<inter> set (filter (\<lambda>k. k \<noteq> 0) (drop j xs))"
    using nz assms(4) by simp
  moreover have "distinct (filter (\<lambda>k. k \<noteq> 0) (take j xs) @ filter (\<lambda>k. k \<noteq> 0) (drop j xs))"
    using assms(1) by (simp flip: filter_append)
  ultimately show False by (simp only: distinct_append) blast
qed

text \<open>The arguments of a call whose placeholders are all different forward each of them once.\<close>

lemma call_forwards_once:
  assumes ph: "\<And>i k. i < length C \<Longrightarrow> C ! i = ForwardArgument k \<longleftrightarrow> ps ! i \<noteq> 0 \<and> k = of_nat (ps ! i - 1)"
    and small: "\<forall>i<length C. ps ! i < 2 ^ 32" and len: "length ps = length C"
    and once: "distinct (filter (\<lambda>k. k \<noteq> 0) ps)" and gap: "gapless C"
    and bound: "\<forall>a \<in> set C. \<forall>k. as_Forward a = Some k \<longrightarrow> unat k < NNewArgs C"
  shows "forwards_once C"
  unfolding forwards_once_def
proof (intro allI impI)
  fix i k assume i: "i < length C" "C ! i = ForwardArgument k"
  then have "unat k < NNewArgs C" using bound by (metis as_Forward.simps(1) nth_mem)
  with gap obtain j where j: "first_forward C (unat k) = Some j" by (auto simp: gapless_def)
  from first_forward_Some [OF j] obtain k' where "j < length C" "C ! j = ForwardArgument k'" "unat k' = unat k" by blast
  then have j': "j < length C" "C ! j = ForwardArgument k" by (simp_all add: word_unat_eq_iff)
  have val: "ps ! l = Suc (unat k)" if "l < length C" "C ! l = ForwardArgument k" for l
  proof -
    have "ps ! l \<noteq> 0" "k = of_nat (ps ! l - 1)" using ph [OF that(1)] that(2) by blast+
    moreover have "unat (of_nat (ps ! l - 1) :: uint) = ps ! l - 1"
      using small that(1) by (simp add: unat_of_nat less_imp_diff_less)
    ultimately show ?thesis by simp
  qed
  have "i = j"
  proof (rule linorder_cases)
    assume "i < j"
    with distinct_filter_nth [OF once, of i j] val [OF i] val [OF j'] j' len show ?thesis by simp
  next
    assume "j < i"
    with distinct_filter_nth [OF once, of j i] val [OF i] val [OF j'] i len show ?thesis by simp
  qed
  with j show "first_forward C (unat k) = Some i" by simp
qed

lemma those_None_iff: "those xs = None \<longleftrightarrow> None \<in> set xs"
  by (induction xs) (auto split: option.splits)

definition scalar_call ::
    "'m cxx_env \<Rightarrow> BitcodeTracker \<Rightarrow> cxx_type \<Rightarrow> 'm cxx_arg list \<Rightarrow> type_list \<Rightarrow> type_list \<Rightarrow> ir_function \<Rightarrow> bool" where
  "scalar_call E BT T args PL Q Fn \<longleftrightarrow>
     (\<exists>r r'. FunOriginalTy T = TFun r PL \<and> FuncType T (map arg_type args) = Inr (TWrapper r' Q)) \<and>
     (\<forall>a \<in> set (take (length PL) args). scalar_argument BT a) \<and> placeholders_once (take (length PL) args) \<and>
     list_all2 lowers PL (fun_params Fn) \<and> PL \<noteq> [] \<and> \<not> hasStructRetAttr Fn"

lemma scalar_call_facts:
  fixes C :: "'m Context"
  assumes call: "scalar_call E BT T args PL Q Fn" and C: "get_context_for E T args = Inr C"
  defines "ps \<equiv> map (is_ph \<circ> arg_type) (take (length PL) args)"
  shows "length (ArgumentMapping C) = length PL \<and> length (fun_params Fn) = length PL \<and> length PL \<le> length args"
    and "unat ` {k. ForwardArgument k \<in> set (ArgumentMapping C)} = {0..<length Q}"
    and "i < length PL \<Longrightarrow> argument_for E (PL ! i) (args ! i) = Inr (ArgumentMapping C ! i)"
    and "i < length PL \<Longrightarrow> lowers (PL ! i) (fun_params Fn ! i) \<and> scalar_argument BT (args ! i)"
    and "i < length PL \<Longrightarrow> ArgumentMapping C ! i = ForwardArgument k \<longleftrightarrow> ps ! i \<noteq> 0 \<and> k = of_nat (ps ! i - 1)"
    and "i < length PL \<Longrightarrow> is_ph (arg_type (args ! i)) < 2 ^ 32 \<and> is_ph (arg_type (args ! i)) \<le> length Q"
proof -
  obtain r r' where T: "FunOriginalTy T = TFun r PL" and W: "FuncType T (map arg_type args) = Inr (TWrapper r' Q)"
      and args: "\<forall>a \<in> set (take (length PL) args). scalar_argument BT a" and F: "list_all2 lowers PL (fun_params Fn)"
    using call unfolding scalar_call_def by blast
  note parts = get_context_for_unfold [OF T C]
  show len: "length (ArgumentMapping C) = length PL \<and> length (fun_params Fn) = length PL \<and> length PL \<le> length args"
    using parts(1) list_all2_lengthD [OF parts(2)] list_all2_lengthD [OF F] by auto
  have "\<forall>a \<in> set (take (length PL) args). \<not> is_option (decay (arg_type a)) \<and> is_ph (arg_type a) < 2 ^ 32"
    using args by (simp add: scalar_argument_def)
  from forwards_agree [OF T C W this]
  show fwd: "unat ` {k. ForwardArgument k \<in> set (ArgumentMapping C)} = {0..<length Q}" by blast
  assume i: "i < length PL"
  show arg: "argument_for E (PL ! i) (args ! i) = Inr (ArgumentMapping C ! i)"
    using parts(1,2) i by (auto simp: list_all2_conv_all_nth)
  show lo: "lowers (PL ! i) (fun_params Fn ! i) \<and> scalar_argument BT (args ! i)"
    using args F i parts(1) by (auto simp: set_conv_nth list_all2_conv_all_nth)
  show ph: "ArgumentMapping C ! i = ForwardArgument k \<longleftrightarrow> ps ! i \<noteq> 0 \<and> k = of_nat (ps ! i - 1)" for k
    using argument_for_placeholder [of E "PL ! i" "args ! i" k] arg i parts(1) by (simp add: ps_def)
  have small: "is_ph (arg_type (args ! i)) < 2 ^ 32" using lo by (simp add: scalar_argument_def)
  show "is_ph (arg_type (args ! i)) < 2 ^ 32 \<and> is_ph (arg_type (args ! i)) \<le> length Q"
  proof (cases "is_ph (arg_type (args ! i))")
    case (Suc m)
    then have "unat (of_nat m :: uint) = m" using small by (simp add: unat_of_nat)
    moreover have "ArgumentMapping C ! i = ForwardArgument (of_nat m)"
      using ph [of "of_nat m"] Suc i parts(1) by (simp add: ps_def)
    then have "ForwardArgument (of_nat m) \<in> set (ArgumentMapping C)" using i len by (metis nth_mem)
    then have "unat (of_nat m :: uint) \<in> {0..<length Q}" using fwd by blast
    ultimately show ?thesis using Suc small by simp
  qed simp
qed

lemma scalar_call_context:
  fixes C :: "'m Context"
  assumes call: "scalar_call E BT T args PL Q Fn" and C: "get_context_for E T args = Inr C"
    and env: "fp_faithful E env" and vs: "length vs = length Q"
  shows "scalar_context BT Fn (ArgumentMapping C) \<and>
    map (operand_value env vs) (map2 scalar_operand (fun_params Fn) (ArgumentMapping C)) = map2 (direct_argument E vs) PL args \<and>
    direct_arguments E vs PL args \<noteq> None"
proof -
  let ?C = "ArgumentMapping C" and ?ps = "map (is_ph \<circ> arg_type) (take (length PL) args)"
  note facts = scalar_call_facts [OF call C]
  have each: "scalar_ok BT (fun_params Fn ! i) (?C ! i) \<and>
      operand_value env vs (scalar_operand (fun_params Fn ! i) (?C ! i)) = direct_argument E vs (PL ! i) (args ! i) \<and>
      direct_argument E vs (PL ! i) (args ! i) \<noteq> None" if i: "i < length PL" for i
    using facts(3,4,6) [OF i] by (intro scalar_argument_correct [OF _ _ _ env]) (simp_all add: vs)
  then have ok: "list_all2 (scalar_ok BT) (fun_params Fn) ?C"
    using facts(1) by (simp add: list_all2_conv_all_nth)
  have bound: "unat k < NNewArgs ?C" if a: "a \<in> set ?C" "as_Forward a = Some k" for a k
  proof (rule NNewArgs_bound [OF a])
    from a(2) have "a = ForwardArgument k" by (cases a) simp_all
    then show "k \<noteq> - 1" using ok a(1) by (auto simp: list_all2_conv_all_nth in_set_conv_nth)
  qed
  then have gap: "gapless ?C" using accepted_call_forwards [of ?C "length Q"] facts(2) by blast
  have "forwards_once ?C"
    using facts(1,5,6) bound call
    by (intro call_forwards_once [OF _ _ _ _ gap, where ps = ?ps]) (simp_all add: scalar_call_def placeholders_once_def)
  moreover have "map (operand_value env vs) (map2 scalar_operand (fun_params Fn) ?C) = map2 (direct_argument E vs) PL args"
    using each facts(1) by (intro nth_equalityI) simp_all
  moreover have "None \<notin> set (map2 (direct_argument E vs) PL args)"
    using each facts(1) by (fastforce simp: set_conv_nth)
  moreover have "fun_params Fn \<noteq> []" "\<not> hasStructRetAttr Fn"
    using call facts(1) by (auto simp: scalar_call_def)
  ultimately show ?thesis using ok gap by (simp add: scalar_context_def direct_arguments_def those_None_iff)
qed

subsection \<open>The compiled function computes the direct call\<close>

definition stub_free :: "ir_function \<Rightarrow> bool" where
  "stub_free f \<longleftrightarrow> (\<forall>IA args. CallInst (AsmCall IA) args \<in> set (case fun_body f of None \<Rightarrow> [] | Some body \<Rightarrow> body) \<longrightarrow>
     asm_string IA \<noteq> placeholder_asm)"

definition registered_function ::
    "llvm_api \<Rightarrow> BitcodeTracker \<Rightarrow> ptr \<Rightarrow> FunctionInfo \<Rightarrow> ir_function \<Rightarrow> bool" where
  "registered_function L BT p Info Fn \<longleftrightarrow> um_find (=) p (Functions BT) = Some Info \<and> fi_Name Info \<noteq> [] \<and>
     (\<exists>M F. getModule (parseBitcodeFile L) BT p = Inr M \<and> module_ok M \<and> unique_names M \<and>
        getFunction_named M (fi_Name Info) = Some F \<and> function_at M F = Some Fn \<and> self_contained BT M Fn) \<and>
     (\<exists>mapped. (case fi_Globals Info of None \<Rightarrow> Inr [] | Some gs \<Rightarrow> MapGlobals gs) = Inr mapped) \<and> stub_free Fn"

definition host_ready :: "jit_host \<Rightarrow> 'm Context \<Rightarrow> bool" where
  "host_ready J C \<longleftrightarrow> has_target J \<and> (\<forall>M. engine_ok J M) \<and> (DebugFile C = [] \<or> open_error J (DebugFile C) = None)"

lemma stub_free_emit: "stub_free f \<Longrightarrow> fun_body (snd (EmitCodes_runOnFunction N C f)) = fun_body f"
proof -
  assume free: "stub_free f"
  have "emit_inst s I = I" if "I \<in> set (case fun_body f of None \<Rightarrow> [] | Some body \<Rightarrow> body)" for s I
    using free that unfolding stub_free_def by (cases "(s, I)" rule: emit_inst.cases) (auto simp: emit_asm_def)
  then show ?thesis by (simp add: EmitCodes_runOnFunction_def Let_def map_idI split: option.split)
qed

lemma run_specialized:
  assumes "getFunction_named M Name = Some W" and "function_at M W = Some (specialized F Fn As)"
    and "function_at M F = Some f" and "those (map (operand_value env vs) (map2 scalar_operand (fun_params Fn) As)) = Some xs"
  shows "run_named env sem M Name vs = Some (if fun_ret Fn = VoidTy then MVoid else sem (fun_body f) xs)"
  using assms by (simp add: run_named_def specialized_def callee_meaning_def)

lemma compiled_meaning:
  assumes reg: "registered_function L BT p Info Fn" and host: "host_ready J C"
    and ctx: "scalar_context BT Fn (ArgumentMapping C)"
    and ops: "those (map (operand_value env vs) (map2 scalar_operand (fun_params Fn) (ArgumentMapping C))) = Some xs"
  shows "\<exists>F M1. fst (Compile L J BT p C rt) = Inr F \<and> M_obj F = standard_passes J (OptLevel C) (OptSize C) M1 \<and>
    run_named env sem M1 (fi_Name Info) vs = Some (if fun_ret Fn = VoidTy then MVoid else sem (fun_body Fn) xs) \<and>
    (\<forall>M. getModule (parseBitcodeFile L) BT p = Inr M \<longrightarrow> entry_marks M1 = entry_marks M @ [fi_Name Info])"
proof -
  let ?Fn = "snd (EmitCodes_runOnFunction (fi_Name Info) C Fn)"
  from reg obtain M F mapped where r: "um_find (=) p (Functions BT) = Some Info" "getModule (parseBitcodeFile L) BT p = Inr M"
      "module_ok M" "unique_names M" "fi_Name Info \<noteq> []" "getFunction_named M (fi_Name Info) = Some F"
      "function_at M F = Some Fn" "self_contained BT M Fn"
      "(case fi_Globals Info of None \<Rightarrow> Inr [] | Some gs \<Rightarrow> MapGlobals gs) = Inr mapped" "stub_free Fn"
    unfolding registered_function_def by blast
  from host have h: "has_target J" "\<forall>M'. engine_ok J M'" "DebugFile C = [] \<or> open_error J (DebugFile C) = None"
    by (simp_all add: host_ready_def)
  from compile_scalar_result [OF r(1-8) ctx h r(9), of rt] obtain M1 G rt' where
      "Compile L J BT p C rt = (Inr G, rt')" "M_obj G = standard_passes J (OptLevel C) (OptSize C) M1"
      "getFunction_named M1 (fi_Name Info) = Some (mod_next M)"
      "function_at M1 (mod_next M) = Some (specialized F ?Fn (ArgumentMapping C))"
      "function_at M1 F = Some (?Fn\<lparr>fun_linkage := PrivateLinkage, fun_name := []\<rparr>)"
      "entry_marks M1 = entry_marks M @ [fi_Name Info]"
    by auto
  with run_specialized [OF this(3-5), of env vs xs sem] ops stub_free_emit [OF r(10), of "fi_Name Info" C] r(2) show ?thesis
    by (intro exI [of _ G] exI [of _ M1]) (simp add: EmitCodes_frame)
qed

text \<open>
  C1. Partial application, from the C++ call to the machine code: when \<open>easy::jit(f, args...)\<close> is called for a
  registered function with scalar arguments and placeholders, it returns a wrapper, and to call the wrapper with
  the values of the placeholders gives what \<open>f\<close> itself gives for the arguments of the call with
  the placeholders replaced by these values and every other argument converted to its parameter's type. About
  LLVM it is assumed that the standard passes keep what a function computes and that the code of the
  compiled function does what its module says.
\<close>
theorem jit_partial_application:
  assumes "scalar_call E (tracker S) T args PL Q Fn" and "get_context_for E T args = Inr C"
    and "registered_function L (tracker S) p Info Fn" and "host_ready J C"
    and "fp_faithful E env" and "interprets env sem behaviour" and "passes_preserve J behaviour"
    and "length vs = length Q"
  shows "\<exists>r F S' xs. process_jit E L J t T p args S = (Inr (TWrapper r Q, wrapper_of F), S') \<and>
    direct_arguments E vs PL args = Some xs \<and>
    (\<forall>run. code_implements behaviour run (fi_Name Info) F \<longrightarrow>
      call_wrapper run (wrapper_of F) vs = Inr (if fun_ret Fn = VoidTy then MVoid else sem (fun_body Fn) xs))"
proof -
  note ctx = scalar_call_context [OF assms(1,2,5,8)]
  then obtain xs where xs: "direct_arguments E vs PL args = Some xs" by blast
  with ctx have "those (map (operand_value env vs) (map2 scalar_operand (fun_params Fn) (ArgumentMapping C))) = Some xs"
    by (simp add: direct_arguments_def)
  from compiled_meaning [OF assms(3,4) conjunct1 [OF ctx] this, of "thread_view t S" sem] obtain F M1 where
      F: "fst (Compile L J (tracker S) p C (thread_view t S)) = Inr F"
      "M_obj F = standard_passes J (OptLevel C) (OptSize C) M1"
      "run_named env sem M1 (fi_Name Info) vs = Some (if fun_ret Fn = VoidTy then MVoid else sem (fun_body Fn) xs)" by blast
  then have "behaviour (M_obj F) (fi_Name Info) vs = Some (if fun_ret Fn = VoidTy then MVoid else sem (fun_body Fn) xs)"
    using assms(6,7) by (auto simp: interprets_def passes_preserve_def)
  moreover obtain r where "FuncType T (map arg_type args) = Inr (TWrapper r Q)"
    using assms(1) by (auto simp: scalar_call_def)
  ultimately show ?thesis using xs F(1) assms(2)
    by (intro exI [of _ r] exI [of _ F] exI [of _ "after_compile L J t p C S"] exI [of _ xs])
      (auto simp: process_jit_def process_jit_with_context_def jit_with_context_def process_compiler_def
        code_implements_def call_wrapper_def getFunctionPointer_def getRawPointer_def getFunction_def wrapper_of_def)
qed

definition sample_ir_env :: ir_env where
  "sample_ir_env = \<lparr>fp_value = (\<lambda>T d. d), symbol_address = (\<lambda>g. of_nat g)\<rparr>"

definition sample_sem :: "instr list option \<Rightarrow> mval list \<Rightarrow> mval" where
  "sample_sem body xs = (case xs of [MInt a, MInt b, z] \<Rightarrow> MInt (a + b) | _ \<Rightarrow> MVoid)"

lemma sample_scalar_call:
  "scalar_call sample_env (tracker sample_process) sample_type sample_args
     [TInt 32 True, TInt 8 True, TFloating 64] [TFloating 64, TInt 32 True] sample_fun"
proof -
  have "\<forall>a \<in> set sample_args. scalar_argument (tracker sample_process) a"
    by (simp add: sample_args_def scalar_argument_def easy_simps)
  moreover have "placeholders_once sample_args"
    by (simp add: placeholders_once_def sample_args_def easy_simps)
  moreover have "list_all2 lowers [TInt 32 True, TInt 8 True, TFloating 64] (fun_params sample_fun)"
    "\<not> hasStructRetAttr sample_fun" by (simp_all add: sample_fun_def hasStructRetAttr_def)
  moreover have "take (length [TInt 32 True, TInt 8 True, TFloating 64]) sample_args = sample_args"
    by (simp add: sample_args_def)
  ultimately show ?thesis using sample_call(1,3) unfolding scalar_call_def by auto
qed

lemma sample_registered_function:
  "registered_function sample_reader (tracker sample_process) 64 sample_info sample_fun"
proof -
  have "stub_free sample_fun" by (simp add: stub_free_def sample_fun_def)
  then show ?thesis
    unfolding registered_function_def sample_process_tracker using sample_compile_facts by blast
qed

theorem jit_partial_application_witness:
  "\<exists>r F S' run. process_jit sample_env sample_reader sample_host 0 sample_type 64 sample_args sample_process =
       (Inr (TWrapper r [TFloating 64, TInt 32 True], wrapper_of F), S') \<and>
     code_implements (run_named sample_ir_env sample_sem) run ''f'' F \<and>
     call_wrapper run (wrapper_of F) [MFP 9, MInt 5] = Inr (MInt 12)"
proof -
  let ?b = "run_named sample_ir_env sample_sem"
  have host: "host_ready sample_host sample_context"
    using sample_registered(5,8,9) by (simp add: host_ready_def)
  have fp: "fp_faithful sample_env sample_ir_env" by (simp add: fp_faithful_def sample_env_def sample_ir_env_def)
  have b: "interprets sample_ir_env sample_sem ?b" "passes_preserve sample_host ?b"
    by (simp_all add: interprets_def passes_preserve_def sample_host_def)
  have "length [MFP 9, MInt 5] = length [TFloating 64, TInt 32 True]" by simp
  from jit_partial_application [OF sample_scalar_call sample_call(2) sample_registered_function host fp b this, of 0]
  obtain r F S' xs where F: "process_jit sample_env sample_reader sample_host 0 sample_type 64 sample_args sample_process =
        (Inr (TWrapper r [TFloating 64, TInt 32 True], wrapper_of F), S')"
      "direct_arguments sample_env [MFP 9, MInt 5] [TInt 32 True, TInt 8 True, TFloating 64] sample_args = Some xs"
      "\<forall>run. code_implements ?b run (fi_Name sample_info) F \<longrightarrow>
        call_wrapper run (wrapper_of F) [MFP 9, MInt 5] = Inr (if fun_ret sample_fun = VoidTy then MVoid else sample_sem (fun_body sample_fun) xs)"
    by blast
  have "direct_arguments sample_env [MFP 9, MInt 5] [TInt 32 True, TInt 8 True, TFloating 64] sample_args =
      Some [MInt 5, MInt 7, MFP 9]"
    by (simp add: direct_arguments_def sample_args_def direct_argument_def easy_simps)
  with F(2) have "xs = [MInt 5, MInt 7, MFP 9]" by simp
  moreover have "code_implements ?b (\<lambda>a vs. case ?b (M_obj F) ''f'' vs of Some y \<Rightarrow> y | None \<Rightarrow> MVoid) ''f'' F"
    by (simp add: code_implements_def)
  ultimately show ?thesis using F(1,3) by (fastforce simp: sample_sem_def sample_fun_def sample_info_def)
qed

end
