(* ===== verification/Easy_Cached.thy ===== *)
theory Easy_Cached
  imports Easy_Semantics
begin

text \<open>
  What a cached function computes. \<open>Easy_Semantics\<close> says what the function compiled for one call computes; here the
  call goes through \<open>Cache::jit\<close> in a process that has run for a while, so the function may have been
  compiled by another thread, for an equal context, when fewer functions were registered. The lemmas carry the facts
  about the tracker back to that moment and the context of the key over to the context of the request.
\<close>

subsection \<open>The tracker at an earlier moment\<close>

lemma run_registration_name:
  "um_find (=) n (NameToAddress BT) = Some a \<Longrightarrow> um_find (=) n (NameToAddress (run_registration r BT)) = Some a"
  by (cases r) (auto simp: registerFunction_def registerLayout_def find_emplace_eq)

lemma run_registrations_name:
  "um_find (=) n (NameToAddress BT) = Some a \<Longrightarrow> um_find (=) n (NameToAddress (run_registrations rs BT)) = Some a"
  by (induction rs arbitrary: BT) (auto simp: run_registrations_def run_registration_name)

lemma address_earlier: "getAddress (run_registrations rs BT) n = 0 \<Longrightarrow> getAddress BT n = 0"
  using run_registrations_name [of n BT _ rs] by (auto simp: getAddress_def split: option.splits)

lemma mapping_earlier: "\<not> hasGlobalMapping (run_registrations rs BT) p \<Longrightarrow> \<not> hasGlobalMapping BT p"
  using run_registrations_info [of p BT _ rs] by (cases "um_find (=) p (Functions BT)") (auto simp: hasGlobalMapping_def)

lemma scalar_ok_earlier: "scalar_ok (run_registrations rs BT) T a \<Longrightarrow> scalar_ok BT T a"
  using mapping_earlier by (cases "(BT, T, a)" rule: scalar_ok.cases) auto

lemma scalar_context_earlier:
  "scalar_context (run_registrations rs BT) F As \<Longrightarrow> scalar_context BT F As"
  by (auto simp: scalar_context_def elim!: list.rel_mono_strong intro: scalar_ok_earlier)

lemma registered_function_earlier:
  assumes "registered_function L (run_registrations rs BT) p Info Fn" and "hasGlobalMapping BT p"
  shows "registered_function L BT p Info Fn"
proof -
  have info: "um_find (=) p (Functions BT) = Some Info"
    using assms run_registrations_info [of p BT _ rs] by (fastforce simp: registered_function_def hasGlobalMapping_def)
  then have "getModule (parseBitcodeFile L) BT p = getModule (parseBitcodeFile L) (run_registrations rs BT) p"
    using assms(1) by (simp add: registered_function_def getModule_def getModuleWithContext_def)
  moreover have "self_contained BT M f" if "self_contained (run_registrations rs BT) M f" for M f
    using that by (auto simp: self_contained_def list_all_iff intro: address_earlier)
  ultimately show ?thesis using assms(1) info unfolding registered_function_def by auto
qed

subsection \<open>The context of the key\<close>

lemma compare_identity:
  "compareWithSameType a b \<Longrightarrow> \<forall>f. b \<noteq> ModuleArgument f \<Longrightarrow> \<forall>d. b = FloatArgument d \<longrightarrow> double_magnitude d \<noteq> 0 \<Longrightarrow> a = b"
  by (cases "(a, b)" rule: compareWithSameType.cases) (auto simp: double_eq_def)

lemma equal_scalar_contexts:
  assumes "Context_eq C' C" and "scalar_context BT F (ArgumentMapping C)"
    and "\<forall>d. FloatArgument d \<in> set (ArgumentMapping C) \<longrightarrow> double_magnitude d \<noteq> 0"
  shows "ArgumentMapping C' = ArgumentMapping C"
proof -
  let ?A = "ArgumentMapping C'" and ?B = "ArgumentMapping C"
  have eq: "list_all2 compareWithSameType ?A ?B"
    using assms(1) by (simp add: Context_eq_iff Argument_eq_compare [abs_def])
  have "?A ! i = ?B ! i" if i: "i < length ?B" for i
  proof (rule compare_identity)
    show "compareWithSameType (?A ! i) (?B ! i)" using eq i by (simp add: list_all2_conv_all_nth)
    have "scalar_ok BT (fun_params F ! i) (?B ! i)"
      using assms(2) i by (simp add: scalar_context_def list_all2_conv_all_nth)
    then show "\<forall>f. ?B ! i \<noteq> ModuleArgument f" by auto
    show "\<forall>d. ?B ! i = FloatArgument d \<longrightarrow> double_magnitude d \<noteq> 0" using assms(3) i by (metis nth_mem)
  qed
  then show ?thesis using list_all2_lengthD [OF eq] by (intro nth_equalityI) auto
qed

subsection \<open>A successful compilation\<close>

lemma Compile_success:
  assumes "fst (Compile L J BT p C rt) = Inr F"
  shows "hasGlobalMapping BT p \<and> (DebugFile C = [] \<or> open_error J (DebugFile C) = None)"
  using assms
  by (auto simp: Compile_def WriteOptimizedToFile_def hasGlobalMapping_def getNameAndGlobalMapping_def
      split: sum.splits prod.splits if_splits option.splits)

lemma cached_meaning:
  fixes C :: "ir_module Context"
  assumes compiled: "fst (Compile L J BT p C' rt) = Inr F" and later: "BT' = run_registrations rs BT"
    and args: "ArgumentMapping C' = ArgumentMapping C" and ctx: "scalar_context BT' Fn (ArgumentMapping C)"
    and reg: "registered_function L BT' p Info Fn" and host: "host_ready J C"
    and lib: "interprets env sem behaviour" "passes_preserve J behaviour"
    and ops: "those (map (operand_value env vs) (map2 scalar_operand (fun_params Fn) (ArgumentMapping C))) = Some xs"
  shows "behaviour (M_obj F) (fi_Name Info) vs = Some (if fun_ret Fn = VoidTy then MVoid else sem (fun_body Fn) xs)"
proof -
  note ok = Compile_success [OF compiled]
  have "registered_function L BT p Info Fn" using registered_function_earlier reg later ok by blast
  moreover have "host_ready J C'" using host ok by (simp add: host_ready_def)
  moreover have "scalar_context BT Fn (ArgumentMapping C')" using scalar_context_earlier ctx later args by simp
  ultimately obtain M1 where "M_obj F = standard_passes J (OptLevel C') (OptSize C') M1"
      "run_named env sem M1 (fi_Name Info) vs = Some (if fun_ret Fn = VoidTy then MVoid else sem (fun_body Fn) xs)"
    using compiled_meaning [of L BT p Info Fn J C' env vs xs rt sem] ops args compiled by auto
  with lib show ?thesis by (auto simp: interprets_def passes_preserve_def)
qed

text \<open>The two ways a cached call with an accepted context ends: a new entry or one that is there.\<close>

lemma process_cached_jit_compiles:
  assumes C: "get_context_for E T args = Inr C" and "\<not> Cache_has AutoKey_eq (p, C) (p_cache S)"
    and W: "FuncType T (map arg_type args) = Inr (TWrapper r Q)"
    and F: "fst (Compile L J (tracker S) p C (thread_view t S)) = Inr F"
  shows "\<exists>S'. process_cached_jit E L J t T p args S = (Inr (length (p_cache S)), S') \<and>
    p_cache S' = p_cache S @ [((p, C), wrapper_of F)]"
proof -
  have "process_jit E L J t T p args S = (Inr (TWrapper r Q, wrapper_of F), after_compile L J t p C S)"
    using C W F by (simp add: process_jit_def process_jit_with_context_def jit_with_context_def process_compiler_def)
  then show ?thesis
    using C assms(2)
    by (auto simp: process_cached_jit_def cache_emplace_def compile_if_not_in_cache_def Cache_has_def um_index_None_iff
        wrapper_move_def wrapper_of_def split: option.split)
qed

text \<open>
  C2. Cached calls compute the direct call: in any process, whatever its threads compiled and registered before, when
  \<open>Cache::jit\<close> is called for a registered function with scalar arguments and placeholders, none of them a floating-point
  zero, it returns an entry. To call the wrapper of the entry with the values of the placeholders gives what \<open>f\<close> gives for
  the arguments of this very call, also when the entry was made for other arguments. The wrapper is null only
  if the entry was there before, left by a compilation that failed.
\<close>
theorem cached_partial_application:
  assumes "reachable E L J S" and "scalar_call E (tracker S) T args PL Q Fn" and "get_context_for E T args = Inr C"
    and "\<forall>d. FloatArgument d \<in> set (ArgumentMapping C) \<longrightarrow> double_magnitude d \<noteq> 0"
    and "registered_function L (tracker S) p Info Fn" and "host_ready J C"
    and "fp_faithful E env" and "interprets env sem behaviour" and "passes_preserve J behaviour"
    and "length vs = length Q"
  shows "\<exists>i S' xs. process_cached_jit E L J t T p args S = (Inr i, S') \<and> i < length (p_cache S') \<and>
    direct_arguments E vs PL args = Some xs \<and>
    (case Fun (snd (p_cache S' ! i)) of
       None \<Rightarrow> S' = S \<and> Cache_has AutoKey_eq (p, C) (p_cache S)
     | Some F \<Rightarrow> \<forall>run. code_implements behaviour run (fi_Name Info) F \<longrightarrow>
         call_wrapper run (snd (p_cache S' ! i)) vs = Inr (if fun_ret Fn = VoidTy then MVoid else sem (fun_body Fn) xs))"
proof -
  note ctx = scalar_call_context [OF assms(2,3,7,10)]
  then obtain xs where xs: "direct_arguments E vs PL args = Some xs" by blast
  with ctx have ops: "those (map (operand_value env vs) (map2 scalar_operand (fun_params Fn) (ArgumentMapping C))) = Some xs"
    by (simp add: direct_arguments_def)
  note meaning = cached_meaning [OF _ _ _ conjunct1 [OF ctx] assms(5,6,8,9) ops]
  show ?thesis
  proof (cases "um_index AutoKey_eq (p, C) (p_cache S)")
    case (Some i)
    then have i: "i < length (p_cache S)" "AutoKey_eq (fst (p_cache S ! i)) (p, C)" by (auto simp: um_index_Some)
    then obtain C' FW where e: "p_cache S ! i = ((p, C'), FW)" "Context_eq C' C"
      by (cases "p_cache S ! i") (auto simp: AutoKey_eq_def)
    have has: "Cache_has AutoKey_eq (p, C) (p_cache S)" using Some by (simp add: Cache_has_def um_find_index)
    have "behaviour (M_obj F) (fi_Name Info) vs = Some (if fun_ret Fn = VoidTy then MVoid else sem (fun_body Fn) xs)"
      if "Fun FW = Some F" for F
    proof -
      have "compiled_earlier E L J S ((p, C'), FW)"
        using conjunct2 [OF reachable_cache [OF assms(1)]] i(1) e(1) by (metis nth_mem)
      then obtain S0 u where "process_extends S0 S" "entry_ok (process_compiler L J u S0) ((p, C'), FW)"
        unfolding compiled_earlier_def by blast
      then have "fst (Compile L J (tracker S0) p C' (thread_view u S0)) = Inr F" "\<exists>rs. tracker S = run_registrations rs (tracker S0)"
        using that by (simp_all add: entry_ok_def process_compiler_def process_extends_def)
      then obtain rs where "fst (Compile L J (tracker S0) p C' (thread_view u S0)) = Inr F"
          "tracker S = run_registrations rs (tracker S0)" by blast
      from meaning [OF this equal_scalar_contexts [OF e(2) conjunct1 [OF ctx] assms(4)]] show ?thesis .
    qed
    with process_cached_jit_hit [OF assms(3) Some] i(1) e(1) has xs show ?thesis
      by (intro exI [of _ i] exI [of _ S] exI [of _ xs])
        (auto simp: code_implements_def call_wrapper_def getFunctionPointer_def getRawPointer_def getFunction_def split: option.split)
  next
    case None
    then have miss: "\<not> Cache_has AutoKey_eq (p, C) (p_cache S)" by (simp add: Cache_has_def um_index_None_iff)
    obtain r where W: "FuncType T (map arg_type args) = Inr (TWrapper r Q)"
      using assms(2) by (auto simp: scalar_call_def)
    obtain F where F: "fst (Compile L J (tracker S) p C (thread_view t S)) = Inr F"
      using compiled_meaning [OF assms(5,6) conjunct1 [OF ctx] ops] by blast
    have "behaviour (M_obj F) (fi_Name Info) vs = Some (if fun_ret Fn = VoidTy then MVoid else sem (fun_body Fn) xs)"
      by (rule meaning [OF F, of "[]"]) (simp_all add: run_registrations_def)
    with process_cached_jit_compiles [OF assms(3) miss W F] xs show ?thesis
      by (fastforce simp: code_implements_def call_wrapper_def getFunctionPointer_def getRawPointer_def getFunction_def
          wrapper_of_def)
  qed
qed

text \<open>The sample call, requested again by a second thread with another integer of the same value.\<close>

lemma sample_nonzero:
  "\<forall>d. FloatArgument d \<in> set (ArgumentMapping sample_context) \<longrightarrow> double_magnitude d \<noteq> 0"
  by (simp add: sample_context_def easy_simps Context_new_def)

lemma process_cached_jit_tracker: "tracker (snd (process_cached_jit E L J t T p args S)) = tracker S"
  by (simp add: process_cached_jit_def process_jit_def process_jit_with_context_def after_compile_def thread_writes_def
      split: sum.split prod.split)

lemma sample_second_call:
  defines "args \<equiv> [ph_arg 2, int_arg 263, ph_arg 1]"
  assumes "tracker S = sample_tracker"
  shows "scalar_call sample_env (tracker S) sample_type args
      [TInt 32 True, TInt 8 True, TFloating 64] [TFloating 64, TInt 32 True] sample_fun"
    and "get_context_for sample_env sample_type args = Inr sample_context"
    and "direct_arguments sample_env [MFP 9, MInt 5] [TInt 32 True, TInt 8 True, TFloating 64] args =
      Some [MInt 5, MInt 7, MFP 9]"
proof -
  have "FuncType sample_type (map arg_type args) = Inr (TWrapper (TInt 32 True) [TFloating 64, TInt 32 True])"
    using sample_call(3) by (simp add: args_def sample_args_def easy_simps)
  moreover have "\<forall>a \<in> set args. scalar_argument (tracker S) a" "placeholders_once args"
    by (simp_all add: args_def scalar_argument_def placeholders_once_def easy_simps)
  moreover have "list_all2 lowers [TInt 32 True, TInt 8 True, TFloating 64] (fun_params sample_fun)"
    "\<not> hasStructRetAttr sample_fun" by (simp_all add: sample_fun_def hasStructRetAttr_def)
  moreover have "take (length [TInt 32 True, TInt 8 True, TFloating 64]) args = args" by (simp add: args_def)
  ultimately show "scalar_call sample_env (tracker S) sample_type args
      [TInt 32 True, TInt 8 True, TFloating 64] [TFloating 64, TInt 32 True] sample_fun"
    using sample_call(1) unfolding scalar_call_def by auto
  show "get_context_for sample_env sample_type args = Inr sample_context"
    by (simp add: args_def sample_type_def sample_env_def sample_context_def get_context_for_def
      easy_simps Context_new_def wrap_int_def signed_take_bit_eq_take_bit_shift)
  show "direct_arguments sample_env [MFP 9, MInt 5] [TInt 32 True, TInt 8 True, TFloating 64] args = Some [MInt 5, MInt 7, MFP 9]"
    by (simp add: args_def direct_arguments_def direct_argument_def easy_simps)
qed

theorem cached_partial_application_witness:
  "\<exists>F S run. process_cached_jit sample_env sample_reader sample_host 0 sample_type 64 sample_args sample_process = (Inr 0, S) \<and>
     process_cached_jit sample_env sample_reader sample_host 1 sample_type 64 [ph_arg 2, int_arg 263, ph_arg 1] S = (Inr 0, S) \<and>
     p_cache S = [((64, sample_context), wrapper_of F)] \<and>
     code_implements (run_named sample_ir_env sample_sem) run ''f'' F \<and>
     call_wrapper run (wrapper_of F) [MFP 9, MInt 5] = Inr (MInt 12)"
proof -
  let ?b = "run_named sample_ir_env sample_sem" and ?args = "[ph_arg 2, int_arg 263, ph_arg 1 :: ir_module cxx_arg]"
  obtain F S where c: "process_cached_jit sample_env sample_reader sample_host 0 sample_type 64 sample_args sample_process = (Inr 0, S)"
      "p_cache S = [((64, sample_context), wrapper_of F)]" using sample_cached_jit by blast
  have "process_step sample_env sample_reader sample_host sample_process S"
    using c(1) by (rule process_step.cached_jit) simp
  then have r: "reachable sample_env sample_reader sample_host S"
    using sample_process_reachable unfolding reachable_def by (meson rtranclp.rtrancl_into_rtrancl)
  have t: "tracker S = sample_tracker"
    using c(1) process_cached_jit_tracker [of sample_env sample_reader sample_host 0 sample_type 64 sample_args sample_process]
    by (simp add: sample_process_tracker)
  have host: "host_ready sample_host sample_context" using sample_registered(5,8,9) by (simp add: host_ready_def)
  have fp: "fp_faithful sample_env sample_ir_env" by (simp add: fp_faithful_def sample_env_def sample_ir_env_def)
  have b: "interprets sample_ir_env sample_sem ?b" "passes_preserve sample_host ?b"
    by (simp_all add: interprets_def passes_preserve_def sample_host_def)
  have reg: "registered_function sample_reader (tracker S) 64 sample_info sample_fun"
    using sample_registered_function by (simp add: t sample_process_tracker)
  have len: "length [MFP 9, MInt 5] = length [TFloating 64, TInt 32 True]" by simp
  have "um_index AutoKey_eq (64, sample_context) (p_cache S) = Some 0"
    using sample_nonzero by (simp add: c(2) AutoKey_eq_def Context_eq_refl_iff sample_context_def)
  note hit = process_cached_jit_hit [OF sample_second_call(2) [OF t] this, of sample_reader sample_host 1]
  from cached_partial_application [OF r sample_second_call(1,2) [OF t] sample_nonzero reg host fp b len, of 1]
  obtain i S' xs where f: "process_cached_jit sample_env sample_reader sample_host 1 sample_type 64 ?args S = (Inr i, S')"
      "direct_arguments sample_env [MFP 9, MInt 5] [TInt 32 True, TInt 8 True, TFloating 64] ?args = Some xs"
      "case Fun (snd (p_cache S' ! i)) of None \<Rightarrow> S' = S \<and> Cache_has AutoKey_eq (64, sample_context) (p_cache S)
       | Some F \<Rightarrow> \<forall>run. code_implements ?b run (fi_Name sample_info) F \<longrightarrow>
         call_wrapper run (snd (p_cache S' ! i)) [MFP 9, MInt 5] =
           Inr (if fun_ret sample_fun = VoidTy then MVoid else sample_sem (fun_body sample_fun) xs)"
    by blast
  have "xs = [MInt 5, MInt 7, MFP 9]" using f(2) sample_second_call(3) [OF t] by simp
  moreover have "i = 0" "S' = S" using f(1) hit by simp_all
  moreover have "code_implements ?b (\<lambda>a vs. case ?b (M_obj F) ''f'' vs of Some y \<Rightarrow> y | None \<Rightarrow> MVoid) ''f'' F"
    by (simp add: code_implements_def)
  ultimately show ?thesis using c f(3) hit
    by (fastforce simp: sample_sem_def sample_fun_def sample_info_def wrapper_of_def)
qed

end
