(* ===== verification/Easy_Linker.thy ===== *)
theory Easy_Linker
  imports Easy_Inline
begin

text \<open>
  What the library relies on when it links modules. The linker runs with the flag \<open>OverrideFromSrc\<close>, which LLVM
  documents as "have symbols from Src shadow those in the Dest". \<open>overrides_from_src\<close> says this of the parameter
  \<open>linkModules\<close>, for modules with a symbol table; the second half of the theory has a linker that satisfies it, which
  the examples use.
\<close>

subsection \<open>What the linker does\<close>

definition exported :: "ir_module \<Rightarrow> string \<Rightarrow> ir_function \<Rightarrow> bool" where
  "exported M n e \<longleftrightarrow> n \<noteq> [] \<and> fun_name e = n \<and> fun_linkage e = ExternalLinkage \<and> fun_body e \<noteq> None \<and>
     (\<exists>i. (i, e) \<in> set (mod_funs M))"

definition exports :: "ir_module \<Rightarrow> string \<Rightarrow> bool" where
  "exports M n \<longleftrightarrow> (\<exists>e. exported M n e)"

text \<open>
  A function of the destination survives with its signature, its attributes and its linkage, and with its name if it
  is external (the linker may rename local functions), unless it is external and the source defines an external
  function of the same name: then it is gone. What the source exports is found by its name, as a new function.
  Bodies refer to the functions of the linked module, so that they can change.
\<close>

definition survives :: "ir_module \<Rightarrow> ir_function \<Rightarrow> ir_function option \<Rightarrow> bool" where
  "survives LM f r \<longleftrightarrow> (if fun_linkage f = ExternalLinkage \<and> exports LM (fun_name f) then r = None
     else \<exists>n b. r = Some (f\<lparr>fun_name := n, fun_body := b\<rparr>) \<and> (fun_linkage f = ExternalLinkage \<longrightarrow> n = fun_name f))"

definition linked :: "ir_module \<Rightarrow> ir_module \<Rightarrow> ir_module \<Rightarrow> bool" where
  "linked M LM M' \<longleftrightarrow> module_ok M' \<and> unique_names M' \<and> mod_next M \<le> mod_next M' \<and>
     (\<forall>i<mod_next M. case function_at M i of None \<Rightarrow> function_at M' i = None | Some f \<Rightarrow> survives LM f (function_at M' i)) \<and>
     (\<forall>n e. exported LM n e \<longrightarrow> (\<exists>k b. getFunction_named M' n = Some k \<and> mod_next M \<le> k \<and>
        function_at M' k = Some (e\<lparr>fun_body := b\<rparr>))) \<and>
     entry_marks M' = entry_marks M @ entry_marks LM"

definition overrides_from_src :: "llvm_api \<Rightarrow> bool" where
  "overrides_from_src L \<longleftrightarrow> (\<forall>M LM M'. module_ok M \<and> unique_names M \<and> unique_names LM \<and>
     linkModules L M LM = (M', False) \<longrightarrow> linked M LM M')"

lemma mod_funs_unmark [simp]: "mod_funs (UnmarkEntry M) = mod_funs M"
  by (simp add: UnmarkEntry_def eraseNamedMetadata_def getOrInsertNamedMetadata_def split: option.split)

lemma exported_unmark [simp]:
  "exported (UnmarkEntry M) n e \<longleftrightarrow> exported M n e"
  "exports (UnmarkEntry M) n \<longleftrightarrow> exports M n"
  "unique_names (UnmarkEntry M) \<longleftrightarrow> unique_names M"
  by (simp_all add: exported_def exports_def unique_names_def)

lemma unique_names_update:
  "unique_names M \<Longrightarrow> (\<And>f. fun_name (g f) = fun_name f) \<Longrightarrow> unique_names (update_function i g M)"
proof -
  assume "unique_names M" "\<And>f. fun_name (g f) = fun_name f"
  moreover from this(2) have "map (fun_name \<circ> snd) (mod_funs (update_function i g M)) = map (fun_name \<circ> snd) (mod_funs M)"
    by (simp add: update_function_def comp_def case_prod_unfold)
  ultimately show ?thesis by (simp add: unique_names_def)
qed

lemma function_at_bound: "module_ok M \<Longrightarrow> function_at M i = Some f \<Longrightarrow> i < mod_next M"
  by (force simp: module_ok_def function_at_def dest: map_of_SomeD)

lemma function_at_mem: "function_at M i = Some f \<Longrightarrow> (i, f) \<in> set (mod_funs M)"
  by (simp add: function_at_def map_of_SomeD)

lemma exports_named: "exports LM n \<Longrightarrow> n \<noteq> []"
  by (auto simp: exports_def exported_def)

lemma find_by_only: "(\<And>x. x \<in> set xs \<Longrightarrow> P (snd x) \<Longrightarrow> fst x = W) \<Longrightarrow> (W, w) \<in> set xs \<Longrightarrow> P w \<Longrightarrow> find_by P xs = Some W"
proof (cases "List.find (\<lambda>(i, y). P y) xs")
  case None
  assume "(W, w) \<in> set xs" "P w"
  with None show ?thesis by (auto simp: find_None_iff)
next
  case (Some x)
  then have "x \<in> set xs" "P (snd x)" by (auto simp: find_Some_iff case_prod_unfold)
  moreover assume "\<And>x. x \<in> set xs \<Longrightarrow> P (snd x) \<Longrightarrow> fst x = W"
  ultimately show ?thesis using Some by (simp add: find_by_def)
qed

lemma linked_survivor:
  assumes "linked M LM M'" and "module_ok M" and "function_at M i = Some f" and "\<not> (fun_linkage f = ExternalLinkage \<and> exports LM (fun_name f))"
  shows "\<exists>n b. function_at M' i = Some (f\<lparr>fun_name := n, fun_body := b\<rparr>) \<and> (fun_linkage f = ExternalLinkage \<longrightarrow> n = fun_name f)"
  using assms function_at_bound [OF assms(2,3)] by (force simp: linked_def survives_def)

lemma linked_external_survivor:
  assumes "linked M LM M'" and "module_ok M" and "function_at M i = Some (f\<lparr>fun_body := c\<rparr>)"
    and "fun_linkage f = ExternalLinkage" and "\<not> exports LM (fun_name f)"
  shows "\<exists>b. function_at M' i = Some (f\<lparr>fun_body := b\<rparr>)"
proof -
  have "f\<lparr>fun_name := fun_name f, fun_body := b\<rparr> = f\<lparr>fun_body := b\<rparr>" for b
    by (rule ir_function.equality) simp_all
  with linked_survivor [OF assms(1-3)] assms(4,5) show ?thesis by force
qed

subsection \<open>A linker\<close>

text \<open>
  It drops the external functions of the destination that the source exports, takes the name from the local
  ones, and appends the exported functions of the source under new identities.
\<close>

definition exported_functions :: "ir_module \<Rightarrow> ir_function list" where
  "exported_functions M = filter (\<lambda>f. fun_name f \<noteq> [] \<and> fun_linkage f = ExternalLinkage \<and> fun_body f \<noteq> None)
     (map snd (mod_funs M))"

definition shadow_kept :: "string list \<Rightarrow> nat \<times> ir_function \<Rightarrow> bool" where
  "shadow_kept ns p \<longleftrightarrow> \<not> (fun_linkage (snd p) = ExternalLinkage \<and> fun_name (snd p) \<in> set ns)"

definition shadow_rename :: "string list \<Rightarrow> nat \<times> ir_function \<Rightarrow> nat \<times> ir_function" where
  "shadow_rename ns p = (fst p, if fun_name (snd p) \<in> set ns then (snd p)\<lparr>fun_name := []\<rparr> else snd p)"

definition md_of :: "ir_module \<Rightarrow> md_operand list list" where
  "md_of M = (case getNamedMetadata M EasyJitMD of None \<Rightarrow> [] | Some ops \<Rightarrow> ops)"

definition shadowing_link :: "ir_module \<Rightarrow> ir_module \<Rightarrow> ir_module \<times> bool" where
  "shadowing_link M LM =
     (let es = exported_functions LM; ns = map fun_name es; n = mod_next M
      in (M\<lparr>mod_funs := map (shadow_rename ns) (filter (shadow_kept ns) (mod_funs M)) @ zip [n..<n + length es] es,
            mod_next := n + length es, named_md := (EasyJitMD, md_of M @ md_of LM) # named_md M\<rparr>, False))"

lemma exported_iff: "exported M n e \<longleftrightarrow> e \<in> set (exported_functions M) \<and> fun_name e = n"
  by (auto simp: exported_def exported_functions_def image_iff) force+

lemma exports_iff: "exports M n \<longleftrightarrow> n \<in> set (map fun_name (exported_functions M))"
  by (auto simp: exports_def exported_iff)

lemma distinct_map_filter_and: "distinct (map f (filter P xs)) \<Longrightarrow> distinct (map f (filter (\<lambda>x. P x \<and> Q x) xs))"
  by (induction xs) (auto split: if_splits)

lemma exported_functions_distinct: "unique_names M \<Longrightarrow> distinct (map fun_name (exported_functions M))"
  unfolding exported_functions_def by (rule distinct_map_filter_and) (simp add: unique_names_def filter_map comp_def)

lemma shadow_rename_fst [simp]: "fst (shadow_rename ns p) = fst p" "map (fst \<circ> shadow_rename ns) xs = map fst xs"
  by (simp_all add: shadow_rename_def comp_def)

lemma map_of_shadow:
  "distinct (map fst xs) \<Longrightarrow> map_of (map (shadow_rename ns) (filter (shadow_kept ns) xs)) i =
     (case map_of xs i of None \<Rightarrow> None
      | Some f \<Rightarrow> if shadow_kept ns (i, f) then Some (snd (shadow_rename ns (i, f))) else None)"
proof (induction xs)
  case (Cons p xs)
  have "map_of xs (fst p) = None" using Cons.prems by (auto simp: map_of_eq_None_iff)
  with Cons show ?case by (cases p) (auto simp: shadow_rename_def)
qed simp

lemma shadowing_link_simps:
  "snd (shadowing_link M LM) = False"
  "mod_next (fst (shadowing_link M LM)) = mod_next M + length (exported_functions LM)"
  "mod_globals (fst (shadowing_link M LM)) = mod_globals M"
  "mod_funs (fst (shadowing_link M LM)) = (let ns = map fun_name (exported_functions LM) in
     map (shadow_rename ns) (filter (shadow_kept ns) (mod_funs M)) @
     zip [mod_next M..<mod_next M + length (exported_functions LM)] (exported_functions LM))"
  by (simp_all add: shadowing_link_def Let_def)

lemma map_of_zip_upt: "map_of (zip [n..<n + length es] es) i = (if n \<le> i \<and> i < n + length es then Some (es ! (i - n)) else None)"
proof -
  have "map_of (zip [n..<n + length es] es) (n + j) = Some (es ! j)" if "j < length es" for j
    using that map_of_zip_nth [of "[n..<n + length es]" es j] by simp
  moreover have "map_of (zip [n..<n + length es] es) i = None" if "\<not> (n \<le> i \<and> i < n + length es)"
    using that by (auto simp: map_of_eq_None_iff set_zip)
  ultimately show ?thesis by (cases "n \<le> i \<and> i < n + length es") (auto dest: le_Suc_ex)
qed

lemma module_funs_below: "module_ok M \<Longrightarrow> distinct (map fst (mod_funs M)) \<and> (\<forall>p \<in> set (mod_funs M). fst p < mod_next M)"
  by (auto simp: module_ok_def)

lemma shadow_function_at:
  assumes "module_ok M"
    and es: "es = exported_functions LM" and ns: "ns = map fun_name es"
  shows "function_at (fst (shadowing_link M LM)) i =
    (if i < mod_next M
     then (case function_at M i of None \<Rightarrow> None
       | Some f \<Rightarrow> if shadow_kept ns (i, f) then Some (snd (shadow_rename ns (i, f))) else None)
     else if i < mod_next M + length es then Some (es ! (i - mod_next M)) else None)"
proof -
  note below = module_funs_below [OF assms(1)]
  have none: "map_of (mod_funs M) i = None" if "\<not> i < mod_next M"
    using below that by (auto simp: map_of_eq_None_iff)
  then show ?thesis using conjunct1 [OF below]
    by (auto simp: function_at_def shadowing_link_simps Let_def map_add_def map_of_shadow map_of_zip_upt
        es ns split: option.split)
qed

lemma shadow_module_ok:
  assumes "module_ok M"
  shows "module_ok (fst (shadowing_link M LM))"
proof -
  let ?ns = "map fun_name (exported_functions LM)" and ?n = "mod_next M" and ?k = "length (exported_functions LM)"
  have ids: "map fst (mod_funs (fst (shadowing_link M LM))) =
      map fst (filter (shadow_kept ?ns) (mod_funs M)) @ [?n..<?n + ?k]"
    by (simp add: shadowing_link_simps Let_def)
  have sub: "set (map fst (filter (shadow_kept ?ns) (mod_funs M))) \<subseteq> set (map fst (mod_funs M))" by auto
  have "distinct (map fst (mod_funs M))" "distinct (map fst (mod_globals M))"
      "set (map fst (mod_funs M)) \<inter> set (map fst (mod_globals M)) = {}"
      and below: "\<forall>i \<in> set (map fst (mod_funs M)) \<union> set (map fst (mod_globals M)). i < ?n"
    using assms by (auto simp: module_ok_def)
  moreover from this(1) have "distinct (map fst (filter (shadow_kept ?ns) (mod_funs M)))"
    by (simp add: distinct_map_filter)
  moreover have "set [?n..<?n + ?k] \<inter> (set (map fst (mod_funs M)) \<union> set (map fst (mod_globals M))) = {}"
    unfolding disjoint_iff using below by (metis atLeastLessThan_iff leD set_upt)
  ultimately have "distinct ((map fst (filter (shadow_kept ?ns) (mod_funs M)) @ [?n..<?n + ?k]) @ map fst (mod_globals M))"
    using sub unfolding distinct_append set_append by auto
  moreover have "\<forall>i \<in> set ((map fst (filter (shadow_kept ?ns) (mod_funs M)) @ [?n..<?n + ?k]) @ map fst (mod_globals M)). i < ?n + ?k"
  proof
    fix i assume "i \<in> set ((map fst (filter (shadow_kept ?ns) (mod_funs M)) @ [?n..<?n + ?k]) @ map fst (mod_globals M))"
    then have "i \<in> set (map fst (mod_funs M)) \<union> set (map fst (mod_globals M)) \<or> i \<in> set [?n..<?n + ?k]" using sub by auto
    then show "i < ?n + ?k"
    proof
      assume "i \<in> set (map fst (mod_funs M)) \<union> set (map fst (mod_globals M))"
      with below have "i < ?n" by (rule bspec)
      then show ?thesis by simp
    qed simp
  qed
  ultimately show ?thesis by (simp only: module_ok_def ids shadowing_link_simps(2,3))
qed

lemma shadow_names:
  "map (fun_name \<circ> snd) (filter (\<lambda>p. fun_name (snd p) \<noteq> []) (map (shadow_rename ns) (filter (shadow_kept ns) xs))) =
   map (fun_name \<circ> snd) (filter (\<lambda>p. fun_name (snd p) \<noteq> [] \<and> fun_name (snd p) \<notin> set ns \<and> shadow_kept ns p) xs)"
  by (induction xs) (auto simp: shadow_rename_def)

lemma shadow_unique_names:
  assumes "unique_names M" and "unique_names LM"
  shows "unique_names (fst (shadowing_link M LM))"
proof -
  let ?es = "exported_functions LM" and ?ns = "map fun_name (exported_functions LM)"
  let ?P = "\<lambda>p. fun_name (snd p) \<noteq> []"
  have "distinct (map (fun_name \<circ> snd) (filter ?P (mod_funs M)))"
    using assms(1) by (simp add: unique_names_def filter_map comp_def)
  then have old: "distinct (map (fun_name \<circ> snd) (filter ?P (map (shadow_rename ?ns) (filter (shadow_kept ?ns) (mod_funs M)))))"
    unfolding shadow_names by (rule distinct_map_filter_and)
  have "set (map (fun_name \<circ> snd) (filter ?P (map (shadow_rename ?ns) (filter (shadow_kept ?ns) (mod_funs M))))) \<inter> set ?ns = {}"
    unfolding shadow_names by auto
  note old = old this
  have "map (fun_name \<circ> snd) (zip [mod_next M..<mod_next M + length ?es] ?es) = ?ns"
    by (simp flip: map_map)
  moreover have "filter (\<lambda>n. n \<noteq> []) ?ns = ?ns" by (auto simp: filter_id_conv exported_functions_def)
  moreover have "distinct ?ns" using exported_functions_distinct [OF assms(2)] .
  ultimately show ?thesis using old
    unfolding unique_names_def shadowing_link_simps Let_def map_append filter_append distinct_append
    by (simp add: filter_map comp_def)
qed

lemma shadow_named:
  assumes "module_ok M" and "unique_names M" and "unique_names LM" and "exported LM n e"
  shows "\<exists>k. getFunction_named (fst (shadowing_link M LM)) n = Some k \<and> mod_next M \<le> k \<and>
    function_at (fst (shadowing_link M LM)) k = Some e"
proof -
  let ?M = "fst (shadowing_link M LM)"
  have e: "e \<in> set (exported_functions LM)" "fun_name e = n" "n \<noteq> []"
    using assms(4) exports_named [of LM n] by (simp_all add: exported_iff exports_def) blast
  then obtain j where j: "j < length (exported_functions LM)" "exported_functions LM ! j = e"
    by (auto simp: in_set_conv_nth)
  let ?k = "mod_next M + j"
  have k: "function_at ?M ?k = Some e" using j by (simp add: shadow_function_at [OF assms(1) refl refl])
  have "fst x = ?k" if "x \<in> set (mod_funs ?M)" "fun_name (snd x) = n" for x
    using unique_function [OF shadow_unique_names [OF assms(2,3)] _ function_at_mem [OF k], of "fst x" "snd x"] that e by simp
  then have "getFunction_named ?M n = Some ?k"
    unfolding getFunction_named_def using function_at_mem [OF k] e(2) by (intro find_by_only) auto
  with k show ?thesis by auto
qed

lemma shadow_marks: "entry_marks (fst (shadowing_link M LM)) = entry_marks M @ entry_marks LM"
  by (simp add: entry_marks_def getNamedMetadata_def shadowing_link_def Let_def md_of_def List.map_filter_def split: option.split)

lemma shadow_survives:
  assumes "module_ok M" and "i < mod_next M"
  shows "case function_at M i of None \<Rightarrow> function_at (fst (shadowing_link M LM)) i = None
    | Some f \<Rightarrow> survives LM f (function_at (fst (shadowing_link M LM)) i)"
proof (cases "function_at M i")
  case (Some f)
  have same: "f\<lparr>fun_name := m\<rparr> = f\<lparr>fun_name := m, fun_body := fun_body f\<rparr>" "f = f\<lparr>fun_name := fun_name f\<rparr>" for m
    by (rule ir_function.equality; simp)+
  have "function_at (fst (shadowing_link M LM)) i =
      (if fun_linkage f = ExternalLinkage \<and> exports LM (fun_name f) then None
       else Some (f\<lparr>fun_name := if exports LM (fun_name f) then [] else fun_name f\<rparr>))"
    using Some assms(2) same(2)
    by (simp add: shadow_function_at [OF assms(1) refl refl] exports_iff shadow_kept_def shadow_rename_def)
  moreover have "\<exists>n b. f\<lparr>fun_name := m\<rparr> = f\<lparr>fun_name := n, fun_body := b\<rparr> \<and> (fun_linkage f = ExternalLinkage \<longrightarrow> n = fun_name f)"
    if "fun_linkage f = ExternalLinkage \<longrightarrow> m = fun_name f" for m
    by (rule exI [of _ m], rule exI [of _ "fun_body f"], rule conjI [OF same(1) that])
  note this [of "if exports LM (fun_name f) then [] else fun_name f"]
  ultimately show ?thesis using Some by (auto simp: survives_def)
qed (use assms(2) in \<open>simp add: shadow_function_at [OF assms(1) refl refl]\<close>)

lemma shadowing_link_overrides:
  assumes "linkModules L = shadowing_link"
  shows "overrides_from_src L"
  unfolding overrides_from_src_def
proof (intro allI impI, elim conjE)
  fix M LM M'
  assume M: "module_ok M" "unique_names M" "unique_names LM" and link: "linkModules L M LM = (M', False)"
  then have M': "M' = fst (shadowing_link M LM)" using assms by simp
  have "\<exists>k b. getFunction_named M' n = Some k \<and> mod_next M \<le> k \<and> function_at M' k = Some (e\<lparr>fun_body := b\<rparr>)"
    if "exported LM n e" for n e
  proof -
    have "e\<lparr>fun_body := fun_body e\<rparr> = e" by simp
    with shadow_named [OF M that] M' show ?thesis by metis
  qed
  with shadow_module_ok [OF M(1)] shadow_unique_names [OF M(2,3)] shadow_survives [OF M(1)] M' show "linked M LM M'"
    by (simp add: linked_def shadow_marks shadowing_link_simps)
qed

end
