(* ===== verification/Easy_Shipped.thy ===== *)
theory Easy_Shipped
  imports Easy_Semantics
begin

text \<open>
  Specialized functions that are written to a stream and read in another process (\<open>wrapper_serialize\<close>,
  \<open>process_deserialize\<close>), with the meaning of \<open>Easy_Semantics\<close>. The reader compiles the module of the stream again, under the
  name of its first entry mark and with the globals that its own tracker has for that name.
\<close>

definition reads_back :: "llvm_api \<Rightarrow> ir_module Function \<Rightarrow> bool" where
  "reads_back L F \<longleftrightarrow> parseBitcodeFile L (serialize L F) = Some (M_obj F)"

definition keeps_marks :: "jit_host \<Rightarrow> bool" where
  "keeps_marks J \<longleftrightarrow> (\<forall>lvl sz M. entry_marks (standard_passes J lvl sz M) = entry_marks M)"

definition unmarked_bitcode :: "llvm_api \<Rightarrow> BitcodeTracker \<Rightarrow> ptr \<Rightarrow> bool" where
  "unmarked_bitcode L BT p \<longleftrightarrow> (\<forall>M. getModule (parseBitcodeFile L) BT p = Inr M \<longrightarrow> entry_marks M = [])"

definition receives :: "jit_host \<Rightarrow> process \<Rightarrow> string \<Rightarrow> bool" where
  "receives J S Name \<longleftrightarrow> \<not> p_hooked S \<and> (\<forall>M. engine_ok J M) \<and>
     (\<exists>Globals mapped. entry_globals (tracker S) Name = Inr Globals \<and>
        (case Globals of None \<Rightarrow> Inr [] | Some gs \<Rightarrow> MapGlobals gs) = Inr mapped)"

lemma process_deserialize_received:
  assumes "receives J S Name" and "parseBitcodeFile L buf = Some M" and "GetEntryFunctionName M = Inr Name"
  shows "\<exists>G. process_deserialize L J t buf S = (Inr (wrapper_of G), S) \<and> M_obj G = M"
proof -
  from assms(1) obtain Globals mapped where g: "\<not> p_hooked S" "engine_ok J M" "entry_globals (tracker S) Name = Inr Globals"
      "(case Globals of None \<Rightarrow> Inr [] | Some gs \<Rightarrow> MapGlobals gs) = Inr mapped" unfolding receives_def by blast
  let ?G = "\<lparr>Address = code_address J M mapped (target_reserved J) Name, M_ptr = module_address J M, M_obj = M\<rparr>"
  have "process_deserialize L J t buf S = (Inr (wrapper_of ?G), S)"
    using assms(2,3) g by (simp add: process_deserialize_def wrapper_deserialize_def deserialize_def CompileAndWrap_def
        GetEngine_def getReservedRegs_def thread_writes_def wrapper_of_def)
  then show ?thesis by (intro exI [of _ ?G]) simp
qed

text \<open>
  C3. A specialized function that is written by one process and read by another still computes the partial
  application: when \<open>easy::jit\<close> has compiled a registered function for scalar arguments, and the bitcode reader reads the written
  module back, then in any process that has not compiled a function yet, reading the stream gives a wrapper
  and leaves the process as it was, and to call that wrapper with the values of the placeholders gives what the original
  function gives for the arguments of the call of \<open>easy::jit\<close>. The original bitcode has no entry mark, and the standard
  passes keep entry marks.
\<close>
theorem shipped_partial_application:
  assumes "scalar_call E (tracker S) T args PL Q Fn" and "get_context_for E T args = Inr C"
    and "registered_function L (tracker S) p Info Fn" and "host_ready J C"
    and "fp_faithful E env" and "interprets env sem behaviour" and "passes_preserve J behaviour"
    and "length vs = length Q"
    and "unmarked_bitcode L (tracker S) p" and "keeps_marks J" and "receives J S' (fi_Name Info)"
  shows "\<exists>r F S1 xs. process_jit E L J t T p args S = (Inr (TWrapper r Q, wrapper_of F), S1) \<and>
    direct_arguments E vs PL args = Some xs \<and>
    (reads_back L F \<longrightarrow> (\<exists>buf G. wrapper_serialize L (wrapper_of F) = Inr buf \<and>
       process_deserialize L J u buf S' = (Inr (wrapper_of G), S') \<and>
       (\<forall>run. code_implements behaviour run (fi_Name Info) G \<longrightarrow>
          call_wrapper run (wrapper_of G) vs = Inr (if fun_ret Fn = VoidTy then MVoid else sem (fun_body Fn) xs))))"
proof -
  note ctx = scalar_call_context [OF assms(1,2,5,8)]
  then obtain xs where xs: "direct_arguments E vs PL args = Some xs" by blast
  with ctx have "those (map (operand_value env vs) (map2 scalar_operand (fun_params Fn) (ArgumentMapping C))) = Some xs"
    by (simp add: direct_arguments_def)
  from compiled_meaning [OF assms(3,4) conjunct1 [OF ctx] this, of "thread_view t S" sem] obtain F M1 where
      F: "fst (Compile L J (tracker S) p C (thread_view t S)) = Inr F"
      "M_obj F = standard_passes J (OptLevel C) (OptSize C) M1"
      "run_named env sem M1 (fi_Name Info) vs = Some (if fun_ret Fn = VoidTy then MVoid else sem (fun_body Fn) xs)"
      "\<forall>M. getModule (parseBitcodeFile L) (tracker S) p = Inr M \<longrightarrow> entry_marks M1 = entry_marks M @ [fi_Name Info]" by blast
  then have meaning: "behaviour (M_obj F) (fi_Name Info) vs = Some (if fun_ret Fn = VoidTy then MVoid else sem (fun_body Fn) xs)"
    using assms(6,7) by (auto simp: interprets_def passes_preserve_def)
  obtain M where "getModule (parseBitcodeFile L) (tracker S) p = Inr M" using assms(3) unfolding registered_function_def by blast
  then have "entry_marks (M_obj F) = [fi_Name Info]"
    using F(2,4) assms(9,10) by (simp add: unmarked_bitcode_def keeps_marks_def)
  then have entry: "GetEntryFunctionName (M_obj F) = Inr (fi_Name Info)" by (simp add: GetEntryFunctionName_marks)
  obtain r where "FuncType T (map arg_type args) = Inr (TWrapper r Q)" using assms(1) by (auto simp: scalar_call_def)
  then have jit: "process_jit E L J t T p args S = (Inr (TWrapper r Q, wrapper_of F), after_compile L J t p C S)"
    using F(1) assms(2) by (simp add: process_jit_def process_jit_with_context_def jit_with_context_def process_compiler_def)
  have "\<exists>buf G. wrapper_serialize L (wrapper_of F) = Inr buf \<and> process_deserialize L J u buf S' = (Inr (wrapper_of G), S') \<and>
       (\<forall>run. code_implements behaviour run (fi_Name Info) G \<longrightarrow>
          call_wrapper run (wrapper_of G) vs = Inr (if fun_ret Fn = VoidTy then MVoid else sem (fun_body Fn) xs))"
    if again: "reads_back L F"
  proof -
    from process_deserialize_received [OF assms(11) again [unfolded reads_back_def] entry, of u] obtain G where
      G: "process_deserialize L J u (serialize L F) S' = (Inr (wrapper_of G), S')" "M_obj G = M_obj F" by blast
    moreover have "wrapper_serialize L (wrapper_of F) = Inr (serialize L F)"
      by (simp add: wrapper_serialize_def getFunction_def wrapper_of_def)
    ultimately show ?thesis using meaning
      by (intro exI [of _ "serialize L F"] exI [of _ G])
        (simp add: code_implements_def call_wrapper_def getFunctionPointer_def getRawPointer_def getFunction_def wrapper_of_def)
  qed
  with jit xs show ?thesis by blast
qed

subsection \<open>A stream that is read back\<close>

text \<open>The reader of the example knows the module that the compilation of the example writes.\<close>

definition sample_written :: ir_module where
  "sample_written = MarkAsEntry ''f''
     (update_function 0 (\<lambda>f. f\<lparr>fun_linkage := PrivateLinkage, fun_name := []\<rparr>)
       (update_function 1 (\<lambda>_. specialized 0 sample_fun (ArgumentMapping sample_context))
         (snd (add_function (new_wrapper (plain_wrapper (ArgumentMapping sample_context) sample_fun)) sample_module))))"

definition sample_stream :: llvm_api where
  "sample_stream = sample_reader\<lparr>parseBitcodeFile := (\<lambda>bs. if bs = [222] then Some sample_module
       else if bs = [1, 2, 3] then Some sample_written else None), WriteBitcodeToFile := (\<lambda>M. [1, 2, 3])\<rparr>"

lemma sample_stream_facts:
  "registered_function sample_stream (tracker sample_process) 64 sample_info sample_fun"
  "unmarked_bitcode sample_stream (tracker sample_process) 64"
proof -
  have parse: "getModule (parseBitcodeFile sample_stream) (tracker sample_process) 64 = Inr sample_module"
    by (simp add: sample_process_tracker sample_tracker_def sample_stream_def easy_simps)
  have "stub_free sample_fun" by (simp add: stub_free_def sample_fun_def)
  then show "registered_function sample_stream (tracker sample_process) 64 sample_info sample_fun"
    unfolding registered_function_def using parse sample_compile_facts by (auto simp: sample_process_tracker)
  show "unmarked_bitcode sample_stream (tracker sample_process) 64"
    using parse by (simp add: unmarked_bitcode_def sample_module_def entry_marks_def getNamedMetadata_def List.map_filter_simps)
qed

lemma sample_compiled_module:
  assumes "fst (Compile sample_stream sample_host sample_tracker 64 sample_context rt) = Inr F"
  shows "M_obj F = sample_written"
proof -
  have parse: "getModule (parseBitcodeFile sample_stream) sample_tracker 64 = Inr sample_module"
    by (simp add: sample_tracker_def sample_stream_def easy_simps)
  have emit: "run_EmitCodes ''f'' sample_context sample_module = sample_module"
    by (simp add: run_EmitCodes_def sample_module_def EmitCodes_runOnFunction_def sample_fun_def)
  have inline: "InlineParameters_runOnModule sample_stream sample_tracker ''f'' sample_context sample_module = Inr (True, sample_written)"
    using run_scalar [OF sample_module_facts(1,3,4) sample_scalar_context, of sample_stream sample_tracker]
    by (simp add: sample_written_def sample_module_def)
  have name: "fi_Name sample_info = ''f''" by (simp add: sample_info_def)
  show ?thesis
    using assms sample_registered(1) parse emit inline name
      resolve_self_contained [OF sample_registered(7) sample_module_facts(4) sample_registered(3), of sample_stream]
    by (auto simp: Compile_def getNameAndGlobalMapping_def Optimize_def CompileAndWrap_def GetEngine_def sample_host_def
        split: sum.splits prod.splits if_splits)
qed

theorem shipped_partial_application_witness:
  "\<exists>r F S1 buf G. process_jit sample_env sample_stream sample_host 0 sample_type 64 sample_args sample_process =
       (Inr (TWrapper r [TFloating 64, TInt 32 True], wrapper_of F), S1) \<and>
     wrapper_serialize sample_stream (wrapper_of F) = Inr buf \<and>
     process_deserialize sample_stream sample_host 3 buf sample_process = (Inr (wrapper_of G), sample_process) \<and>
     (\<forall>run. code_implements (run_named sample_ir_env sample_sem) run ''f'' G \<longrightarrow>
        call_wrapper run (wrapper_of G) [MFP 9, MInt 5] = Inr (MInt 12))"
proof -
  let ?b = "run_named sample_ir_env sample_sem"
  have host: "host_ready sample_host sample_context"
    using sample_registered(5,8,9) by (simp add: host_ready_def)
  have fp: "fp_faithful sample_env sample_ir_env" by (simp add: fp_faithful_def sample_env_def sample_ir_env_def)
  have b: "interprets sample_ir_env sample_sem ?b" "passes_preserve sample_host ?b" "keeps_marks sample_host"
    by (simp_all add: interprets_def passes_preserve_def keeps_marks_def sample_host_def)
  have get: "receives sample_host sample_process (fi_Name sample_info)"
    by (simp add: receives_def sample_process_def process_load_def process_start_def sample_host_def sample_info_def
        run_registrations_def entry_globals_def easy_simps)
  have len: "length [MFP 9, MInt 5] = length [TFloating 64, TInt 32 True]" by simp
  from shipped_partial_application [OF sample_scalar_call sample_call(2) sample_stream_facts(1) host fp b(1,2) len
      sample_stream_facts(2) b(3) get, of 0 3] obtain r F S1 xs where
      F: "process_jit sample_env sample_stream sample_host 0 sample_type 64 sample_args sample_process =
        (Inr (TWrapper r [TFloating 64, TInt 32 True], wrapper_of F), S1)"
      "direct_arguments sample_env [MFP 9, MInt 5] [TInt 32 True, TInt 8 True, TFloating 64] sample_args = Some xs"
      "reads_back sample_stream F \<longrightarrow> (\<exists>buf G. wrapper_serialize sample_stream (wrapper_of F) = Inr buf \<and>
         process_deserialize sample_stream sample_host 3 buf sample_process = (Inr (wrapper_of G), sample_process) \<and>
         (\<forall>run. code_implements ?b run (fi_Name sample_info) G \<longrightarrow> call_wrapper run (wrapper_of G) [MFP 9, MInt 5] =
            Inr (if fun_ret sample_fun = VoidTy then MVoid else sample_sem (fun_body sample_fun) xs)))"
    by blast
  have "fst (Compile sample_stream sample_host sample_tracker 64 sample_context (thread_view 0 sample_process)) = Inr F"
    using F(1) by (auto simp: process_jit_def sample_call process_jit_with_context_def jit_with_context_def
        process_compiler_def sample_process_tracker wrapper_of_def bindR_eq_Inr)
  then have "reads_back sample_stream F"
    by (simp add: reads_back_def serialize_def sample_compiled_module sample_stream_def)
  moreover have "xs = [MInt 5, MInt 7, MFP 9]"
    using F(2) by (simp add: direct_arguments_def sample_args_def direct_argument_def easy_simps)
  ultimately show ?thesis using F(1,3) by (fastforce simp: sample_sem_def sample_fun_def sample_info_def)
qed

end
