(* ===== verification/Easy_Compose.thy ===== *)
theory Easy_Compose
  imports Easy_Linker Easy_Shipped
begin

text \<open>
  Composition: a wrapper that \<open>easy::jit\<close> returned is an argument of another \<open>easy::jit\<close> (the case \<open>AK_Module\<close> of
  \<open>GetInlineArgs\<close>). The module of the wrapper is cloned, its entry mark erased, and it is linked
  into the module of the function that is specialized; its entry function becomes the operand of the call.
  What is assumed of the linker is \<open>overrides_from_src\<close> of \<open>Easy_Linker\<close>.
\<close>

subsection \<open>One module argument\<close>

definition compiled_module :: "llvm_api \<Rightarrow> ir_module Function \<Rightarrow> string \<Rightarrow> ir_module \<Rightarrow> bool" where
  "compiled_module L G n LM \<longleftrightarrow> GetEntryFunctionName (M_obj G) = Inr n \<and>
     CloneModuleWithContext L (M_obj G) = Some LM \<and> unique_names LM \<and> exports LM n"

definition make_private :: "ir_function \<Rightarrow> ir_function" where
  "make_private f = f\<lparr>fun_linkage := PrivateLinkage\<rparr>"

lemma link_module_argument_cases:
  assumes over: "overrides_from_src L" and M: "module_ok M" "unique_names M" and G: "compiled_module L G n LM"
    and link: "linkModules L M (UnmarkEntry LM) = (M', failed)"
  shows "if failed then link_module_argument L G M = Inl (FatalError ''Failed to link with another module!'')
    else \<exists>k e b. exported LM n e \<and> linked M (UnmarkEntry LM) M' \<and> getFunction_named M' n = Some k \<and> mod_next M \<le> k \<and>
      function_at M' k = Some (e\<lparr>fun_body := b\<rparr>) \<and>
      link_module_argument L G M = Inr (update_function k make_private M', GlobalRef k)"
proof (cases failed)
  case True
  with G link show ?thesis by (simp add: link_module_argument_def compiled_module_def)
next
  case False
  with over M G link have l: "linked M (UnmarkEntry LM) M'"
    unfolding overrides_from_src_def compiled_module_def by simp
  from G obtain e where "exported LM n e" by (auto simp: compiled_module_def exports_def)
  with l obtain k b where "getFunction_named M' n = Some k" "mod_next M \<le> k" "function_at M' k = Some (e\<lparr>fun_body := b\<rparr>)"
    unfolding linked_def by fastforce
  with False G link l \<open>exported LM n e\<close> show ?thesis
    by (simp add: link_module_argument_def compiled_module_def make_private_def [abs_def]) blast
qed

subsection \<open>A specialization bound to its own function\<close>

text \<open>The function that is specialized, while the operands are built: it is still there, or a linked module has replaced it.\<close>

definition target_at_risk :: "string \<Rightarrow> nat \<Rightarrow> ir_module \<Rightarrow> bool" where
  "target_at_risk Name F M \<longleftrightarrow> module_ok M \<and> unique_names M \<and> F < mod_next M \<and>
     (\<forall>f. function_at M F = Some f \<longrightarrow> fun_name f = Name \<and> fun_linkage f = ExternalLinkage)"

fun links_only_modules :: "llvm_api \<Rightarrow> BitcodeTracker \<Rightarrow> ir_module Argument \<Rightarrow> bool" where
  "links_only_modules L BT (PtrArgument p) \<longleftrightarrow> \<not> hasGlobalMapping BT p"
| "links_only_modules L BT (StructArgument s) \<longleftrightarrow> False"
| "links_only_modules L BT (ModuleArgument G) \<longleftrightarrow> (\<exists>n LM. compiled_module L G n LM)"
| "links_only_modules L BT _ \<longleftrightarrow> True"

lemma linked_at_risk:
  assumes "linked M LM M'" and "target_at_risk Name F M"
  shows "target_at_risk Name F M'" and "function_at M F = None \<or> exports LM Name \<Longrightarrow> function_at M' F = None"
proof -
  have kept: "case function_at M F of None \<Rightarrow> function_at M' F = None | Some f \<Rightarrow> survives LM f (function_at M' F)"
    using assms by (auto simp: linked_def target_at_risk_def)
  then show "function_at M F = None \<or> exports LM Name \<Longrightarrow> function_at M' F = None"
    using assms(2) by (cases "function_at M F") (auto simp: target_at_risk_def survives_def)
  show "target_at_risk Name F M'"
    using assms kept
    by (cases "function_at M F") (auto simp: target_at_risk_def linked_def survives_def split: if_splits)
qed

lemma link_module_at_risk:
  assumes over: "overrides_from_src L" and risk: "target_at_risk Name F M" and G: "compiled_module L G n LM"
    and link: "link_module_argument L G M = Inr (M'', c)"
  shows "target_at_risk Name F M'' \<and> (function_at M F = None \<or> n = Name \<longrightarrow> function_at M'' F = None)"
proof -
  obtain M' failed where run: "linkModules L M (UnmarkEntry LM) = (M', failed)"
    by (cases "linkModules L M (UnmarkEntry LM)")
  have M: "module_ok M" "unique_names M" using risk by (simp_all add: target_at_risk_def)
  from link_module_argument_cases [OF over M G run] link obtain k e b where
      l: "linked M (UnmarkEntry LM) M'" "getFunction_named M' n = Some k" "mod_next M \<le> k" "M'' = update_function k make_private M'"
    by (auto split: if_splits)
  have "F \<noteq> k" using risk l(3) by (auto simp: target_at_risk_def)
  moreover note linked_at_risk [OF l(1) risk]
  moreover have "exports LM n" using G by (simp add: compiled_module_def)
  ultimately show ?thesis
    using l(4) by (auto simp: target_at_risk_def make_private_def intro!: unique_names_update)
qed

lemma operands_at_risk:
  assumes over: "overrides_from_src L" and risk: "target_at_risk Name F M" and plain: "links_only_modules L BT Arg"
    and ops: "operands_of L BT HLL w New Arg A M = Inr (M', vs)"
  shows "target_at_risk Name F M' \<and> (function_at M F = None \<longrightarrow> function_at M' F = None) \<and>
    (\<forall>G LM. Arg = ModuleArgument G \<and> compiled_module L G Name LM \<longrightarrow> function_at M' F = None)"
proof (cases Arg)
  case (ModuleArgument G)
  with plain obtain n LM where G: "compiled_module L G n LM" by auto
  moreover obtain c where "link_module_argument L G M = Inr (M', c)"
    using ops ModuleArgument by (auto simp: operands_of_def bindR_eq_Inr split: if_splits)
  ultimately have "target_at_risk Name F M' \<and> (function_at M F = None \<or> n = Name \<longrightarrow> function_at M' F = None)"
    by (rule link_module_at_risk [OF over risk])
  moreover have "m = n" if "compiled_module L G m LM'" for m LM' using that G by (simp add: compiled_module_def)
  ultimately show ?thesis using ModuleArgument by auto
qed (use ops plain risk in \<open>auto simp: operands_of_def bindR_eq_Inr LinkPointerIfPossible_unregistered\<close>)

lemma inline_args_at_risk:
  assumes over: "overrides_from_src L" and plain: "\<forall>a \<in> set (ArgumentMapping C). links_only_modules L BT a"
  shows "n \<le> Context_size C \<Longrightarrow> foldR (inline_arg L BT C HLL w New) [0..<n] (M, vs) = Inr (M', vs') \<Longrightarrow>
    target_at_risk Name F M \<Longrightarrow> target_at_risk Name F M' \<and>
    ((\<exists>i<n. \<exists>G LM. ArgumentMapping C ! i = ModuleArgument G \<and> compiled_module L G Name LM) \<longrightarrow> function_at M' F = None)"
proof (induction n arbitrary: M' vs')
  case (Suc n)
  then obtain M1 vs1 where step: "foldR (inline_arg L BT C HLL w New) [0..<n] (M, vs) = Inr (M1, vs1)"
      "inline_arg L BT C HLL w New n (M1, vs1) = Inr (M', vs')"
    by (auto simp: foldR_append bindR_eq_Inr)
  then obtain ws where ops: "operands_of L BT HLL w New (ArgumentMapping C ! n) (Args HLL ! n) M1 = Inr (M', ws)"
    by (auto simp: inline_arg_Inr)
  have "links_only_modules L BT (ArgumentMapping C ! n)"
    using plain Suc.prems(1) by (simp add: Context_size_def)
  from operands_at_risk [OF over _ this ops] Suc.IH [OF _ step(1) Suc.prems(3)] Suc.prems(1)
  show ?case by (auto simp: less_Suc_eq)
qed simp

lemma target_replaced:
  assumes over: "overrides_from_src L" and M: "module_ok M" "unique_names M" and Name: "Name \<noteq> []"
    and F: "getFunction_named M Name = Some F" "function_at M F = Some Fn" "fun_linkage Fn = ExternalLinkage"
    and plain: "\<forall>a \<in> set (ArgumentMapping C). links_only_modules L BT a"
    and G: "ModuleArgument G \<in> set (ArgumentMapping C)" "compiled_module L G Name LM"
  shows "InlineParameters_runOnModule L BT Name C M \<noteq> Inr r"
proof
  assume "InlineParameters_runOnModule L BT Name C M = Inr r"
  with F(1,2) obtain HLL WM where "HighLevelLayout_new Fn = Inr HLL" "CreateWrapperFun L BT F HLL C M = Inr WM"
    by (auto simp: InlineParameters_runOnModule_def bindR_eq_Inr)
  then obtain New M2 vs where args: "GetInlineArgs L BT C HLL (length (fst (GetWrapperTy New))) New
      (snd (add_function (new_wrapper New) M)) = Inr (M2, vs)" and there: "function_at M2 F \<noteq> None"
    by (auto simp: CreateWrapperFun_def bindR_eq_Inr case_prod_unfold split: if_splits option.splits)
  let ?M1 = "snd (add_function (new_wrapper New) M)"
  have "F < mod_next M" using function_at_bound [OF M(1) F(2)] .
  moreover have "fun_name Fn = Name" using getFunction_named_Some [OF F(1) M(1)] F(2) by auto
  moreover have "unique_names ?M1"
    using M(2) by (simp add: unique_names_def add_function_def new_wrapper_def)
  ultimately have "target_at_risk Name F ?M1"
    using M(1) F(2,3) by (simp add: target_at_risk_def module_ok_add function_at_add_function) (simp add: add_function_def)
  moreover obtain i where "i < Context_size C" "ArgumentMapping C ! i = ModuleArgument G"
    using G(1) by (auto simp: in_set_conv_nth Context_size_def)
  ultimately have "function_at M2 F = None"
    using inline_args_at_risk [OF over plain order.refl, of HLL "length (fst (GetWrapperTy New))" New ?M1 _ M2 vs Name F] args G(2)
    by (auto simp: GetInlineArgs_def)
  with there show False by simp
qed

subsection \<open>Composition with other functions\<close>

definition composable :: "llvm_api \<Rightarrow> string \<Rightarrow> ir_module Argument \<Rightarrow> bool" where
  "composable L Name a \<longleftrightarrow> (\<exists>G n LM. a = ModuleArgument G \<and> compiled_module L G n LM \<and> \<not> exports LM Name \<and>
     (\<forall>M. \<not> snd (linkModules L M (UnmarkEntry LM))))"

definition entry_of :: "llvm_api \<Rightarrow> ir_module Function \<Rightarrow> ir_function \<Rightarrow> bool" where
  "entry_of L G e \<longleftrightarrow> (\<exists>n LM. compiled_module L G n LM \<and> exported LM n e)"

definition private_copy :: "ir_module \<Rightarrow> nat \<Rightarrow> ir_function \<Rightarrow> bool" where
  "private_copy M g e \<longleftrightarrow> (\<exists>n b. function_at M g = Some (e\<lparr>fun_linkage := PrivateLinkage, fun_name := n, fun_body := b\<rparr>))"

definition composed_operand :: "llvm_api \<Rightarrow> ir_module \<Rightarrow> llvm_type \<Rightarrow> ir_module Argument \<Rightarrow> ir_value \<Rightarrow> bool" where
  "composed_operand L M T a v \<longleftrightarrow>
     (case a of ModuleArgument G \<Rightarrow> \<exists>g e. v = ConstVal (GlobalRef g) \<and> entry_of L G e \<and> private_copy M g e
      | _ \<Rightarrow> v = scalar_operand T a)"

text \<open>While the operands are built: the original under its name and the wrapper without one, both external.\<close>

definition building :: "string \<Rightarrow> nat \<Rightarrow> ir_function \<Rightarrow> nat \<Rightarrow> ir_function \<Rightarrow> ir_module \<Rightarrow> bool" where
  "building Name F Fn W w M \<longleftrightarrow> module_ok M \<and> unique_names M \<and> F \<noteq> W \<and> fun_name Fn = Name \<and> fun_name w = [] \<and>
     fun_linkage Fn = ExternalLinkage \<and> fun_linkage w = ExternalLinkage \<and>
     (\<exists>b. function_at M F = Some (Fn\<lparr>fun_body := b\<rparr>)) \<and> (\<exists>b. function_at M W = Some (w\<lparr>fun_body := b\<rparr>))"

lemma link_module_builds:
  assumes over: "overrides_from_src L" and b: "building Name F Fn W w M" and c: "composable L Name (ModuleArgument G)"
  shows "\<exists>M' g e. link_module_argument L G M = Inr (M', GlobalRef g) \<and> building Name F Fn W w M' \<and>
    mod_next M \<le> g \<and> entry_of L G e \<and> private_copy M' g e \<and> (\<forall>h f. private_copy M h f \<longrightarrow> private_copy M' h f) \<and>
    mod_next M \<le> mod_next M' \<and> entry_marks M' = entry_marks M"
proof -
  from c obtain n LM where G: "compiled_module L G n LM" "\<not> exports LM Name" "\<not> snd (linkModules L M (UnmarkEntry LM))"
    by (auto simp: composable_def)
  obtain M' where run: "linkModules L M (UnmarkEntry LM) = (M', False)"
    using G(3) by (cases "linkModules L M (UnmarkEntry LM)") simp
  have M: "module_ok M" "unique_names M" using b by (simp_all add: building_def)
  from link_module_argument_cases [OF over M G(1) run] obtain k e c where e: "exported LM n e"
      and l: "linked M (UnmarkEntry LM) M'" and k: "mod_next M \<le> k" "function_at M' k = Some (e\<lparr>fun_body := c\<rparr>)"
      and res: "link_module_argument L G M = Inr (update_function k make_private M', GlobalRef k)"
    by auto
  let ?M = "update_function k make_private M'"
  obtain bF bW where at: "function_at M F = Some (Fn\<lparr>fun_body := bF\<rparr>)" "function_at M W = Some (w\<lparr>fun_body := bW\<rparr>)"
    using b by (auto simp: building_def)
  have old: "h \<noteq> k" if "function_at M h = Some f" for h f using function_at_bound [OF M(1) that] k(1) by simp
  have "\<not> exports LM []" using exports_named by blast
  then have "\<exists>b. function_at ?M F = Some (Fn\<lparr>fun_body := b\<rparr>)" "\<exists>b. function_at ?M W = Some (w\<lparr>fun_body := b\<rparr>)"
    using linked_external_survivor [OF l M(1) at(1)] linked_external_survivor [OF l M(1) at(2)] b G(2) old [OF at(1)] old [OF at(2)]
    by (auto simp: building_def)
  moreover have "module_ok ?M" "unique_names ?M"
    using l by (auto simp: linked_def make_private_def intro: unique_names_update)
  ultimately have "building Name F Fn W w ?M" using b unfolding building_def by blast
  moreover have "private_copy ?M h f" if "private_copy M h f" for h f
  proof -
    from that obtain m d where h: "function_at M h = Some (f\<lparr>fun_linkage := PrivateLinkage, fun_name := m, fun_body := d\<rparr>)"
      by (auto simp: private_copy_def)
    from linked_survivor [OF l M(1) h] old [OF h] show ?thesis by (auto simp: private_copy_def)
  qed
  moreover have "private_copy ?M k e"
    using k(2) unfolding private_copy_def make_private_def
    by (intro exI [of _ "fun_name e"] exI [of _ c]) (auto intro: ir_function.equality)
  moreover have "entry_of L G e" using G(1) e by (auto simp: entry_of_def)
  ultimately show ?thesis
    using res l k(1) by (intro exI [of _ ?M] exI [of _ k] exI [of _ e]) (simp add: linked_def entry_marks_unmark)
qed

text \<open>The loop over the arguments, for scalars and modules.\<close>

definition composed_context :: "llvm_api \<Rightarrow> BitcodeTracker \<Rightarrow> string \<Rightarrow> ir_function \<Rightarrow> ir_module Argument list \<Rightarrow> bool" where
  "composed_context L BT Name F C \<longleftrightarrow> fun_params F \<noteq> [] \<and> \<not> hasStructRetAttr F \<and>
     list_all2 (\<lambda>T a. scalar_ok BT T a \<or> composable L Name a) (fun_params F) C \<and> gapless C \<and> forwards_once C"

definition refers_to :: "ir_value \<Rightarrow> nat \<Rightarrow> bool" where
  "refers_to v g \<longleftrightarrow> v = ConstVal (GlobalRef g)"

definition operands_built ::
    "llvm_api \<Rightarrow> llvm_type list \<Rightarrow> ir_module Argument list \<Rightarrow> ir_value list \<Rightarrow> ir_module \<Rightarrow> bool" where
  "operands_built L Ts C args M \<longleftrightarrow>
     (\<forall>i<length args. composed_operand L M (Ts ! i) (C ! i) (args ! i) \<and>
        (\<forall>g. refers_to (args ! i) g \<longrightarrow> g < mod_next M \<and> (\<forall>j<i. \<not> refers_to (args ! j) g)))"

lemma operands_built_snoc:
  assumes "operands_built L Ts C args M" and "mod_next M \<le> mod_next M'" and "\<forall>h f. private_copy M h f \<longrightarrow> private_copy M' h f"
    and "composed_operand L M' (Ts ! length args) (C ! length args) v"
    and "\<forall>g. refers_to v g \<longrightarrow> mod_next M \<le> g \<and> g < mod_next M'"
  shows "operands_built L Ts C (args @ [v]) M'"
proof -
  have "composed_operand L M' T a u" if "composed_operand L M T a u" for T a u
    using that assms(3) by (auto simp: composed_operand_def split: Argument.splits)
  with assms show ?thesis
    unfolding operands_built_def by (fastforce simp: nth_append less_Suc_eq)
qed

lemma scalar_operand_no_reference [simp]: "\<not> refers_to (scalar_operand T a) g"
  by (cases a) (simp_all add: refers_to_def)

lemma operand_step:
  assumes over: "overrides_from_src L" and ctx: "composed_context L BT Name Fn C" and n: "n < length C"
    and b: "building Name F Fn W w M" and args: "length args = n" "operands_built L (fun_params Fn) C args M"
  shows "\<exists>M' v. operands_of L BT (layout_of Fn) (NNewArgs C) (plain_wrapper C Fn) (C ! n) (param_arg (fun_params Fn) n) M =
      Inr (M', [Some v]) \<and> building Name F Fn W w M' \<and> operands_built L (fun_params Fn) C (args @ [v]) M' \<and>
      entry_marks M' = entry_marks M"
proof (cases "scalar_ok BT (fun_params Fn ! n) (C ! n)")
  case True
  let ?v = "scalar_operand (fun_params Fn ! n) (C ! n)"
  have "composed_operand L M (fun_params Fn ! n) (C ! n) ?v"
    using True by (cases "C ! n") (simp_all add: composed_operand_def)
  with args have "operands_built L (fun_params Fn) C (args @ [?v]) M"
    by (intro operands_built_snoc [OF args(2)]) simp_all
  moreover have "operands_of L BT (layout_of Fn) (NNewArgs C) (plain_wrapper C Fn) (C ! n) (param_arg (fun_params Fn) n) M =
      Inr (M, [Some ?v])"
    using ctx n True by (intro scalar_operand_at) (simp_all add: composed_context_def)
  ultimately show ?thesis using b by blast
next
  case False
  with ctx n have c: "composable L Name (C ! n)" by (auto simp: composed_context_def list_all2_conv_all_nth)
  then obtain G where G: "C ! n = ModuleArgument G" by (auto simp: composable_def)
  from link_module_builds [OF over b c [unfolded G]] obtain M' g e where l: "link_module_argument L G M = Inr (M', GlobalRef g)"
      "building Name F Fn W w M'" "mod_next M \<le> g" "entry_of L G e" "private_copy M' g e"
      "\<forall>h f. private_copy M h f \<longrightarrow> private_copy M' h f" "mod_next M \<le> mod_next M'" "entry_marks M' = entry_marks M" by blast
  have "g < mod_next M'" using l(2,5) by (auto simp: building_def private_copy_def dest: function_at_bound)
  moreover have "composed_operand L M' T (C ! n) (ConstVal (GlobalRef g))" for T
    using G l(4,5) by (auto simp: composed_operand_def)
  ultimately have "operands_built L (fun_params Fn) C (args @ [ConstVal (GlobalRef g)]) M'"
    using args(1) l(3) by (intro operands_built_snoc [OF args(2) l(7,6)]) (simp_all add: refers_to_def)
  with l G show ?thesis by (auto simp: operands_of_def param_arg_def)
qed

lemma composed_args_loop:
  assumes over: "overrides_from_src L" and ctx: "composed_context L BT Name Fn (ArgumentMapping C)"
    and b: "building Name F Fn W w M"
  shows "n \<le> Context_size C \<Longrightarrow> \<exists>M' args.
    foldR (inline_arg L BT C (layout_of Fn) (NNewArgs (ArgumentMapping C)) (plain_wrapper (ArgumentMapping C) Fn))
      [0..<n] (M, []) = Inr (M', map Some args) \<and> length args = n \<and> building Name F Fn W w M' \<and>
    operands_built L (fun_params Fn) (ArgumentMapping C) args M' \<and> entry_marks M' = entry_marks M"
proof (induction n)
  case 0
  show ?case using b by (intro exI [of _ M] exI [of _ "[]"]) (simp add: operands_built_def)
next
  case (Suc n)
  let ?C = "ArgumentMapping C"
  from Suc obtain M1 args where IH: "foldR (inline_arg L BT C (layout_of Fn) (NNewArgs ?C) (plain_wrapper ?C Fn))
      [0..<n] (M, []) = Inr (M1, map Some args)" "length args = n" "building Name F Fn W w M1"
      "operands_built L (fun_params Fn) ?C args M1" "entry_marks M1 = entry_marks M" by auto
  have n: "n < length ?C" "n < length (fun_params Fn)"
    using Suc.prems ctx by (auto simp: Context_size_def composed_context_def dest: list_all2_lengthD)
  from operand_step [OF over ctx n(1) IH(3,2,4)] obtain M' v where
      "operands_of L BT (layout_of Fn) (NNewArgs ?C) (plain_wrapper ?C Fn) (?C ! n) (param_arg (fun_params Fn) n) M1 =
        Inr (M', [Some v])" "building Name F Fn W w M'" "operands_built L (fun_params Fn) ?C (args @ [v]) M'"
      "entry_marks M' = entry_marks M1" by blast
  moreover from this(1) n have "inline_arg L BT C (layout_of Fn) (NNewArgs ?C) (plain_wrapper ?C Fn) n (M1, map Some args) =
      Inr (M', map Some (args @ [v]))"
    by (simp add: inline_arg_Inr Context_size_def)
  ultimately show ?case using IH
    by (intro exI [of _ M'] exI [of _ "args @ [v]"]) (simp add: foldR_append)
qed

subsection \<open>The pass on a composition\<close>

definition composed_wrapper :: "nat \<Rightarrow> ir_function \<Rightarrow> ir_module Argument list \<Rightarrow> ir_value list \<Rightarrow> ir_function" where
  "composed_wrapper F Fn C args = (specialized F Fn C)\<lparr>fun_body :=
     Some [CallInst (DirectCall F) args, if fun_ret Fn = VoidTy then RetVoid else RetCall]\<rparr>"

lemma create_wrapper_composed:
  assumes over: "overrides_from_src L" and ctx: "composed_context L BT Name Fn (ArgumentMapping C)"
    and M: "module_ok M" "unique_names M" and F: "function_at M F = Some Fn" "fun_name Fn = Name" "fun_linkage Fn = ExternalLinkage"
  shows "\<exists>M2 args w. CreateWrapperFun L BT F (layout_of Fn) C M =
      Inr (mod_next M, update_function (mod_next M)
        (\<lambda>_. (composed_wrapper F Fn (ArgumentMapping C) args)\<lparr>fun_name := []\<rparr>) M2) \<and>
    building Name F Fn (mod_next M) w M2 \<and> length args = length (fun_params Fn) \<and>
    operands_built L (fun_params Fn) (ArgumentMapping C) args M2 \<and> entry_marks M2 = entry_marks M"
proof -
  let ?C = "ArgumentMapping C" and ?W = "mod_next M"
  have len: "length ?C = length (fun_params Fn)" and gap: "gapless ?C"
    using ctx by (auto simp: composed_context_def dest: list_all2_lengthD)
  have "ForwardArgument (-1) \<notin> set ?C"
    using ctx by (auto simp: composed_context_def composable_def list_all2_conv_all_nth in_set_conv_nth)
  then obtain New where New: "GetNewLayout C (layout_of Fn) = Inr New"
    using GetNewLayout_total [of C "layout_of Fn"] len by (auto simp: Context_size_def)
  have New_eq: "New = plain_wrapper ?C Fn"
    using new_layout_plain [OF New gap] by (simp add: plain_wrapper_def)
  have ty: "GetWrapperTy New = (wrapper_params ?C (fun_params Fn), fun_ret Fn)"
    by (simp add: New_eq plain_wrapper_def wrapper_type_plain wrapper_params_def)
  let ?M1 = "snd (add_function (new_wrapper New) M)" and ?w = "new_wrapper New"
  have neq: "F \<noteq> ?W" using function_at_bound [OF M(1) F(1)] by simp
  have "unique_names ?M1" using M(2) by (simp add: unique_names_def add_function_def new_wrapper_def)
  moreover have "function_at ?M1 F = Some (Fn\<lparr>fun_body := fun_body Fn\<rparr>)" "function_at ?M1 ?W = Some (?w\<lparr>fun_body := fun_body ?w\<rparr>)"
    using F(1) neq by (simp_all add: function_at_add_function [OF M(1)])
  moreover have "fun_name ?w = []" "fun_linkage ?w = ExternalLinkage" by (simp_all add: new_wrapper_def)
  ultimately have "building Name F Fn ?W ?w ?M1"
    unfolding building_def using M(1) F(2,3) neq module_ok_add(1) by blast
  from composed_args_loop [OF over ctx this order.refl] obtain M2 args where
      loop: "foldR (inline_arg L BT C (layout_of Fn) (NNewArgs ?C) New) [0..<Context_size C] (?M1, []) = Inr (M2, map Some args)"
      and args: "length args = Context_size C" "building Name F Fn ?W ?w M2" "operands_built L (fun_params Fn) ?C args M2"
        "entry_marks M2 = entry_marks ?M1"
    unfolding New_eq by blast
  from args(2) obtain bF bW where at: "function_at M2 F = Some (Fn\<lparr>fun_body := bF\<rparr>)" "function_at M2 ?W = Some (?w\<lparr>fun_body := bW\<rparr>)"
    by (auto simp: building_def)
  have same: "layout_of (Fn\<lparr>fun_body := bF\<rparr>) = layout_of Fn" "plain_wrapper ?C (Fn\<lparr>fun_body := bF\<rparr>) = New"
    by (simp_all add: layout_of_def plain_wrapper_def New_eq)
  have remap: "RemapAttributes (Fn\<lparr>fun_body := bF\<rparr>) (layout_of Fn) New (finish_wrapper F (layout_of Fn) args (?w\<lparr>fun_body := bW\<rparr>)) =
      Inr ((composed_wrapper F Fn ?C args)\<lparr>fun_name := []\<rparr>)"
    using RemapAttributes_plain [of ?C "Fn\<lparr>fun_body := bF\<rparr>"] len gap ty
    by (simp add: same finish_wrapper_def new_wrapper_def composed_wrapper_def specialized_def cong: if_cong)
  have n: "length (fst (GetWrapperTy New)) = NNewArgs ?C" using ty by (simp add: wrapper_params_def)
  obtain M1 where add: "add_function ?w M = (?W, M1)" by (simp add: add_function_def)
  have get: "GetInlineArgs L BT C (layout_of Fn) (length (fst (GetWrapperTy New))) New M1 = Inr (M2, map Some args)"
    unfolding GetInlineArgs_def n using loop add by simp
  have ops: "None \<notin> set (map Some args)" "map the (map Some args) = args" by (auto simp: comp_def)
  have "CreateWrapperFun L BT F (layout_of Fn) C M =
      Inr (?W, update_function ?W (\<lambda>_. (composed_wrapper F Fn ?C args)\<lparr>fun_name := []\<rparr>) M2)"
    by (simp only: CreateWrapperFun_def New bindR_simps add get ops at remap prod.case option.case if_False)
  moreover have "length args = length (fun_params Fn)" "entry_marks M2 = entry_marks M"
    using args(1,4) len by (simp_all add: Context_size_def)
  ultimately show ?thesis using args(2,3) by blast
qed

lemma takeName_replaces:
  assumes M: "module_ok M" "unique_names M" and Name: "Name \<noteq> []" and neq: "F \<noteq> W"
    and F: "function_at M F = Some f" "fun_name f = Name" and W: "function_at M W = Some w0" and w: "fun_name w = Name"
  shows "getFunction_named (update_function F (\<lambda>f. f\<lparr>fun_linkage := PrivateLinkage, fun_name := []\<rparr>)
    (update_function W (\<lambda>_. w) M)) Name = Some W"
proof -
  let ?g = "\<lambda>(j, x). (j, if j = F then x\<lparr>fun_linkage := PrivateLinkage, fun_name := []\<rparr> else if j = W then w else x)"
  have funs: "mod_funs (update_function F (\<lambda>f. f\<lparr>fun_linkage := PrivateLinkage, fun_name := []\<rparr>) (update_function W (\<lambda>_. w) M)) =
      map ?g (mod_funs M)"
    using neq by (auto simp: update_function_def)
  have "fst x = W" if "x \<in> set (map ?g (mod_funs M))" "fun_name (snd x) = Name" for x
  proof -
    from that(1) obtain j h where "(j, h) \<in> set (mod_funs M)" "x = ?g (j, h)" by auto
    with that(2) unique_function [OF M(2) _ function_at_mem [OF F(1)], of j h] F(2) Name show ?thesis
      by (auto split: if_splits)
  qed
  moreover have "(W, w) \<in> set (map ?g (mod_funs M))"
    using function_at_mem [OF W] neq by force
  ultimately have "find_by (\<lambda>f. fun_name f = Name) (map ?g (mod_funs M)) = Some W"
    using w by (intro find_by_only) auto
  then show ?thesis by (simp add: getFunction_named_def funs)
qed

lemma private_copy_linkage: "private_copy M g e \<Longrightarrow> function_at M g = Some f \<Longrightarrow> fun_linkage f = PrivateLinkage"
  by (auto simp: private_copy_def)

lemma MarkAsEntry_next [simp]: "mod_next (MarkAsEntry n M) = mod_next M"
  by (simp add: MarkAsEntry_def Let_def getOrInsertNamedMetadata_def split: option.split)

lemma private_copy_update:
  "private_copy M g e \<Longrightarrow> g \<noteq> i \<Longrightarrow> private_copy (update_function i f M) g e"
  "private_copy (MarkAsEntry n M) g e \<longleftrightarrow> private_copy M g e"
  by (simp_all add: private_copy_def)

lemma composed_pass:
  assumes over: "overrides_from_src L" and ctx: "composed_context L BT Name Fn (ArgumentMapping C)"
    and M: "module_ok M" "unique_names M" and Name: "Name \<noteq> []"
    and F: "getFunction_named M Name = Some F" "function_at M F = Some Fn" "fun_linkage Fn = ExternalLinkage"
  shows "\<exists>M' args. InlineParameters_runOnModule L BT Name C M = Inr (True, M') \<and>
    getFunction_named M' Name = Some (mod_next M) \<and>
    function_at M' (mod_next M) = Some (composed_wrapper F Fn (ArgumentMapping C) args) \<and>
    (\<exists>b. function_at M' F = Some (Fn\<lparr>fun_linkage := PrivateLinkage, fun_name := [], fun_body := b\<rparr>)) \<and>
    length args = length (fun_params Fn) \<and> operands_built L (fun_params Fn) (ArgumentMapping C) args M' \<and>
    entry_marks M' = entry_marks M @ [Name]"
proof -
  let ?C = "ArgumentMapping C" and ?W = "mod_next M"
  have name: "fun_name Fn = Name" using getFunction_named_Some [OF F(1) M(1)] F(2) by auto
  from create_wrapper_composed [OF over ctx M F(2) name F(3)] obtain M2 args w where
      W: "CreateWrapperFun L BT F (layout_of Fn) C M =
        Inr (?W, update_function ?W (\<lambda>_. (composed_wrapper F Fn ?C args)\<lparr>fun_name := []\<rparr>) M2)"
      and b: "building Name F Fn ?W w M2" and args: "length args = length (fun_params Fn)"
      "operands_built L (fun_params Fn) ?C args M2" "entry_marks M2 = entry_marks M" by blast
  let ?w = "composed_wrapper F Fn ?C args" and ?g = "\<lambda>f. f\<lparr>fun_linkage := PrivateLinkage, fun_name := []\<rparr>"
  let ?M' = "update_function F ?g (update_function ?W (\<lambda>_. ?w) M2)"
  have w: "?w\<lparr>fun_name := [], fun_name := Name, fun_cc := 0\<rparr> = ?w" "fun_name ?w = Name"
    using name by (simp_all add: composed_wrapper_def specialized_def)
  from b obtain c d where at: "function_at M2 F = Some (Fn\<lparr>fun_body := c\<rparr>)" "function_at M2 ?W = Some (w\<lparr>fun_body := d\<rparr>)"
      and neq: "F \<noteq> ?W" and ok: "module_ok M2" "unique_names M2" by (auto simp: building_def)
  have commute: "update_function ?W f (update_function F g X) = update_function F g (update_function ?W f X)" for f g X
    using neq by (simp add: update_function_commute)
  have "HighLevelLayout_new Fn = Inr (layout_of Fn)"
    using ctx by (simp add: HighLevelLayout_new_eq composed_context_def)
  then have run: "InlineParameters_runOnModule L BT Name C M = Inr (True, MarkAsEntry Name ?M')"
    using F(1,2) W at(1) neq w(1) name
    by (simp add: InlineParameters_runOnModule_def Let_def update_function_twice commute)
  have named: "getFunction_named ?M' Name = Some ?W"
    using takeName_replaces [OF ok Name neq at(1) _ at(2) w(2)] name by simp
  have ext: "fun_linkage Fn = ExternalLinkage" "fun_linkage w = ExternalLinkage" using b by (simp_all add: building_def)
  have "h \<noteq> F \<and> h \<noteq> ?W" if "private_copy M2 h e" for h e
    using private_copy_linkage [OF that] at ext by auto
  then have keep: "\<forall>h e. private_copy M2 h e \<longrightarrow> private_copy ?M' h e" by (simp add: private_copy_update)
  have "composed_operand L (MarkAsEntry Name ?M') T a u" if "composed_operand L M2 T a u" for T a u
    using that keep unfolding composed_operand_def private_copy_update(2) by (auto split: Argument.splits)
  then have "operands_built L (fun_params Fn) ?C args (MarkAsEntry Name ?M')"
    using args(2) by (simp add: operands_built_def MarkAsEntry_next)
  moreover have "\<exists>b. function_at ?M' F = Some (Fn\<lparr>fun_linkage := PrivateLinkage, fun_name := [], fun_body := b\<rparr>)"
    using at(1) neq by (intro exI [of _ c]) (auto intro: ir_function.equality)
  moreover have "function_at ?M' ?W = Some ?w" using at(2) neq by simp
  ultimately show ?thesis
    using run named args(1,3) by (intro exI [of _ "MarkAsEntry Name ?M'"] exI [of _ args]) (simp add: entry_marks_mark)
qed

subsection \<open>Composition through \<open>easy::jit\<close>\<close>

lemma composed_context_emit:
  "composed_context L BT Name (snd (EmitCodes_runOnFunction N C f)) As = composed_context L BT Name f As"
  by (simp add: composed_context_def hasStructRetAttr_def EmitCodes_frame)

lemma EmitCodes_linkage: "fun_linkage (snd (EmitCodes_runOnFunction N C f)) = fun_linkage f"
  by (simp add: EmitCodes_runOnFunction_def Let_def split: option.split)

text \<open>
  C6. Composition: when a call of \<open>easy::jit\<close> for a registered function binds scalars, placeholders and functions that
  \<open>easy::jit\<close> compiled before, none of whose modules exports the name of the function being specialized, and linking
  succeeds, then the call returns a wrapper. In the module that is handed to the standard passes the function's name denotes
  the specialized function, which calls the original with one operand per parameter. For a compiled function the operand is
  a function of its own: a private copy of the entry of that function's module, with the same signature and
  attributes, even if one compiled function is bound twice or two of them have the same name. The original is kept, private
  and without a name. The specialized function is the only entry that is added: the marks of the linked modules are erased.
\<close>
theorem jit_composed:
  assumes "overrides_from_src L" and "registered_function L (tracker S) p Info Fn" and "fun_linkage Fn = ExternalLinkage"
    and "host_ready J C" and "get_context_for E T args = Inr C" and "FuncType T (map arg_type args) = Inr (TWrapper r Q)"
    and "composed_context L (tracker S) (fi_Name Info) Fn (ArgumentMapping C)"
    and "getModule (parseBitcodeFile L) (tracker S) p = Inr M"
  shows "\<exists>H S' M1 W F f ops. process_jit E L J t T p args S = (Inr (TWrapper r Q, wrapper_of H), S') \<and>
    M_obj H = standard_passes J (OptLevel C) (OptSize C) M1 \<and>
    getFunction_named M (fi_Name Info) = Some F \<and> f = snd (EmitCodes_runOnFunction (fi_Name Info) C Fn) \<and>
    getFunction_named M1 (fi_Name Info) = Some W \<and>
    function_at M1 W = Some (composed_wrapper F f (ArgumentMapping C) ops) \<and>
    (\<exists>b. function_at M1 F = Some (f\<lparr>fun_linkage := PrivateLinkage, fun_name := [], fun_body := b\<rparr>)) \<and>
    length ops = length (fun_params Fn) \<and>
    (\<forall>i<length ops. composed_operand L M1 (fun_params Fn ! i) (ArgumentMapping C ! i) (ops ! i)) \<and>
    (\<forall>i<length ops. \<forall>j<i. \<forall>g. refers_to (ops ! i) g \<longrightarrow> \<not> refers_to (ops ! j) g) \<and>
    entry_marks M1 = entry_marks M @ [fi_Name Info]"
proof -
  let ?f = "snd (EmitCodes_runOnFunction (fi_Name Info) C Fn)" and ?E = "run_EmitCodes (fi_Name Info) C M"
  from assms(2,8) obtain F mapped where r: "um_find (=) p (Functions (tracker S)) = Some Info"
      "module_ok M" "unique_names M" "fi_Name Info \<noteq> []" "getFunction_named M (fi_Name Info) = Some F"
      "function_at M F = Some Fn" "self_contained (tracker S) M Fn"
      "(case fi_Globals Info of None \<Rightarrow> Inr [] | Some gs \<Rightarrow> MapGlobals gs) = Inr mapped"
    unfolding registered_function_def by auto
  from assms(4) have h: "has_target J" "\<forall>M'. engine_ok J M'" "DebugFile C = [] \<or> open_error J (DebugFile C) = None"
    by (simp_all add: host_ready_def)
  have ctx: "composed_context L (tracker S) (fi_Name Info) ?f (ArgumentMapping C)"
    using assms(7) by (simp add: composed_context_emit)
  have "module_ok ?E" "unique_names ?E" "getFunction_named ?E (fi_Name Info) = Some F" "function_at ?E F = Some ?f"
      "fun_linkage ?f = ExternalLinkage"
    using r assms(3) by (simp_all add: run_EmitCodes_facts EmitCodes_linkage)
  from composed_pass [OF assms(1) ctx this(1,2) r(4) this(3-5)] obtain M1 ops where pass:
      "InlineParameters_runOnModule L (tracker S) (fi_Name Info) C ?E = Inr (True, M1)"
      "getFunction_named M1 (fi_Name Info) = Some (mod_next ?E)"
      "function_at M1 (mod_next ?E) = Some (composed_wrapper F ?f (ArgumentMapping C) ops)"
      "\<exists>b. function_at M1 F = Some (?f\<lparr>fun_linkage := PrivateLinkage, fun_name := [], fun_body := b\<rparr>)"
      "length ops = length (fun_params ?f)" "operands_built L (fun_params ?f) (ArgumentMapping C) ops M1"
      "entry_marks M1 = entry_marks ?E @ [fi_Name Info]" by blast
  from Compile_of_pass [OF r(1) assms(8) r(5-7) pass(1) h r(8), of "thread_view t S"] obtain H where
      "fst (Compile L J (tracker S) p C (thread_view t S)) = Inr H" "M_obj H = standard_passes J (OptLevel C) (OptSize C) M1"
    by auto
  then have "process_jit E L J t T p args S = (Inr (TWrapper r Q, wrapper_of H), after_compile L J t p C S)"
    using assms(5,6) by (simp add: process_jit_def process_jit_with_context_def jit_with_context_def process_compiler_def)
  with pass(2-) r(5) \<open>M_obj H = _\<close> show ?thesis
    unfolding operands_built_def run_EmitCodes_facts EmitCodes_frame by blast
qed

text \<open>An example: a function that takes a function pointer and a number, and a compiled function of one number.\<close>

definition apply_fun :: ir_function where
  "apply_fun = \<lparr>fun_name = ''apply'', fun_ret = IntegerTy 32,
     fun_params = [PointerTy (FunctionTy (IntegerTy 32) [IntegerTy 32] False), IntegerTy 32],
     fn_attrs = [], param_attrs = (\<lambda>_. []), fun_linkage = ExternalLinkage, fun_cc = 0, fun_body = Some [OtherInst 0]\<rparr>"

definition apply_module :: ir_module where
  "apply_module = \<lparr>mod_funs = [(0, apply_fun)], mod_globals = [], mod_next = 1, named_md = []\<rparr>"

definition inc_fun :: ir_function where
  "inc_fun = \<lparr>fun_name = ''inc'', fun_ret = IntegerTy 32, fun_params = [IntegerTy 32],
     fn_attrs = [], param_attrs = (\<lambda>_. []), fun_linkage = ExternalLinkage, fun_cc = 0, fun_body = Some [RetCall]\<rparr>"

definition inc_module :: ir_module where
  "inc_module = MarkAsEntry ''inc'' \<lparr>mod_funs = [(0, inc_fun)], mod_globals = [], mod_next = 1, named_md = []\<rparr>"

definition inc_function :: "ir_module Function" where
  "inc_function = \<lparr>Address = 1, M_ptr = 2, M_obj = inc_module\<rparr>"

definition compose_api :: llvm_api where
  "compose_api = \<lparr>parseBitcodeFile = (\<lambda>bs. if bs = [1] then Some inc_module else if bs = [5] then Some apply_module else None), WriteBitcodeToFile = (\<lambda>M. [1]),
     linkModules = shadowing_link, data_layout = packed_layout\<rparr>"

lemma inc_function_compiled: "compiled_module compose_api inc_function n LM \<longleftrightarrow> n = ''inc'' \<and> LM = inc_module"
  and inc_exports: "exports inc_module n \<longleftrightarrow> n = ''inc''"
proof -
  have funs: "mod_funs inc_module = [(0, inc_fun)]" by (simp add: inc_module_def)
  show ex: "exports inc_module n \<longleftrightarrow> n = ''inc''" for n
    by (auto simp: exports_iff exported_functions_def funs inc_fun_def)
  have "entry_marks inc_module = [''inc'']"
    unfolding inc_module_def entry_marks_mark by (simp add: entry_marks_def getNamedMetadata_def List.map_filter_simps)
  then show "compiled_module compose_api inc_function n LM \<longleftrightarrow> n = ''inc'' \<and> LM = inc_module"
    by (auto simp: compiled_module_def inc_function_def compose_api_def CloneModuleWithContext_def ex
        GetEntryFunctionName_marks unique_names_def funs)
qed

definition apply_type :: cxx_type where
  "apply_type = TFun (TInt 32 True) [TPointer (TFun (TInt 32 True) [TInt 32 True]), TInt 32 True]"

definition callback_arg :: "ir_module cxx_arg" where
  "callback_arg = \<lparr>arg_type = TPointer (TFun (TInt 32 True) [TInt 32 True]), arg_val = VPtr 96, arg_bytes = replicate 8 0\<rparr>"

definition wrapper_arg :: "ir_module Function \<Rightarrow> ir_module cxx_arg" where
  "wrapper_arg G = \<lparr>arg_type = TLRef (TWrapper (TInt 32 True) [TInt 32 True]), arg_val = VWrapper (Some G), arg_bytes = []\<rparr>"

definition apply_process :: process where
  "apply_process = process_load [easy_register 64 ''apply'' (Some [\<lparr>gm_Name = None, gm_Address = 0\<rparr>]) [5] 1] process_start"

definition apply_info :: FunctionInfo where
  "apply_info = \<lparr>fi_Name = ''apply'', fi_Globals = Some [\<lparr>gm_Name = None, gm_Address = 0\<rparr>], fi_Bitcode = [5], fi_BitcodeLen = 1\<rparr>"

lemma apply_module_facts:
  "module_ok apply_module" "unique_names apply_module" "getFunction_named apply_module ''apply'' = Some 0"
  "function_at apply_module 0 = Some apply_fun" "entry_marks apply_module = []"
  by (simp_all add: module_ok_def unique_names_def apply_module_def apply_fun_def getFunction_named_def find_by_def
      function_at_def entry_marks_def getNamedMetadata_def List.map_filter_simps)

lemma apply_registered:
  assumes "parseBitcodeFile L [5] = Some apply_module"
  shows "um_find (=) 64 (Functions (tracker apply_process)) = Some apply_info"
  "getModule (parseBitcodeFile L) (tracker apply_process) 64 = Inr apply_module"
  "registered_function L (tracker apply_process) 64 apply_info apply_fun"
  "unmarked_bitcode L (tracker apply_process) 64"
proof -
  show info: "um_find (=) 64 (Functions (tracker apply_process)) = Some apply_info"
    by (simp add: apply_process_def process_load_def process_start_def run_registrations_def apply_info_def easy_simps)
  show parse: "getModule (parseBitcodeFile L) (tracker apply_process) 64 = Inr apply_module"
    by (simp add: apply_process_def process_load_def process_start_def run_registrations_def assms easy_simps)
  have "self_contained (tracker apply_process) apply_module apply_fun"
    by (simp add: self_contained_def apply_fun_def List.map_filter_simps)
  moreover have "stub_free apply_fun" by (simp add: stub_free_def apply_fun_def)
  moreover have "fi_Name apply_info = ''apply''" "(case fi_Globals apply_info of None \<Rightarrow> Inr [] | Some gs \<Rightarrow> MapGlobals gs) = Inr []"
    by (simp_all add: apply_info_def)
  ultimately show "registered_function L (tracker apply_process) 64 apply_info apply_fun"
    unfolding registered_function_def using info parse apply_module_facts by auto
  show "unmarked_bitcode L (tracker apply_process) 64"
    using parse apply_module_facts(5) by (simp add: unmarked_bitcode_def)
qed

lemma wrapper_call:
  "get_context_for sample_env apply_type [wrapper_arg G, ph_arg 1] = Inr (Context_new\<lparr>ArgumentMapping := [ModuleArgument G, ForwardArgument 0]\<rparr>)"
  "FuncType apply_type (map arg_type [wrapper_arg G, ph_arg 1]) = Inr (TWrapper (TInt 32 True) [TInt 32 True])"
  by (simp_all add: apply_type_def wrapper_arg_def sample_env_def get_context_for_def
      easy_simps Context_new_def FuncType_def new_function_traits_def map_placeholder_to_type_def max_placeholder_def)

theorem jit_composed_witness:
  "\<exists>H S' W g ret. process_jit sample_env compose_api sample_host 0 apply_type 64 [wrapper_arg inc_function, ph_arg 1] apply_process =
       (Inr (TWrapper (TInt 32 True) [TInt 32 True], wrapper_of H), S') \<and>
     private_copy (M_obj H) g inc_fun \<and> entry_marks (M_obj H) = [''apply''] \<and>
     getFunction_named (M_obj H) ''apply'' = Some W \<and>
     map_option fun_body (function_at (M_obj H) W) = Some (Some [CallInst (DirectCall 0) [ConstVal (GlobalRef g), ArgVal 0], ret])"
proof -
  let ?C = "Context_new\<lparr>ArgumentMapping := [ModuleArgument inc_function, ForwardArgument 0]\<rparr>"
  have C: "ArgumentMapping ?C = [ModuleArgument inc_function, ForwardArgument 0]" by simp
  have ff: "NNewArgs (ArgumentMapping ?C) = 1" "first_forward (ArgumentMapping ?C) 0 = Some 1"
    by (simp_all add: NNewArgs_def first_forward_def)
  have link: "linkModules compose_api = shadowing_link" by (simp add: compose_api_def)
  have ctx: "composed_context compose_api (tracker apply_process) (fi_Name apply_info) apply_fun (ArgumentMapping ?C)"
    using ff by (auto simp: composed_context_def composable_def inc_function_compiled inc_exports gapless_def forwards_once_def
        apply_fun_def hasStructRetAttr_def link shadowing_link_simps less_Suc_eq apply_info_def)
  have over: "overrides_from_src compose_api" by (rule shadowing_link_overrides [OF link])
  have parse: "parseBitcodeFile compose_api [5] = Some apply_module" by (simp add: compose_api_def)
  have host: "host_ready sample_host ?C" by (simp add: host_ready_def sample_host_def Context_new_def)
  have ext: "fun_linkage apply_fun = ExternalLinkage" by (simp add: apply_fun_def)
  from jit_composed [OF over apply_registered(3) [OF parse] ext host wrapper_call(1,2) ctx apply_registered(2) [OF parse], of 0]
  obtain H S' M1 W F f ops where r:
      "process_jit sample_env compose_api sample_host 0 apply_type 64 [wrapper_arg inc_function, ph_arg 1] apply_process =
        (Inr (TWrapper (TInt 32 True) [TInt 32 True], wrapper_of H), S')"
      "M_obj H = standard_passes sample_host (OptLevel ?C) (OptSize ?C) M1"
      "getFunction_named apply_module (fi_Name apply_info) = Some F" "f = snd (EmitCodes_runOnFunction (fi_Name apply_info) ?C apply_fun)"
      "getFunction_named M1 (fi_Name apply_info) = Some W"
      "function_at M1 W = Some (composed_wrapper F f (ArgumentMapping ?C) ops)"
      "length ops = length (fun_params apply_fun)"
      "\<forall>i<length ops. composed_operand compose_api M1 (fun_params apply_fun ! i) (ArgumentMapping ?C ! i) (ops ! i)"
      "entry_marks M1 = entry_marks apply_module @ [fi_Name apply_info]"
    by (elim exE conjE) (rule that; assumption)
  from r(7) obtain a b where ops: "ops = [a, b]" by (auto simp: apply_fun_def length_Suc_conv)
  from r(8) have a: "composed_operand compose_api M1 (fun_params apply_fun ! 0) (ModuleArgument inc_function) a"
      and b: "composed_operand compose_api M1 (fun_params apply_fun ! 1) (ForwardArgument 0) b"
    by (simp_all add: ops less_Suc_eq all_conj_distrib)
  have "e = inc_fun" if "entry_of compose_api inc_function e" for e
    using that by (auto simp: entry_of_def inc_function_compiled exported_def inc_module_def)
  with a obtain g where g: "a = ConstVal (GlobalRef g)" "private_copy M1 g inc_fun" by (auto simp: composed_operand_def)
  have H: "M_obj H = M1" using r(2) by (simp add: sample_host_def)
  have name: "fi_Name apply_info = ''apply''" by (simp add: apply_info_def)
  then have "F = 0" using r(3) apply_module_facts(3) by simp
  moreover have "b = ArgVal 0" using b by (simp add: composed_operand_def)
  ultimately have "map_option fun_body (function_at M1 W) = Some (Some [CallInst (DirectCall 0) [ConstVal (GlobalRef g), ArgVal 0],
      if fun_ret f = VoidTy then RetVoid else RetCall])"
    using r(6) g(1) by (simp add: ops composed_wrapper_def)
  moreover have "entry_marks M1 = [''apply'']" using r(9) apply_module_facts(5) name by simp
  moreover have "getFunction_named M1 ''apply'' = Some W" using r(5) name by simp
  ultimately show ?thesis
    using r(1) g(2) by (intro exI [of _ H] exI [of _ S'] exI [of _ W] exI [of _ g]
        exI [of _ "if fun_ret f = VoidTy then RetVoid else RetCall"]) (simp only: H simp_thms)
qed

subsection \<open>A specialization cannot be bound to its own function\<close>

definition keeps_exports :: "jit_host \<Rightarrow> bool" where
  "keeps_exports J \<longleftrightarrow> (\<forall>lvl sz M n. exports M n \<longrightarrow> exports (standard_passes J lvl sz M) n)"

lemma compile_target_replaced:
  assumes over: "overrides_from_src L" and reg: "registered_function L BT p Info Fn" and ext: "fun_linkage Fn = ExternalLinkage"
    and plain: "\<forall>a \<in> set (ArgumentMapping C). links_only_modules L BT a"
    and G: "ModuleArgument G \<in> set (ArgumentMapping C)" "compiled_module L G (fi_Name Info) LM"
  shows "fst (Compile L J BT p C rt) \<noteq> Inr H"
proof -
  from reg obtain M F where r: "um_find (=) p (Functions BT) = Some Info" "getModule (parseBitcodeFile L) BT p = Inr M"
      "module_ok M" "unique_names M" "fi_Name Info \<noteq> []" "getFunction_named M (fi_Name Info) = Some F"
      "function_at M F = Some Fn" "self_contained BT M Fn"
    unfolding registered_function_def by blast
  let ?E = "run_EmitCodes (fi_Name Info) C M" and ?Fn = "snd (EmitCodes_runOnFunction (fi_Name Info) C Fn)"
  have "fun_linkage ?Fn = ExternalLinkage" using ext by (simp add: EmitCodes_runOnFunction_def Let_def split: option.split)
  then have fails: "InlineParameters_runOnModule L BT (fi_Name Info) C ?E \<noteq> Inr x" for x
    using target_replaced [OF over _ _ r(5) _ _ _ plain G, of ?E F ?Fn x] r(3,4,6,7) by (simp add: run_EmitCodes_facts)
  have "fst (Optimize L J BT (fi_Name Info) C a b M rt') \<noteq> Inr x" for a b rt' x
    using fails by (auto simp: Optimize_def bindR_eq_Inr split: sum.split prod.split)
  then show ?thesis
    using r(1,2) resolve_self_contained [OF r(6,7,8)]
    by (auto simp: Compile_def getNameAndGlobalMapping_def split: sum.splits prod.splits) (metis fst_conv)
qed

lemma compiled_module_entry:
  assumes reg: "registered_function L BT p Info Fn" and host: "host_ready J C"
    and ctx: "scalar_context BT Fn (ArgumentMapping C)" and G: "fst (Compile L J BT p C rt) = Inr G"
    and keep: "unmarked_bitcode L BT p" "keeps_marks J" "keeps_exports J"
  shows "GetEntryFunctionName (M_obj G) = Inr (fi_Name Info) \<and> exports (M_obj G) (fi_Name Info)"
proof -
  from reg obtain M F mapped where r: "um_find (=) p (Functions BT) = Some Info" "getModule (parseBitcodeFile L) BT p = Inr M"
      "module_ok M" "unique_names M" "fi_Name Info \<noteq> []" "getFunction_named M (fi_Name Info) = Some F"
      "function_at M F = Some Fn" "self_contained BT M Fn"
      "(case fi_Globals Info of None \<Rightarrow> Inr [] | Some gs \<Rightarrow> MapGlobals gs) = Inr mapped"
    unfolding registered_function_def by blast
  from host have h: "has_target J" "\<forall>M'. engine_ok J M'" "DebugFile C = [] \<or> open_error J (DebugFile C) = None"
    by (simp_all add: host_ready_def)
  let ?s = "specialized F (snd (EmitCodes_runOnFunction (fi_Name Info) C Fn)) (ArgumentMapping C)"
  from compile_scalar_result [OF r(1-8) ctx h r(9), of rt] G obtain M1 where
      M1: "M_obj G = standard_passes J (OptLevel C) (OptSize C) M1" "function_at M1 (mod_next M) = Some ?s"
      "entry_marks M1 = entry_marks M @ [fi_Name Info]"
    by auto
  have "fun_name Fn = fi_Name Info" using getFunction_named_Some [OF r(6,3)] r(7) by auto
  then have "exported M1 (fi_Name Info) ?s"
    using function_at_mem [OF M1(2)] r(5) by (auto simp: exported_def specialized_def EmitCodes_frame)
  then have "exports (M_obj G) (fi_Name Info)" using keep(3) M1(1) unfolding keeps_exports_def exports_def by metis
  moreover have "entry_marks (M_obj G) = [fi_Name Info]"
    using keep(1,2) M1(1,3) r(2) by (simp add: unmarked_bitcode_def keeps_marks_def)
  ultimately show ?thesis by (simp add: GetEntryFunctionName_marks)
qed

text \<open>
  C31. A function that takes a callback cannot be specialized for its own specialization: when \<open>easy::jit\<close> has compiled a
  registered function, then no call of \<open>easy::jit\<close> for the same function that binds the compiled function returns a
  wrapper, in any thread and whatever the other scalars and compiled functions are. The entry of the compiled
  module has taken the name of the function, so that linking it shadows the function whose specialization is being built, and
  the pass goes on with a pointer to it.
\<close>
theorem composed_with_itself_fails:
  assumes "scalar_call E (tracker S) T args PL Q Fn" and "get_context_for E T args = Inr C"
    and "registered_function L (tracker S) p Info Fn" and "host_ready J C" and "fun_linkage Fn = ExternalLinkage"
    and "unmarked_bitcode L (tracker S) p" and "keeps_marks J" and "keeps_exports J" and "overrides_from_src L"
    and "process_jit E L J t T p args S = (Inr (W, wrapper_of G), S')"
    and "reads_back L G" and "unique_names (M_obj G)"
    and "get_context_for E T args' = Inr C'" and "ModuleArgument G \<in> set (ArgumentMapping C')"
    and "\<forall>a \<in> set (ArgumentMapping C'). links_only_modules L (tracker S') a"
  shows "fst (process_jit E L J u T p args' S') \<noteq> Inr V"
proof -
  have same: "tracker S' = tracker S"
    using assms(2,10) by (auto simp: process_jit_def process_jit_with_context_def after_compile_def thread_writes_def split: sum.splits)
  have G: "fst (Compile L J (tracker S) p C (thread_view t S)) = Inr G"
    using assms(2,10) by (auto simp: process_jit_def process_jit_with_context_def jit_with_context_def process_compiler_def
        bindR_eq_Inr wrapper_of_def split: sum.splits)
  have ctx: "scalar_context (tracker S) Fn (ArgumentMapping C)"
    using scalar_call_context [OF assms(1,2), of "\<lparr>fp_value = \<lambda>T d. d, symbol_address = \<lambda>_. 0\<rparr>" "replicate (length Q) MVoid"]
    by (simp add: fp_faithful_def)
  from compiled_module_entry [OF assms(3,4) ctx G assms(6-8)]
  have "GetEntryFunctionName (M_obj G) = Inr (fi_Name Info)" "exports (M_obj G) (fi_Name Info)" by blast+
  then have "compiled_module L G (fi_Name Info) (M_obj G)"
    using assms(11,12) by (simp add: compiled_module_def reads_back_def serialize_def CloneModuleWithContext_def)
  from compile_target_replaced [OF assms(9,3,5) _ assms(14) this] assms(15) same
  have "fst (Compile L J (tracker S') p C' rt) \<noteq> Inr H" for rt H by simp
  then show ?thesis
    using assms(13) by (auto simp: process_jit_def process_jit_with_context_def jit_with_context_def process_compiler_def
        bindR_eq_Inr split: sum.splits)
qed

definition applied_context :: "ir_module Context" where
  "applied_context = Context_new\<lparr>ArgumentMapping := [PtrArgument 96, ForwardArgument 0]\<rparr>"

definition applied_module :: ir_module where
  "applied_module = MarkAsEntry ''apply'' (update_function 0 (\<lambda>f. f\<lparr>fun_linkage := PrivateLinkage, fun_name := []\<rparr>)
     (update_function 1 (\<lambda>_. specialized 0 apply_fun (ArgumentMapping applied_context))
       (snd (add_function (new_wrapper (plain_wrapper (ArgumentMapping applied_context) apply_fun)) apply_module))))"

definition apply_api :: llvm_api where
  "apply_api = \<lparr>parseBitcodeFile = (\<lambda>bs. if bs = [5] then Some apply_module else if bs = [6] then Some applied_module else None),
     WriteBitcodeToFile = (\<lambda>M. [6]), linkModules = shadowing_link, data_layout = packed_layout\<rparr>"

lemma apply_parse: "parseBitcodeFile apply_api [5] = Some apply_module"
  by (simp add: apply_api_def)

lemma apply_calls:
  "get_context_for sample_env apply_type [callback_arg, ph_arg 1] = Inr applied_context"
  "get_context_for sample_env apply_type [wrapper_arg G, ph_arg 1] = Inr (Context_new\<lparr>ArgumentMapping := [ModuleArgument G, ForwardArgument 0]\<rparr>)"
  "FunOriginalTy apply_type = TFun (TInt 32 True) [TPointer (TFun (TInt 32 True) [TInt 32 True]), TInt 32 True]"
  "FuncType apply_type (map arg_type [callback_arg, ph_arg 1]) = Inr (TWrapper (TInt 32 True) [TInt 32 True])"
  by (simp_all add: apply_type_def callback_arg_def wrapper_arg_def sample_env_def applied_context_def get_context_for_def
      easy_simps Context_new_def FuncType_def new_function_traits_def map_placeholder_to_type_def max_placeholder_def)

lemma apply_scalar_call:
  "scalar_call sample_env (tracker apply_process) apply_type [callback_arg, ph_arg 1]
     [TPointer (TFun (TInt 32 True) [TInt 32 True]), TInt 32 True] [TInt 32 True] apply_fun"
proof -
  have "\<not> hasGlobalMapping (tracker apply_process) 96"
    by (simp add: apply_process_def process_load_def process_start_def run_registrations_def hasGlobalMapping_def easy_simps)
  then have "\<forall>a \<in> set [callback_arg, ph_arg 1]. scalar_argument (tracker apply_process) a"
    by (simp add: callback_arg_def scalar_argument_def easy_simps)
  moreover have "placeholders_once [callback_arg, ph_arg 1]"
    by (simp add: placeholders_once_def callback_arg_def easy_simps)
  moreover have "list_all2 lowers [TPointer (TFun (TInt 32 True) [TInt 32 True]), TInt 32 True] (fun_params apply_fun)"
    "\<not> hasStructRetAttr apply_fun" by (simp_all add: apply_fun_def hasStructRetAttr_def)
  ultimately show ?thesis using apply_calls(3,4) unfolding scalar_call_def by auto
qed

lemma apply_compiled:
  assumes "fst (Compile apply_api sample_host (tracker apply_process) 64 applied_context rt) = Inr G"
  shows "M_obj G = applied_module"
proof -
  have emit: "run_EmitCodes ''apply'' applied_context apply_module = apply_module"
    by (simp add: run_EmitCodes_def apply_module_def EmitCodes_runOnFunction_def apply_fun_def)
  have "scalar_context (tracker apply_process) apply_fun (ArgumentMapping applied_context)"
    using scalar_call_context [OF apply_scalar_call apply_calls(1), of sample_ir_env "[MInt 0]"]
    by (simp add: fp_faithful_def sample_ir_env_def sample_env_def)
  from run_scalar [OF apply_module_facts(1,3,4) this] have inline:
      "InlineParameters_runOnModule apply_api (tracker apply_process) ''apply'' applied_context apply_module = Inr (True, applied_module)"
    by (simp add: applied_module_def apply_module_def)
  have "self_contained (tracker apply_process) apply_module apply_fun"
    by (simp add: self_contained_def apply_fun_def List.map_filter_simps)
  from resolve_self_contained [OF apply_module_facts(3,4) this, of apply_api] emit inline show ?thesis
    using assms apply_registered(1,2) [OF apply_parse]
    by (auto simp: Compile_def getNameAndGlobalMapping_def Optimize_def CompileAndWrap_def GetEngine_def sample_host_def apply_info_def
        split: sum.splits prod.splits if_splits)
qed

theorem composed_with_itself_fails_witness:
  "\<exists>W G S' e. process_jit sample_env apply_api sample_host 0 apply_type 64 [callback_arg, ph_arg 1] apply_process = (Inr (W, wrapper_of G), S') \<and>
     fst (process_jit sample_env apply_api sample_host 1 apply_type 64 [wrapper_arg G, ph_arg 1] S') = Inl e"
proof -
  have host: "host_ready sample_host applied_context" "keeps_marks sample_host" "keeps_exports sample_host"
    by (simp_all add: host_ready_def sample_host_def applied_context_def Context_new_def keeps_marks_def keeps_exports_def)
  have ext: "fun_linkage apply_fun = ExternalLinkage" by (simp add: apply_fun_def)
  have over: "overrides_from_src apply_api" by (rule shadowing_link_overrides) (simp add: apply_api_def)
  have ctx: "scalar_context (tracker apply_process) apply_fun (ArgumentMapping applied_context)"
    using scalar_call_context [OF apply_scalar_call apply_calls(1), of sample_ir_env "[MInt 0]"]
    by (simp add: fp_faithful_def sample_ir_env_def sample_env_def)
  then have "those (map (operand_value sample_ir_env [MInt 0]) (map2 scalar_operand (fun_params apply_fun) (ArgumentMapping applied_context))) =
      Some [MPtr 96, MInt 0]"
    by (simp add: apply_fun_def applied_context_def)
  from compiled_meaning [OF apply_registered(3) [OF apply_parse] host(1) ctx this, of "thread_view 0 apply_process"] obtain G where
      G: "fst (Compile apply_api sample_host (tracker apply_process) 64 applied_context (thread_view 0 apply_process)) = Inr G"
    by blast
  let ?S = "after_compile apply_api sample_host 0 64 applied_context apply_process"
  have jit: "process_jit sample_env apply_api sample_host 0 apply_type 64 [callback_arg, ph_arg 1] apply_process =
      (Inr (TWrapper (TInt 32 True) [TInt 32 True], wrapper_of G), ?S)"
    using G apply_calls(1,4)
    by (simp add: process_jit_def process_jit_with_context_def jit_with_context_def process_compiler_def del: list.map)
  have rb: "reads_back apply_api G" by (simp add: reads_back_def serialize_def apply_compiled [OF G] apply_api_def)
  have un: "unique_names (M_obj G)"
    by (simp add: apply_compiled [OF G] applied_module_def unique_names_def update_function_def add_function_def
        apply_module_def specialized_def apply_fun_def)
  have "compiled_module apply_api G ''apply'' (M_obj G)"
    using compiled_module_entry [OF apply_registered(3) [OF apply_parse] host(1) ctx G apply_registered(4) [OF apply_parse] host(2,3)] un rb
    by (simp add: compiled_module_def reads_back_def serialize_def CloneModuleWithContext_def apply_info_def)
  then have plain: "\<forall>a \<in> set (ArgumentMapping (Context_new\<lparr>ArgumentMapping := [ModuleArgument G, ForwardArgument 0]\<rparr>)).
      links_only_modules apply_api (tracker ?S) a" by auto
  have bound: "ModuleArgument G \<in> set (ArgumentMapping (Context_new\<lparr>ArgumentMapping := [ModuleArgument G, ForwardArgument 0]\<rparr>))"
    by simp
  have "fst (process_jit sample_env apply_api sample_host 1 apply_type 64 [wrapper_arg G, ph_arg 1] ?S) \<noteq> Inr V" for V
    by (rule composed_with_itself_fails [OF apply_scalar_call apply_calls(1) apply_registered(3) [OF apply_parse] host(1) ext apply_registered(4) [OF apply_parse]
          host(2,3) over jit rb un apply_calls(2) bound plain])
  then obtain e where "fst (process_jit sample_env apply_api sample_host 1 apply_type 64 [wrapper_arg G, ph_arg 1] ?S) = Inl e"
    by (metis sum.exhaust)
  with jit show ?thesis by blast
qed

end
