(* ===== verification/Easy_Hook.thy ===== *)
theory Easy_Hook
  imports Easy_Function
begin

text \<open>
  The patch of LLVM's virtual table in \<open>runtime/Function.cpp\<close> (\<open>Hook_getReservedRegs\<close>), one shared memory access
  at a time, so that calls of several threads can be interleaved. \<open>Easy_Function\<close> and \<open>Easy_Process\<close> take the patch
  for a flag; here the flag is refined by the entry of the virtual table and the saved address
  \<open>g_org_getReservedRegsType\<close>, and \<open>dispatch\<close> is the virtual call that the code generator makes.

  The addresses of LLVM's \<open>getReservedRegs\<close> and of \<open>Hooked_getReservedRegsType\<close>, the result of \<open>mprotect\<close> and whether
  the page it is asked for contains the entry are parameters (\<open>Easy_Vtable\<close> computes the last from the addresses). A
  failing \<open>mprotect\<close> and a store to a page that cannot be written end the process (\<open>HookExit\<close>). \<open>dispatch\<close> has fuel, \<open>None\<close> is a call that
  has not returned yet; an address that is neither function is never reached.
\<close>

record hook_host =
  original_fn :: ptr
  hooked_fn :: ptr
  mprotect_ok :: bool
  slot_covered :: bool

record hook_memory =
  vtbl_entry :: ptr
  page_writable :: bool
  g_org :: ptr

datatype hook_pc = HookTest | HookProtect | HookSave | HookPatch | HookDone | HookExit

definition hook_start :: "hook_host \<Rightarrow> hook_memory" where
  "hook_start A = \<lparr>vtbl_entry = original_fn A, page_writable = False, g_org = 0\<rparr>"

fun hook_next :: "hook_host \<Rightarrow> hook_pc \<Rightarrow> hook_memory \<Rightarrow> (hook_pc \<times> hook_memory) option" where
  "hook_next A HookTest v = Some (if g_org v = 0 then HookProtect else HookDone, v)"
| "hook_next A HookProtect v =
     Some (if mprotect_ok A then (HookSave, v\<lparr>page_writable := page_writable v \<or> slot_covered A\<rparr>) else (HookExit, v))"
| "hook_next A HookSave v = Some (HookPatch, v\<lparr>g_org := vtbl_entry v\<rparr>)"
| "hook_next A HookPatch v =
     Some (if page_writable v then (HookDone, v\<lparr>vtbl_entry := hooked_fn A\<rparr>) else (HookExit, v))"
| "hook_next A HookDone v = None"
| "hook_next A HookExit v = None"

fun hook_run :: "nat \<Rightarrow> hook_host \<Rightarrow> hook_pc \<Rightarrow> hook_memory \<Rightarrow> hook_pc \<times> hook_memory" where
  "hook_run 0 A k v = (k, v)"
| "hook_run (Suc n) A k v = (case hook_next A k v of None \<Rightarrow> (k, v) | Some (k', v') \<Rightarrow> hook_run n A k' v')"

fun dispatch :: "nat \<Rightarrow> hook_host \<Rightarrow> hook_memory \<Rightarrow> jit_host \<Rightarrow> ptr \<Rightarrow> runtime \<Rightarrow> (nat set result \<times> runtime) option" where
  "dispatch 0 A v J f rt = None"
| "dispatch (Suc n) A v J f rt =
     (if f = hooked_fn A then
        (let m = (if g_regNameToIdx rt = [] then reg_table (reg_names J) else g_regNameToIdx rt)
         in case dispatch n A v J (g_org v) (rt\<lparr>g_regNameToIdx := m\<rparr>) of
              None \<Rightarrow> None
            | Some (Inl e, rt1) \<Rightarrow> Some (Inl e, rt1)
            | Some (Inr bits, rt1) \<Rightarrow>
                Some (case g_reservedRegs rt1 of
                        LiveRegs regs \<Rightarrow>
                          (case reserve_loop regs (g_regNameToIdx rt1, bits) of
                             (m', bits') \<Rightarrow> (Inr bits', rt1\<lparr>g_regNameToIdx := m'\<rparr>))
                      | _ \<Rightarrow> (Inl UndefinedBehaviour, rt1)))
      else if f = original_fn A then Some (Inr (target_reserved J), rt)
      else None)"

subsection \<open>Threads\<close>

type_synonym hook_state = "(nat \<Rightarrow> hook_pc) \<times> hook_memory"

definition hook_idle :: "hook_host \<Rightarrow> hook_state" where
  "hook_idle A = ((\<lambda>t. HookDone), hook_start A)"

inductive hook_step :: "hook_host \<Rightarrow> nat \<Rightarrow> hook_state \<Rightarrow> hook_state \<Rightarrow> bool" for A t where
  enter: "pc t = HookDone \<Longrightarrow> hook_step A t (pc, v) (pc(t := HookTest), v)"
| move: "hook_next A (pc t) v = Some (k, v') \<Longrightarrow> hook_step A t (pc, v) (pc(t := k), v')"

definition any_step :: "hook_host \<Rightarrow> hook_state \<Rightarrow> hook_state \<Rightarrow> bool" where
  "any_step A s s' \<longleftrightarrow> (\<exists>t. hook_step A t s s')"

definition serial_step :: "hook_host \<Rightarrow> hook_state \<Rightarrow> hook_state \<Rightarrow> bool" where
  "serial_step A s s' \<longleftrightarrow> (\<exists>t. hook_step A t s s' \<and> (\<forall>u. u \<noteq> t \<longrightarrow> fst s u = HookDone))"

definition addresses_ok :: "hook_host \<Rightarrow> bool" where
  "addresses_ok A \<longleftrightarrow> original_fn A \<noteq> 0 \<and> hooked_fn A \<noteq> 0 \<and> original_fn A \<noteq> hooked_fn A"

subsection \<open>Calls that do not overlap\<close>

definition fresh_hook :: "hook_host \<Rightarrow> hook_memory \<Rightarrow> bool" where
  "fresh_hook A v \<longleftrightarrow> vtbl_entry v = original_fn A \<and> g_org v = 0 \<and> (page_writable v \<longrightarrow> slot_covered A)"

definition saved_hook :: "hook_host \<Rightarrow> hook_memory \<Rightarrow> bool" where
  "saved_hook A v \<longleftrightarrow> vtbl_entry v = original_fn A \<and> g_org v = original_fn A"

definition patched_hook :: "hook_host \<Rightarrow> hook_memory \<Rightarrow> bool" where
  "patched_hook A v \<longleftrightarrow> vtbl_entry v = hooked_fn A \<and> g_org v = original_fn A"

fun pc_ok :: "hook_host \<Rightarrow> hook_pc \<Rightarrow> hook_memory \<Rightarrow> bool" where
  "pc_ok A HookTest v \<longleftrightarrow> fresh_hook A v \<or> patched_hook A v"
| "pc_ok A HookProtect v \<longleftrightarrow> fresh_hook A v"
| "pc_ok A HookSave v \<longleftrightarrow> fresh_hook A v \<and> page_writable v = slot_covered A"
| "pc_ok A HookPatch v \<longleftrightarrow> saved_hook A v \<and> page_writable v = slot_covered A"
| "pc_ok A HookDone v \<longleftrightarrow> fresh_hook A v \<or> patched_hook A v"
| "pc_ok A HookExit v \<longleftrightarrow> fresh_hook A v \<or> saved_hook A v"

lemmas hook_defs = fresh_hook_def saved_hook_def patched_hook_def

lemma hook_next_ok:
  "addresses_ok A \<Longrightarrow> pc_ok A k v \<Longrightarrow> hook_next A k v = Some (k', v') \<Longrightarrow> pc_ok A k' v'"
  by (cases k) (auto simp: hook_defs addresses_ok_def split: if_splits)

definition serial_ok :: "hook_host \<Rightarrow> hook_state \<Rightarrow> bool" where
  "serial_ok A s \<longleftrightarrow> (\<exists>t. (\<forall>u. u \<noteq> t \<longrightarrow> fst s u = HookDone) \<and> pc_ok A (fst s t) (snd s))"

lemma serial_step_ok:
  assumes "addresses_ok A" and "serial_ok A s" and "serial_step A s s'"
  shows "serial_ok A s'"
proof -
  from assms(3) obtain t where t: "hook_step A t s s'" "\<forall>u. u \<noteq> t \<longrightarrow> fst s u = HookDone"
    unfolding serial_step_def by blast
  have pc: "pc_ok A (fst s t) (snd s)"
  proof -
    from assms(2) obtain u where u: "\<forall>w. w \<noteq> u \<longrightarrow> fst s w = HookDone" "pc_ok A (fst s u) (snd s)"
      unfolding serial_ok_def by blast
    show ?thesis
    proof (cases "t = u")
      case False
      then have "fst s t = HookDone" "fst s u = HookDone" using u(1) t(2) by simp_all
      with u(2) show ?thesis by simp
    qed (use u in simp)
  qed
  from t(1) show ?thesis
  proof cases
    case (enter pc v)
    with t(2) pc show ?thesis unfolding serial_ok_def by (intro exI [of _ t]) simp
  next
    case (move pc v k v')
    with t(2) pc hook_next_ok [OF assms(1), of "pc t" v k v'] show ?thesis
      unfolding serial_ok_def by (intro exI [of _ t]) simp
  qed
qed

lemma serial_reachable_ok:
  assumes "addresses_ok A" and "(serial_step A)\<^sup>*\<^sup>* (hook_idle A) s"
  shows "serial_ok A s"
  using assms(2)
proof (induction rule: rtranclp_induct)
  case base
  show ?case by (auto simp: serial_ok_def hook_idle_def hook_start_def fresh_hook_def)
next
  case (step s s')
  then show ?case using serial_step_ok [OF assms(1)] by blast
qed

text \<open>The entry of the virtual table and the saved address implement the flag of \<open>Easy_Function\<close>.\<close>

lemma dispatch_refines:
  assumes "addresses_ok A" and "fresh_hook A v \<or> patched_hook A v" and "hooked rt \<longleftrightarrow> g_org v \<noteq> 0"
  shows "dispatch (Suc (Suc n)) A v J (vtbl_entry v) rt = Some (getReservedRegs J rt)"
  using assms
  by (auto simp: hook_defs addresses_ok_def getReservedRegs_def Hooked_getReservedRegs_def Let_def
      split: regs_ptr.split prod.split)

lemma hook_run_refines:
  assumes "fresh_hook A v \<or> patched_hook A v" and "addresses_ok A" and "mprotect_ok A" and "slot_covered A"
  shows "\<exists>v'. hook_run 4 A HookTest v = (HookDone, v') \<and> patched_hook A v'"
  using assms by (auto simp: eval_nat_numeral hook_defs addresses_ok_def)

text \<open>
  C35. The flag is right for calls that do not overlap: whatever threads call \<open>Hook_getReservedRegs\<close> one after
  the other, whenever no call is in progress and \<open>hooked\<close> says whether the saved address is set, the
  virtual call of the code generator returns what \<open>getReservedRegs\<close> says, and the next call of
  \<open>Hook_getReservedRegs\<close> ends within four steps and leaves what the flag says. If \<open>mprotect\<close> fails
  or does not cover the entry, the call ends the process and leaves the table as it was.
\<close>
theorem Hook_getReservedRegs_serial:
  assumes "addresses_ok A" and "(serial_step A)\<^sup>*\<^sup>* (hook_idle A) (pc, v)" and "\<forall>t. pc t = HookDone"
    and "hooked rt \<longleftrightarrow> g_org v \<noteq> 0" and "getFunction_named M Name = Some F"
  shows "dispatch (Suc (Suc n)) A v J (vtbl_entry v) rt = Some (getReservedRegs J rt) \<and>
    (if mprotect_ok A \<and> slot_covered A \<or> hooked rt
     then \<exists>v' rt'. hook_run 4 A HookTest v = (HookDone, v') \<and> Hook_getReservedRegs M Name rt = (Inr (), rt') \<and>
       hooked rt' \<and> vtbl_entry v' = hooked_fn A \<and> g_org v' = original_fn A \<and>
       dispatch (Suc (Suc n)) A v' J (vtbl_entry v') rt' = Some (getReservedRegs J rt')
     else \<exists>v'. hook_run 4 A HookTest v = (HookExit, v') \<and> vtbl_entry v' = vtbl_entry v)"
proof -
  from serial_reachable_ok [OF assms(1,2)] assms(3) have ok: "fresh_hook A v \<or> patched_hook A v"
    by (auto simp: serial_ok_def)
  have on: "Hook_getReservedRegs M Name rt = (Inr (), hook_on rt)" "hooked (hook_on rt)"
    using Hook_installs [OF assms(5)] by (simp_all add: hook_on_def)
  have later: "dispatch (Suc (Suc n)) A v' J (vtbl_entry v') (hook_on rt) = Some (getReservedRegs J (hook_on rt))"
    if "patched_hook A v'" for v'
    using that on(2) assms(1) by (intro dispatch_refines [OF assms(1)]) (simp_all add: hook_defs addresses_ok_def)
  show ?thesis
  proof (intro conjI dispatch_refines [OF assms(1) ok assms(4)])
    have "\<exists>v'. hook_run 4 A HookTest v = (HookDone, v') \<and> patched_hook A v'" if "mprotect_ok A \<and> slot_covered A \<or> hooked rt"
      using that ok assms(1,4) hook_run_refines [OF ok assms(1)] by (auto simp: eval_nat_numeral hook_defs addresses_ok_def)
    moreover have "\<exists>v'. hook_run 4 A HookTest v = (HookExit, v') \<and> vtbl_entry v' = vtbl_entry v"
      if "\<not> (mprotect_ok A \<and> slot_covered A \<or> hooked rt)"
      using that ok assms(1,4) by (auto simp: eval_nat_numeral hook_defs addresses_ok_def)
    ultimately show "if mprotect_ok A \<and> slot_covered A \<or> hooked rt
       then \<exists>v' rt'. hook_run 4 A HookTest v = (HookDone, v') \<and> Hook_getReservedRegs M Name rt = (Inr (), rt') \<and>
         hooked rt' \<and> vtbl_entry v' = hooked_fn A \<and> g_org v' = original_fn A \<and>
         dispatch (Suc (Suc n)) A v' J (vtbl_entry v') rt' = Some (getReservedRegs J rt')
       else \<exists>v'. hook_run 4 A HookTest v = (HookExit, v') \<and> vtbl_entry v' = vtbl_entry v"
      using on later by (auto simp: patched_hook_def simp del: dispatch.simps)
  qed
qed

definition sample_hook_host :: hook_host where
  "sample_hook_host = \<lparr>original_fn = 16, hooked_fn = 32, mprotect_ok = True, slot_covered = True\<rparr>"

lemma sample_addresses: "addresses_ok sample_hook_host" "mprotect_ok sample_hook_host" "slot_covered sample_hook_host"
  by (simp_all add: addresses_ok_def sample_hook_host_def)

text \<open>A call that runs alone, as steps of its thread.\<close>

lemma hook_run_steps:
  assumes "hook_run n A (pc t) v = (k, v')" and "\<forall>u. u \<noteq> t \<longrightarrow> pc u = HookDone"
  shows "(serial_step A)\<^sup>*\<^sup>* (pc, v) (pc(t := k), v')"
  using assms
proof (induction n arbitrary: pc v)
  case (Suc n)
  show ?case
  proof (cases "hook_next A (pc t) v")
    case (Some kv)
    obtain k1 v1 where kv: "kv = (k1, v1)" by (cases kv)
    have "serial_step A (pc, v) (pc(t := k1), v1)"
      using hook_step.move [of A pc t v k1 v1] Some kv Suc.prems(2) by (auto simp: serial_step_def)
    moreover have "(serial_step A)\<^sup>*\<^sup>* (pc(t := k1), v1) (pc(t := k), v')"
      using Suc.IH [of "pc(t := k1)" v1] Suc.prems Some kv by (simp add: fun_upd_def cong: if_cong)
    ultimately show ?thesis by (rule converse_rtranclp_into_rtranclp)
  qed (use Suc.prems in \<open>auto simp: fun_upd_idem\<close>)
qed (auto simp: fun_upd_idem)

lemma serial_call:
  assumes "hook_run n A HookTest v = (k, v')" and "\<forall>u. pc u = HookDone"
  shows "(serial_step A)\<^sup>*\<^sup>* (pc, v) (pc(t := k), v')"
proof -
  have "serial_step A (pc, v) (pc(t := HookTest), v)"
    using assms(2) by (auto simp: serial_step_def intro: hook_step.enter)
  moreover have "(serial_step A)\<^sup>*\<^sup>* (pc(t := HookTest), v) (pc(t := k), v')"
    using hook_run_steps [of n A "pc(t := HookTest)" t v k v'] assms by simp
  ultimately show ?thesis by (rule converse_rtranclp_into_rtranclp)
qed

theorem Hook_getReservedRegs_serial_witness:
  "\<exists>v rt. (serial_step sample_hook_host)\<^sup>*\<^sup>* (hook_idle sample_hook_host) (\<lambda>t. HookDone, v) \<and>
     vtbl_entry v = 32 \<and> hooked rt \<and>
     dispatch 2 sample_hook_host v sample_host 32 rt = Some (getReservedRegs sample_host rt)"
proof -
  let ?v = "\<lparr>vtbl_entry = 32, page_writable = True, g_org = 16\<rparr>" and ?rt = "hook_on runtime_start"
  have "hook_run 4 sample_hook_host HookTest (hook_start sample_hook_host) = (HookDone, ?v)"
    by (simp add: eval_nat_numeral sample_hook_host_def hook_start_def)
  from serial_call [OF this, of "\<lambda>t. HookDone" 0]
  have steps: "(serial_step sample_hook_host)\<^sup>*\<^sup>* (hook_idle sample_hook_host) (\<lambda>t. HookDone, ?v)"
    by (simp add: hook_idle_def fun_upd_idem)
  from Hook_getReservedRegs_serial [OF sample_addresses(1) steps, of ?rt sample_module "''f''" _ 0 sample_host]
    sample_module_facts
  have "dispatch (Suc (Suc 0)) sample_hook_host ?v sample_host (vtbl_entry ?v) ?rt = Some (getReservedRegs sample_host ?rt)"
    by (simp add: hook_on_def sample_module_def easy_simps)
  with steps show ?thesis
    by (intro exI [of _ ?v] exI [of _ ?rt]) (simp add: hook_on_def numeral_2_eq_2 del: dispatch.simps)
qed

subsection \<open>Calls that overlap\<close>

lemma dispatch_endless: "g_org v = hooked_fn A \<Longrightarrow> dispatch n A v J (hooked_fn A) rt = None"
  by (induction n arbitrary: rt) (simp_all add: Let_def)

lemma any_move:
  "hook_next A (pc t) v = Some (k, v') \<Longrightarrow> (any_step A)\<^sup>*\<^sup>* (pc(t := k), v') s \<Longrightarrow> (any_step A)\<^sup>*\<^sup>* (pc, v) s"
  by (meson any_step_def converse_rtranclp_into_rtranclp hook_step.move)

lemma any_enter: "pc t = HookDone \<Longrightarrow> (any_step A)\<^sup>*\<^sup>* (pc(t := HookTest), v) s \<Longrightarrow> (any_step A)\<^sup>*\<^sup>* (pc, v) s"
  by (meson any_step_def converse_rtranclp_into_rtranclp hook_step.enter)


lemma overlapping_patches:
  assumes "mprotect_ok A" and "slot_covered A"
  shows "(any_step A)\<^sup>*\<^sup>* (hook_idle A)
    (\<lambda>t. HookDone, \<lparr>vtbl_entry = hooked_fn A, page_writable = True, g_org = hooked_fn A\<rparr>)"
proof -
  let ?v = "hook_start A" and ?d = "\<lambda>t :: nat. HookDone"
  let ?v1 = "\<lparr>vtbl_entry = original_fn A, page_writable = True, g_org = 0\<rparr>"
  let ?v2 = "\<lparr>vtbl_entry = original_fn A, page_writable = True, g_org = original_fn A\<rparr>"
  let ?v3 = "\<lparr>vtbl_entry = hooked_fn A, page_writable = True, g_org = original_fn A\<rparr>"
  let ?v4 = "\<lparr>vtbl_entry = hooked_fn A, page_writable = True, g_org = hooked_fn A\<rparr>"
  have start: "?v = \<lparr>vtbl_entry = original_fn A, page_writable = False, g_org = 0\<rparr>" by (simp add: hook_start_def)
  show ?thesis
    unfolding hook_idle_def start
    apply (rule any_enter [where t = 0], simp, rule any_enter [where t = 1], simp)
    apply (rule any_move [where t = 0 and k = HookProtect], simp, rule any_move [where t = 1 and k = HookProtect], simp)
    apply (rule any_move [where t = 0 and k = HookSave and v' = ?v1], simp add: assms)
    apply (rule any_move [where t = 0 and k = HookPatch and v' = ?v2], simp)
    apply (rule any_move [where t = 0 and k = HookDone and v' = ?v3], simp)
    apply (rule any_move [where t = 1 and k = HookSave and v' = ?v3], simp add: assms)
    apply (rule any_move [where t = 1 and k = HookPatch and v' = ?v4], simp)
    apply (rule any_move [where t = 1 and k = HookDone and v' = ?v4], simp)
    by (simp add: fun_upd_twist [of 0 1] fun_upd_idem)
qed

lemma half_patched:
  assumes "mprotect_ok A" and "slot_covered A"
  shows "(any_step A)\<^sup>*\<^sup>* (hook_idle A)
    ((\<lambda>t. HookDone)(0 := HookPatch), \<lparr>vtbl_entry = original_fn A, page_writable = True, g_org = original_fn A\<rparr>)"
  unfolding hook_idle_def
  by (rule any_enter [where t = 0], simp, rule any_move [where t = 0 and k = HookProtect and v' = "hook_start A"],
      simp add: hook_start_def, rule any_move [where t = 0 and k = HookSave and v' = "(hook_start A)\<lparr>page_writable := True\<rparr>"],
      simp add: assms, rule any_move [where t = 0 and k = HookPatch and
        v' = "\<lparr>vtbl_entry = original_fn A, page_writable = True, g_org = original_fn A\<rparr>"])
    (simp_all add: hook_start_def)

text \<open>
  C37. The patch is not safe for calls that overlap. Two threads that both find the saved address 0 can patch
  one after the other: the second saves the address of the hook itself, and from then on, with no call in
  progress, the hook calls itself and no code generation returns. And a thread that compiles between the
  save and the patch of another takes the table for patched, while the virtual call still reaches LLVM's
  function: its reserved registers are ignored.
\<close>
theorem Hook_getReservedRegs_race:
  assumes "addresses_ok A" and "mprotect_ok A" and "slot_covered A"
  shows "(\<exists>v. (any_step A)\<^sup>*\<^sup>* (hook_idle A) (\<lambda>t. HookDone, v) \<and>
      vtbl_entry v = hooked_fn A \<and> g_org v = hooked_fn A \<and> hook_run 4 A HookTest v = (HookDone, v) \<and>
      (\<forall>n J rt. dispatch n A v J (vtbl_entry v) rt = None)) \<and>
    (\<exists>pc v. (any_step A)\<^sup>*\<^sup>* (hook_idle A) (pc, v) \<and> pc 0 = HookPatch \<and> hook_run 4 A HookTest v = (HookDone, v) \<and>
      (\<forall>n J rt. dispatch (Suc n) A v J (vtbl_entry v) rt = Some (Inr (target_reserved J), rt)))"
proof (intro conjI)
  let ?v = "\<lparr>vtbl_entry = hooked_fn A, page_writable = True, g_org = hooked_fn A\<rparr>"
  have "hook_run 4 A HookTest ?v = (HookDone, ?v)"
    using assms(1) by (simp add: eval_nat_numeral addresses_ok_def)
  moreover have "dispatch n A ?v J (vtbl_entry ?v) rt = None" for n J rt
    using dispatch_endless [of ?v A n J rt] by simp
  ultimately show "\<exists>v. (any_step A)\<^sup>*\<^sup>* (hook_idle A) (\<lambda>t. HookDone, v) \<and>
      vtbl_entry v = hooked_fn A \<and> g_org v = hooked_fn A \<and> hook_run 4 A HookTest v = (HookDone, v) \<and>
      (\<forall>n J rt. dispatch n A v J (vtbl_entry v) rt = None)"
    using overlapping_patches [OF assms(2,3)] by (intro exI [of _ ?v]) simp
  let ?w = "\<lparr>vtbl_entry = original_fn A, page_writable = True, g_org = original_fn A\<rparr>"
  have "hook_run 4 A HookTest ?w = (HookDone, ?w)"
    "dispatch (Suc n) A ?w J (vtbl_entry ?w) rt = Some (Inr (target_reserved J), rt)" for n J rt
    using assms(1) by (simp_all add: eval_nat_numeral addresses_ok_def)
  then show "\<exists>pc v. (any_step A)\<^sup>*\<^sup>* (hook_idle A) (pc, v) \<and> pc 0 = HookPatch \<and> hook_run 4 A HookTest v = (HookDone, v) \<and>
      (\<forall>n J rt. dispatch (Suc n) A v J (vtbl_entry v) rt = Some (Inr (target_reserved J), rt))"
    using half_patched [OF assms(2,3)]
    by (intro exI [of _ "(\<lambda>t. HookDone)(0 := HookPatch)"] exI [of _ ?w]) (simp del: dispatch.simps)
qed

theorem Hook_getReservedRegs_race_witness:
  "\<exists>v. (any_step sample_hook_host)\<^sup>*\<^sup>* (hook_idle sample_hook_host) (\<lambda>t. HookDone, v) \<and>
     dispatch 1000 sample_hook_host v sample_host (vtbl_entry v) runtime_start = None"
  using Hook_getReservedRegs_race [OF sample_addresses] by blast

end
