(* ===== verification/Easy_Vtable.thy ===== *)
theory Easy_Vtable
  imports Easy_Hook
begin

text \<open>
  The addresses behind the patch of \<open>Hook_getReservedRegs\<close> in \<open>runtime/Function.cpp\<close>: the index of the entry, computed
  from the representation of the pointer to the virtual member function (one plus the offset in the table), the page that
  \<open>mprotect\<close> makes writable, computed from the address of the table, and the entry that is read and overwritten.
  The memory of the process is a map from addresses to words with a permission for each page, named by its first address.
  A store to a page that cannot be written kills the process. \<open>Easy_Hook\<close> is shown to be its abstraction.

  \<open>member_pointer\<close> is \<open>&llvm::TargetRegisterInfo::getReservedRegs\<close>, \<open>vtbl\<close> the table of the target's register info,
  \<open>hook_address\<close> the address of \<open>Hooked_getReservedRegsType\<close>. The index is an \<open>int\<close>, the division one of \<open>size_t\<close>.
\<close>

record patch_host =
  member_pointer :: "64 word"
  vtbl :: ptr
  PAGE_SIZE :: "64 word"
  hook_address :: ptr
  mprotect_result :: bool

record machine =
  memory :: "ptr \<Rightarrow> 64 word"
  writable :: "ptr \<Rightarrow> bool"
  g_org_addr :: ptr

definition idxInVtable :: "patch_host \<Rightarrow> 32 word" where
  "idxInVtable P = ucast ((member_pointer P - 1) div 8)"

definition page_of :: "patch_host \<Rightarrow> ptr \<Rightarrow> ptr" where
  "page_of P a = and a (not (PAGE_SIZE P - 1))"

definition aliged_addr :: "patch_host \<Rightarrow> ptr" where
  "aliged_addr P = page_of P (vtbl P)"

definition vtbl_slot :: "patch_host \<Rightarrow> ptr" where
  "vtbl_slot P = vtbl P + 8 * scast (idxInVtable P)"

fun patch_next :: "patch_host \<Rightarrow> hook_pc \<Rightarrow> machine \<Rightarrow> (hook_pc \<times> machine) option" where
  "patch_next P HookTest m = Some (if g_org_addr m = 0 then HookProtect else HookDone, m)"
| "patch_next P HookProtect m =
     Some (if mprotect_result P then (HookSave, m\<lparr>writable := (writable m)(aliged_addr P := True)\<rparr>) else (HookExit, m))"
| "patch_next P HookSave m = Some (HookPatch, m\<lparr>g_org_addr := memory m (vtbl_slot P)\<rparr>)"
| "patch_next P HookPatch m =
     Some (if writable m (page_of P (vtbl_slot P))
           then (HookDone, m\<lparr>memory := (memory m)(vtbl_slot P := hook_address P)\<rparr>) else (HookExit, m))"
| "patch_next P HookDone m = None"
| "patch_next P HookExit m = None"

fun patch_run :: "nat \<Rightarrow> patch_host \<Rightarrow> hook_pc \<Rightarrow> machine \<Rightarrow> hook_pc \<times> machine" where
  "patch_run 0 P k m = (k, m)"
| "patch_run (Suc n) P k m = (case patch_next P k m of None \<Rightarrow> (k, m) | Some (k', m') \<Rightarrow> patch_run n P k' m')"

subsection \<open>The abstraction\<close>

definition abs_host :: "patch_host \<Rightarrow> ptr \<Rightarrow> hook_host" where
  "abs_host P org = \<lparr>original_fn = org, hooked_fn = hook_address P, mprotect_ok = mprotect_result P,
     slot_covered = (page_of P (vtbl_slot P) = aliged_addr P)\<rparr>"

definition abs_machine :: "patch_host \<Rightarrow> machine \<Rightarrow> hook_memory" where
  "abs_machine P m = \<lparr>vtbl_entry = memory m (vtbl_slot P), page_writable = writable m (page_of P (vtbl_slot P)),
     g_org = g_org_addr m\<rparr>"

lemma patch_next_refines:
  "hook_next (abs_host P org) k (abs_machine P m) = map_option (\<lambda>(k', m'). (k', abs_machine P m')) (patch_next P k m)"
  by (cases k) (auto simp: abs_host_def abs_machine_def)

lemma patch_run_refines:
  "hook_run n (abs_host P org) k (abs_machine P m) = (case patch_run n P k m of (k', m') \<Rightarrow> (k', abs_machine P m'))"
  by (induction n arbitrary: k m) (auto simp: patch_next_refines split: option.split prod.split)

subsection \<open>Which entries the patch reaches\<close>

lemma page_of_drop_bit:
  assumes "PAGE_SIZE P = 2 ^ p" and "p < 64"
  shows "page_of P a = push_bit p (drop_bit p a)"
proof -
  have "PAGE_SIZE P - 1 = mask p" using assms(1) by (simp add: mask_eq_exp_minus_1)
  then show ?thesis unfolding page_of_def
    by (simp add: bit_eq_iff bit_simps) (auto simp: bit_simps)
qed

lemma same_page:
  assumes "PAGE_SIZE P = 2 ^ p" and "p < 64"
  shows "page_of P a = page_of P b \<longleftrightarrow> unat a div 2 ^ p = unat b div 2 ^ p"
proof -
  have "drop_bit p (push_bit p (drop_bit p x)) = drop_bit p x" for x :: ptr
    by (simp add: bit_eq_iff bit_simps) (auto dest: bit_imp_le_length)
  then have "page_of P a = page_of P b \<longleftrightarrow> drop_bit p a = drop_bit p b"
    unfolding page_of_drop_bit [OF assms] by metis
  moreover have "drop_bit p a = drop_bit p b \<longleftrightarrow> unat (drop_bit p a) = unat (drop_bit p b)" by (rule word_unat_eq_iff)
  moreover have "unat (drop_bit p x) = unat x div 2 ^ p" for x :: ptr
  proof -
    have "take_bit 64 (unat x) = unat x" using unsigned_less [of x] by (intro take_bit_nat_eq_self) simp
    then show ?thesis by (subst unsigned_drop_bit_eq) (simp add: drop_bit_eq_div)
  qed
  ultimately show ?thesis by metis
qed

lemma slot_index:
  assumes "member_pointer P = 1 + 8 * of_nat k" and "k < 2 ^ 31"
  shows "idxInVtable P = of_nat k" and "vtbl_slot P = vtbl P + 8 * of_nat k"
proof -
  have "unat (8 * of_nat k :: 64 word) = 8 * k"
    using assms(2) by (simp add: unat_word_ariths unat_of_nat)
  then have "(8 * of_nat k :: 64 word) div 8 = of_nat k"
    by (simp add: word_unat_eq_iff unat_div unat_of_nat assms(2)) (use assms(2) in simp)
  then show idx: "idxInVtable P = of_nat k"
    using assms(2) by (simp add: idxInVtable_def assms(1) word_unat_eq_iff unsigned_ucast_eq unat_of_nat take_bit_nat_eq_self)
  have "sint (of_nat k :: 32 word) = int k"
    using assms(2) by (simp add: signed_of_nat signed_take_bit_int_eq_self)
  then have "(scast (of_nat k :: 32 word) :: 64 word) = of_nat k" by (metis of_int_of_nat_eq of_int_sint)
  then show "vtbl_slot P = vtbl P + 8 * of_nat k" by (simp add: vtbl_slot_def idx)
qed

text \<open>For an offset in the table that does not wrap, the entry is in the page of the table exactly when the offset ends before the next page.\<close>

lemma slot_in_page:
  assumes "PAGE_SIZE P = 2 ^ p" and "p < 64" and "unat (vtbl P) + d < 2 ^ 64"
  shows "page_of P (vtbl P + of_nat d) = aliged_addr P \<longleftrightarrow> unat (vtbl P) mod 2 ^ p + d < 2 ^ p"
proof -
  let ?v = "unat (vtbl P)" and ?N = "2 ^ p :: nat"
  have "unat (vtbl P + of_nat d) = ?v + d"
    using assms(3) by (simp add: unat_word_ariths unat_of_nat)
  then have "page_of P (vtbl P + of_nat d) = aliged_addr P \<longleftrightarrow> (?v + d) div ?N = ?v div ?N"
    by (simp add: aliged_addr_def same_page [OF assms(1,2)])
  also have "?v + d = (?v mod ?N + d) + ?v div ?N * ?N" using div_mult_mod_eq [of ?v ?N] by linarith
  then have "(?v + d) div ?N = ?v div ?N + (?v mod ?N + d) div ?N" by (metis div_mult_self1 power_not_zero zero_neq_numeral)
  finally show ?thesis by (simp add: div_eq_0_iff)
qed

text \<open>
  C36. Which virtual tables the patch reaches: on a machine whose page size is a power of two, for a table in memory that
  cannot be written and an entry whose offset is not negative and does not wrap around, the first call of
  \<open>Hook_getReservedRegs\<close> computes the right entry. But \<open>mprotect\<close> is asked for one page, the one in which the table starts: the call
  overwrites the entry, and nothing else, when the entry lies in that page, and is killed by the store
  when the table runs on into the next page before the entry. The run is the one of the abstract table of \<open>Easy_Hook\<close>.
\<close>
theorem Hook_patch_page:
  assumes "PAGE_SIZE P = 2 ^ p" and "p < 64" and "member_pointer P = 1 + 8 * of_nat k" and "k < 2 ^ 31"
    and "unat (vtbl P) + 8 * k < 2 ^ 64" and "mprotect_result P" and "g_org_addr m = 0"
    and "\<not> writable m (page_of P (vtbl P + 8 * of_nat k))"
  shows "vtbl_slot P = vtbl P + 8 * of_nat k \<and>
    (case patch_run 4 P HookTest m of (pc, m') \<Rightarrow>
       (if unat (vtbl P) mod 2 ^ p + 8 * k < 2 ^ p
        then pc = HookDone \<and> memory m' = (memory m)(vtbl P + 8 * of_nat k := hook_address P) \<and>
          g_org_addr m' = memory m (vtbl P + 8 * of_nat k)
        else pc = HookExit \<and> memory m' = memory m) \<and>
       hook_run 4 (abs_host P org) HookTest (abs_machine P m) = (pc, abs_machine P m'))"
proof -
  note slot = slot_index(2) [OF assms(3,4)]
  have "page_of P (vtbl_slot P) = aliged_addr P \<longleftrightarrow> unat (vtbl P) mod 2 ^ p + 8 * k < 2 ^ p"
    using slot_in_page [OF assms(1,2,5)] slot by simp
  with assms(6-8) slot have "case patch_run 4 P HookTest m of (pc, m') \<Rightarrow>
       (if unat (vtbl P) mod 2 ^ p + 8 * k < 2 ^ p
        then pc = HookDone \<and> memory m' = (memory m)(vtbl P + 8 * of_nat k := hook_address P) \<and>
          g_org_addr m' = memory m (vtbl P + 8 * of_nat k)
        else pc = HookExit \<and> memory m' = memory m)"
    by (auto simp: eval_nat_numeral)
  with slot show ?thesis by (cases "patch_run 4 P HookTest m") (simp add: patch_run_refines)
qed

definition sample_patch :: "ptr \<Rightarrow> patch_host" where
  "sample_patch v = \<lparr>member_pointer = 0x51, vtbl = v, PAGE_SIZE = 4096, hook_address = 32, mprotect_result = True\<rparr>"

definition sample_machine :: machine where
  "sample_machine = \<lparr>memory = (\<lambda>a. 16), writable = (\<lambda>a. False), g_org_addr = 0\<rparr>"

theorem Hook_patch_page_witness:
  "fst (patch_run 4 (sample_patch 0x7FA0) HookTest sample_machine) = HookDone \<and>
   memory (snd (patch_run 4 (sample_patch 0x7FA0) HookTest sample_machine)) 0x7FF0 = 32 \<and>
   fst (patch_run 4 (sample_patch 0x7FC0) HookTest sample_machine) = HookExit"
proof -
  have P: "PAGE_SIZE (sample_patch v) = 2 ^ 12" "member_pointer (sample_patch v) = 1 + 8 * of_nat 10" "mprotect_result (sample_patch v)"
    and m: "g_org_addr sample_machine = 0" "\<not> writable sample_machine a" for v a
    by (simp_all add: sample_patch_def sample_machine_def)
  have k: "(12 :: nat) < 64" "(10 :: nat) < 2 ^ 31" by simp_all
  have v: "unat (vtbl (sample_patch 0x7FA0)) + 8 * 10 < 2 ^ 64" "unat (vtbl (sample_patch 0x7FC0)) + 8 * 10 < 2 ^ 64"
    by (simp_all add: sample_patch_def)
  have sizes: "unat (vtbl (sample_patch 0x7FA0)) mod 2 ^ 12 + 8 * 10 < 2 ^ 12" "\<not> unat (vtbl (sample_patch 0x7FC0)) mod 2 ^ 12 + 8 * 10 < 2 ^ 12"
    and at: "vtbl (sample_patch 0x7FA0) + 8 * of_nat 10 = 0x7FF0" "hook_address (sample_patch v) = 32" for v
    by (simp_all add: sample_patch_def)
  note here = Hook_patch_page [OF P(1) k(1) P(2) k(2) v(1) P(3) m] and beyond = Hook_patch_page [OF P(1) k(1) P(2) k(2) v(2) P(3) m]
  from here sizes(1) at have "fst (patch_run 4 (sample_patch 0x7FA0) HookTest sample_machine) = HookDone"
      "memory (snd (patch_run 4 (sample_patch 0x7FA0) HookTest sample_machine)) 0x7FF0 = 32"
    by (cases "patch_run 4 (sample_patch 0x7FA0) HookTest sample_machine"; simp)+
  moreover from beyond sizes(2) have "fst (patch_run 4 (sample_patch 0x7FC0) HookTest sample_machine) = HookExit"
    by (cases "patch_run 4 (sample_patch 0x7FC0) HookTest sample_machine") simp
  ultimately show ?thesis by blast
qed

end
