(* ===== verification/Easy_Devirt.thy ===== *)
theory Easy_Devirt
  imports Easy_Struct
begin

text \<open>
  The two passes that turn calls through addresses known at specialization time into direct calls:
  \<open>runtime/pass/IndirectcallConstant.cpp\<close> for function pointers and
  \<open>runtime/pass/DevirtualizeConstant.cpp\<close> for the first entry of a virtual table. Both find the function of
  an address of the running program in the bitcode tracker and link its module.

  The memory of the running program is the parameter \<open>mem\<close>; an address that is not mapped gives \<open>None\<close> and
  reading it is undefined behaviour. \<open>stripPointerCasts\<close> looks through the casts between pointers that constants
  can hold. Two integer constants of LLVM are one object when type and value agree, so the users of a constant
  are the places of the module where it occurs. The type of a value is the parameter \<open>ty\<close>. An instruction is named by its position in its function.
\<close>

fun strip_constant :: "ir_constant \<Rightarrow> ir_constant" where
  "strip_constant (PointerCast c T) = strip_constant c"
| "strip_constant c = c"

fun stripPointerCasts :: "ir_value \<Rightarrow> ir_value" where
  "stripPointerCasts (ConstVal c) = ConstVal (strip_constant c)"
| "stripPointerCasts (CastVal v T) = stripPointerCasts v"
| "stripPointerCasts v = v"

fun host_address :: "ir_value \<Rightarrow> 64 word option" where
  "host_address (ConstVal (IntToPtr (ConstantInt T v s) P)) = Some v"
| "host_address _ = None"

subsection \<open>The function of an address\<close>

definition findFunctionAndLinkModules ::
    "llvm_api \<Rightarrow> BitcodeTracker \<Rightarrow> ir_module \<Rightarrow> ptr \<Rightarrow> (ir_module \<times> nat option) result" where
  "findFunctionAndLinkModules L BT M HostValue =
     bindR (getNameAndGlobalMapping BT HostValue) (\<lambda>(FName, _).
     bindR (getModuleWithContext (parseBitcodeFile L) BT HostValue) (\<lambda>LM.
       (case linkModules L M LM of (M', link_failed) \<Rightarrow>
          if \<not> link_failed then
            (case getNamedValue M' FName of
               None \<Rightarrow> Inl UndefinedBehaviour
             | Some GV \<Rightarrow>
                 (case function_at M' GV of
                    Some F \<Rightarrow> Inr (update_function GV (\<lambda>f. f\<lparr>fun_linkage := PrivateLinkage\<rparr>) M', Some GV)
                  | None \<Rightarrow> Inl AssertionFailure))
          else Inr (M', None))))"

subsection \<open>Calls through a constant\<close>

definition body_of :: "ir_module \<Rightarrow> nat \<Rightarrow> instr list result" where
  "body_of M F = (case function_at M F of
     None \<Rightarrow> Inl UndefinedBehaviour
   | Some f \<Rightarrow> Inr (case fun_body f of None \<Rightarrow> [] | Some body \<Rightarrow> body))"

fun host_callee :: "instr \<Rightarrow> 64 word option" where
  "host_callee (CallInst (IndirectCall v) args) = host_address (stripPointerCasts v)"
| "host_callee _ = None"

fun setCalledFunction :: "nat \<Rightarrow> instr \<Rightarrow> instr" where
  "setCalledFunction g (CallInst c args) = CallInst (DirectCall g) args"
| "setCalledFunction g i = i"

definition set_instr :: "nat \<Rightarrow> nat \<Rightarrow> (instr \<Rightarrow> instr) \<Rightarrow> ir_module \<Rightarrow> ir_module" where
  "set_instr F k h M = update_function F
     (\<lambda>f. f\<lparr>fun_body := map_option (\<lambda>body. body[k := h (body ! k)]) (fun_body f)\<rparr>) M"

definition indirect_step ::
    "llvm_api \<Rightarrow> BitcodeTracker \<Rightarrow> nat \<Rightarrow> nat \<Rightarrow> ir_module \<Rightarrow> ir_module result" where
  "indirect_step L BT F k M =
     bindR (body_of M F) (\<lambda>body.
     bindR (nth_checked body k) (\<lambda>I.
       (case host_callee I of
          None \<Rightarrow> Inr M
        | Some Addr \<Rightarrow>
            bindR (findFunctionAndLinkModules L BT M Addr) (\<lambda>(M', NewF).
              (case NewF of
                 None \<Rightarrow> Inl UndefinedBehaviour
               | Some g \<Rightarrow> Inr (set_instr F k (setCalledFunction g) M'))))))"

definition IndirectcallConstant_runOnFunction ::
    "llvm_api \<Rightarrow> BitcodeTracker \<Rightarrow> string \<Rightarrow> nat \<Rightarrow> ir_module \<Rightarrow> (bool \<times> ir_module) result" where
  "IndirectcallConstant_runOnFunction L BT TargetName F M =
     (case function_at M F of
        None \<Rightarrow> Inl UndefinedBehaviour
      | Some f \<Rightarrow>
          if fun_name f \<noteq> TargetName then Inr (False, M)
          else bindR (body_of M F) (\<lambda>body.
               bindR (foldR (indirect_step L BT F) [0..<length body] M) (\<lambda>M'. Inr (False, M'))))"

subsection \<open>Calls through a virtual table\<close>

fun getVTableHostAddress :: "instr \<Rightarrow> (llvm_type \<times> 64 word) option" where
  "getVTableHostAddress (LoadInst p T is_vtable) =
     (if \<not> is_vtable then None
      else case stripPointerCasts p of
             ConstVal (IntToPtr (ConstantInt KT v s) P) \<Rightarrow> Some (KT, v)
           | ConstVal (ConstantInt KT v s) \<Rightarrow> Some (KT, v)
           | _ \<Rightarrow> None)"
| "getVTableHostAddress _ = None"

fun loads_from :: "llvm_type \<times> 64 word \<Rightarrow> instr \<Rightarrow> llvm_type option" where
  "loads_from K (LoadInst (ConstVal (IntToPtr (ConstantInt KT v s) P)) T is_vtable) =
     (if K = (KT, v) then Some T else None)"
| "loads_from K _ = None"

fun subst_value :: "(nat \<Rightarrow> ir_constant option) \<Rightarrow> ir_value \<Rightarrow> ir_value" where
  "subst_value r (InstVal i) = (case r i of Some c \<Rightarrow> ConstVal c | None \<Rightarrow> InstVal i)"
| "subst_value r (CastVal v T) = CastVal (subst_value r v) T"
| "subst_value r v = v"

fun subst_callee :: "(nat \<Rightarrow> ir_constant option) \<Rightarrow> callee \<Rightarrow> callee" where
  "subst_callee r (IndirectCall v) = IndirectCall (subst_value r v)"
| "subst_callee r c = c"

fun subst_instr :: "(nat \<Rightarrow> ir_constant option) \<Rightarrow> instr \<Rightarrow> instr" where
  "subst_instr r (CallInst c args) = CallInst (subst_callee r c) (map (subst_value r) args)"
| "subst_instr r (LoadInst p T vt) = LoadInst (subst_value r p) T vt"
| "subst_instr r i = i"

definition table_loads :: "llvm_type \<times> 64 word \<Rightarrow> instr list \<Rightarrow> (nat \<times> llvm_type) list" where
  "table_loads K body = List.map_filter (\<lambda>(i, I). map_option (Pair i) (loads_from K I)) (enumerate 0 body)"

fun entry_load :: "nat \<Rightarrow> instr \<Rightarrow> bool" where
  "entry_load i (LoadInst (InstVal j) T vt) \<longleftrightarrow> j = i"
| "entry_load i _ \<longleftrightarrow> False"

definition replace_entry_loads :: "nat \<Rightarrow> nat \<times> llvm_type \<Rightarrow> instr list \<Rightarrow> instr list result" where
  "replace_entry_loads g e body = (case e of (i, T) \<Rightarrow>
     (case T of
        PointerTy ExpectedTy \<Rightarrow>
          if \<not> isPointerTy ExpectedTy then Inl UndefinedBehaviour
          else (let Users = map fst (filter (\<lambda>(j, I). entry_load i I) (enumerate 0 body));
               Called = PointerCast (GlobalRef g) ExpectedTy
           in Inr (map (subst_instr (\<lambda>j. if j \<in> set Users then Some Called else None)) body))
      | _ \<Rightarrow> Inl UndefinedBehaviour))"

definition devirtualize_body :: "llvm_type \<times> 64 word \<Rightarrow> nat \<Rightarrow> instr list \<Rightarrow> instr list result" where
  "devirtualize_body K g body = foldR (replace_entry_loads g) (table_loads K body) body"

definition devirtualize_function ::
    "llvm_type \<times> 64 word \<Rightarrow> nat \<Rightarrow> nat \<times> ir_function \<Rightarrow> (nat \<times> ir_function) result" where
  "devirtualize_function K g e = (case e of (i, f) \<Rightarrow>
     (case fun_body f of
        None \<Rightarrow> Inr (i, f)
      | Some body \<Rightarrow> bindR (devirtualize_body K g body) (\<lambda>body'. Inr (i, f\<lparr>fun_body := Some body'\<rparr>))))"

definition devirtualize_step ::
    "llvm_api \<Rightarrow> BitcodeTracker \<Rightarrow> (ptr \<Rightarrow> ptr option) \<Rightarrow> nat \<Rightarrow> nat \<Rightarrow> bool \<times> ir_module \<Rightarrow> (bool \<times> ir_module) result" where
  "devirtualize_step L BT mem F k st = (case st of (Changed, M) \<Rightarrow>
     bindR (body_of M F) (\<lambda>body.
     bindR (nth_checked body k) (\<lambda>I.
       (case getVTableHostAddress I of
          None \<Rightarrow> Inr (Changed, M)
        | Some K \<Rightarrow>
            (case Option.bind (mem (snd K)) mem of
               None \<Rightarrow> Inl UndefinedBehaviour
             | Some CalledPtrHostValue \<Rightarrow>
                 bindR (findFunctionAndLinkModules L BT M CalledPtrHostValue) (\<lambda>(M', NewF).
                   (case NewF of
                      None \<Rightarrow> Inr (Changed, M')
                    | Some g \<Rightarrow> bindR (mapR (devirtualize_function K g) (mod_funs M')) (\<lambda>fs.
                        Inr (True, M'\<lparr>mod_funs := fs\<rparr>)))))))))"

definition Devirtualize ::
    "llvm_api \<Rightarrow> BitcodeTracker \<Rightarrow> (ptr \<Rightarrow> ptr option) \<Rightarrow> nat \<Rightarrow> ir_module \<Rightarrow> (bool \<times> ir_module) result" where
  "Devirtualize L BT mem F M =
     bindR (body_of M F) (\<lambda>body. foldR (devirtualize_step L BT mem F) [0..<length body] (False, M))"

fun CastCallWithPointerCasts :: "llvm_type \<Rightarrow> llvm_type \<Rightarrow> bool" where
  "CastCallWithPointerCasts (FunctionTy CRet CParams CVar) (FunctionTy URet UParams UVar) \<longleftrightarrow>
     (if CRet \<noteq> URet then False
      else if length CParams \<noteq> length UParams then False
      else if CVar \<noteq> UVar then False
      else list_all2 (\<lambda>CArgTy UArgTy. CArgTy \<noteq> UArgTy \<longrightarrow> isPointerTy CArgTy \<and> isPointerTy UArgTy) CParams UParams)"
| "CastCallWithPointerCasts _ _ \<longleftrightarrow> False"

definition recast_argument :: "(ir_value \<Rightarrow> llvm_type) \<Rightarrow> llvm_type list \<Rightarrow> nat \<times> ir_value \<Rightarrow> ir_value result" where
  "recast_argument ty UParams e = (case e of (i, Arg) \<Rightarrow>
     bindR (nth_checked UParams i) (\<lambda>UncTy.
       if isPointerTy (ty Arg) \<and> ty Arg \<noteq> UncTy
       then Inr (case Arg of ConstVal c \<Rightarrow> ConstVal (PointerCast c UncTy) | _ \<Rightarrow> CastVal Arg UncTy)
       else Inr Arg))"

definition callee_of :: "ir_value \<Rightarrow> callee" where
  "callee_of v = (case v of ConstVal (GlobalRef g) \<Rightarrow> DirectCall g | _ \<Rightarrow> IndirectCall v)"

fun recast_call :: "(ir_value \<Rightarrow> llvm_type) \<Rightarrow> instr \<Rightarrow> instr result" where
  "recast_call ty (CallInst (IndirectCall Called) args) =
     (let Uncasted = stripPointerCasts Called
      in if Called = Uncasted then Inr (CallInst (IndirectCall Called) args)
         else (case (ty Called, ty Uncasted) of
                 (PointerTy (FunctionTy CRet CParams CVar), PointerTy (FunctionTy URet UParams UVar)) \<Rightarrow>
                   if \<not> CastCallWithPointerCasts (FunctionTy CRet CParams CVar) (FunctionTy URet UParams UVar)
                   then Inr (CallInst (IndirectCall Called) args)
                   else bindR (mapR (recast_argument ty UParams) (enumerate 0 args)) (\<lambda>args'.
                     Inr (CallInst (callee_of Uncasted) args'))
               | _ \<Rightarrow> Inl UndefinedBehaviour))"
| "recast_call ty I = Inr I"

definition RecastCalls :: "(ir_module \<Rightarrow> ir_value \<Rightarrow> llvm_type) \<Rightarrow> nat \<Rightarrow> ir_module \<Rightarrow> ir_module result" where
  "RecastCalls ty F M =
     bindR (body_of M F) (\<lambda>body.
     bindR (mapR (recast_call (ty M)) body) (\<lambda>body'.
       Inr (update_function F (\<lambda>f. f\<lparr>fun_body := map_option (\<lambda>_. body') (fun_body f)\<rparr>) M)))"

definition DevirtualizeConstant_runOnFunction ::
    "llvm_api \<Rightarrow> BitcodeTracker \<Rightarrow> (ptr \<Rightarrow> ptr option) \<Rightarrow> (ir_module \<Rightarrow> ir_value \<Rightarrow> llvm_type) \<Rightarrow>
     string \<Rightarrow> nat \<Rightarrow> ir_module \<Rightarrow> (bool \<times> ir_module) result" where
  "DevirtualizeConstant_runOnFunction L BT mem ty TargetName F M =
     (case function_at M F of
        None \<Rightarrow> Inl UndefinedBehaviour
      | Some f \<Rightarrow>
          if fun_name f \<noteq> TargetName then Inr (False, M)
          else bindR (Devirtualize L BT mem F M) (\<lambda>(Changed, M').
            if Changed then bindR (RecastCalls ty F M') (\<lambda>M''. Inr (True, M'')) else Inr (False, M')))"

subsection \<open>What an instruction does\<close>

text \<open>
  The meaning that both passes keep: \<open>code\<close> gives the address of the code of each function of the module, \<open>vals\<close>
  the results of the instructions; a load reads the memory of the running program. \<open>effect\<close> is the target and
  the operand values of a call, or the address of a load.
\<close>

fun eval_constant :: "(nat \<Rightarrow> ptr) \<Rightarrow> ir_constant \<Rightarrow> ptr option" where
  "eval_constant code (ConstantInt T v s) = Some v"
| "eval_constant code (IntToPtr c T) = eval_constant code c"
| "eval_constant code (PointerCast c T) = eval_constant code c"
| "eval_constant code (GlobalRef g) = Some (code g)"
| "eval_constant code (ConstantPointerNull T) = Some 0"
| "eval_constant code _ = None"

fun eval_value :: "(nat \<Rightarrow> ptr) \<Rightarrow> (nat \<Rightarrow> ptr option) \<Rightarrow> (nat \<Rightarrow> ptr option) \<Rightarrow> ir_value \<Rightarrow> ptr option" where
  "eval_value code args vals (ArgVal i) = args i"
| "eval_value code args vals (InstVal i) = vals i"
| "eval_value code args vals (ConstVal c) = eval_constant code c"
| "eval_value code args vals (CastVal v T) = eval_value code args vals v"

datatype instr_effect =
    Calls "ptr option" "ptr option list"
  | CallsAsm inline_asm "ptr option list"
  | Loads "ptr option" llvm_type
  | Other instr

fun effect :: "(nat \<Rightarrow> ptr) \<Rightarrow> (ir_value \<Rightarrow> ptr option) \<Rightarrow> instr \<Rightarrow> instr_effect" where
  "effect code ev (CallInst (DirectCall g) args) = Calls (Some (code g)) (map ev args)"
| "effect code ev (CallInst (IndirectCall v) args) = Calls (ev v) (map ev args)"
| "effect code ev (CallInst (AsmCall IA) args) = CallsAsm IA (map ev args)"
| "effect code ev (LoadInst p T vt) = Loads (ev p) T"
| "effect code ev I = Other I"

definition loads_ok :: "(ptr \<Rightarrow> ptr option) \<Rightarrow> (ir_value \<Rightarrow> ptr option) \<Rightarrow> instr list \<Rightarrow> bool" where
  "loads_ok mem ev body \<longleftrightarrow> (\<forall>i p T vt. i < length body \<longrightarrow> body ! i = LoadInst p T vt \<longrightarrow>
     ev (InstVal i) = Option.bind (ev p) mem)"

definition linked_code :: "llvm_api \<Rightarrow> BitcodeTracker \<Rightarrow> (nat \<Rightarrow> ptr) \<Rightarrow> bool" where
  "linked_code L BT code \<longleftrightarrow>
     (\<forall>M p M' g. findFunctionAndLinkModules L BT M p = Inr (M', Some g) \<longrightarrow> code g = p)"

definition link_keeps :: "llvm_api \<Rightarrow> BitcodeTracker \<Rightarrow> nat \<Rightarrow> bool" where
  "link_keeps L BT F \<longleftrightarrow>
     (\<forall>p LM. getModuleWithContext (parseBitcodeFile L) BT p = Inr LM \<longrightarrow>
        (\<forall>M. function_at (fst (linkModules L M LM)) F = function_at M F))"

lemma find_cases:
  assumes "findFunctionAndLinkModules L BT M p = Inr (M', NewF)"
  obtains LM where "getModuleWithContext (parseBitcodeFile L) BT p = Inr LM"
    and "M' = fst (linkModules L M LM) \<or>
      (\<exists>GV. M' = update_function GV (\<lambda>f. f\<lparr>fun_linkage := PrivateLinkage\<rparr>) (fst (linkModules L M LM)))"
proof -
  from assms obtain LM where LM: "getModuleWithContext (parseBitcodeFile L) BT p = Inr LM"
    by (auto simp: findFunctionAndLinkModules_def bindR_eq_Inr)
  obtain M1 fl where link: "linkModules L M LM = (M1, fl)" by (cases "linkModules L M LM")
  have "M' = M1 \<or> (\<exists>GV. M' = update_function GV (\<lambda>f. f\<lparr>fun_linkage := PrivateLinkage\<rparr>) M1)"
    using assms LM link
    by (auto simp: findFunctionAndLinkModules_def bindR_eq_Inr split: if_splits option.splits)
  then show ?thesis using that LM link by simp
qed

lemma find_keeps_body:
  assumes "link_keeps L BT F" "findFunctionAndLinkModules L BT M p = Inr (M', NewF)"
  shows "body_of M' F = body_of M F"
proof -
  obtain LM where LM: "getModuleWithContext (parseBitcodeFile L) BT p = Inr LM"
    and M': "M' = fst (linkModules L M LM) \<or>
      (\<exists>GV. M' = update_function GV (\<lambda>f. f\<lparr>fun_linkage := PrivateLinkage\<rparr>) (fst (linkModules L M LM)))"
    by (rule find_cases [OF assms(2)])
  have "function_at (fst (linkModules L M LM)) F = function_at M F" using assms(1) LM by (simp add: link_keeps_def)
  then have "body_of (fst (linkModules L M LM)) F = body_of M F" by (simp add: body_of_def)
  moreover have "body_of (update_function GV (\<lambda>f. f\<lparr>fun_linkage := PrivateLinkage\<rparr>) N) F = body_of N F" for GV N
    by (auto simp: body_of_def split: option.splits)
  ultimately show ?thesis using M' by auto
qed

lemma eval_strip_constant [simp]: "eval_constant code (strip_constant c) = eval_constant code c"
  by (induction c rule: strip_constant.induct) simp_all

lemma eval_strip [simp]: "eval_value code args vals (stripPointerCasts v) = eval_value code args vals v"
  by (induction v rule: stripPointerCasts.induct) simp_all

lemma host_address_eval: "host_address v = Some a \<Longrightarrow> eval_value code args vals v = Some a"
  by (induction v rule: host_address.induct) simp_all

lemma setCalledFunction_effect:
  assumes "host_callee I = Some a" "code g = a"
  shows "effect code (eval_value code args vals) (setCalledFunction g I) = effect code (eval_value code args vals) I"
  using assms host_address_eval [of "stripPointerCasts _" a code args vals]
  by (cases I rule: host_callee.cases) auto

lemma body_of_set_instr:
  assumes "body_of M F = Inr body" "k < length body"
  shows "body_of (set_instr F k h M) F = Inr (body[k := h (body ! k)])"
  using assms by (auto simp: body_of_def set_instr_def split: option.splits)

subsection \<open>Function pointers\<close>

definition resolvable :: "llvm_api \<Rightarrow> BitcodeTracker \<Rightarrow> ptr \<Rightarrow> bool" where
  "resolvable L BT p \<longleftrightarrow> (\<exists>n gm LM. getNameAndGlobalMapping BT p = Inr (n, gm) \<and>
     getModuleWithContext (parseBitcodeFile L) BT p = Inr LM \<and>
     (\<forall>M. \<exists>M' g. linkModules L M LM = (M', False) \<and> getNamedValue M' n = Some g \<and> function_at M' g \<noteq> None))"

lemma resolvable_find:
  assumes "resolvable L BT p"
  shows "\<exists>M' g. findFunctionAndLinkModules L BT M p = Inr (M', Some g)"
proof -
  from assms obtain n gm LM where p: "getNameAndGlobalMapping BT p = Inr (n, gm)"
      "getModuleWithContext (parseBitcodeFile L) BT p = Inr LM"
      "\<forall>M. \<exists>M' g. linkModules L M LM = (M', False) \<and> getNamedValue M' n = Some g \<and> function_at M' g \<noteq> None"
    unfolding resolvable_def by blast
  from p(3) obtain M' g where "linkModules L M LM = (M', False)" "getNamedValue M' n = Some g" "function_at M' g \<noteq> None"
    by blast
  with p(1,2) show ?thesis by (auto simp: findFunctionAndLinkModules_def)
qed

lemma find_unregistered:
  "\<not> hasGlobalMapping BT p \<Longrightarrow>
   findFunctionAndLinkModules L BT M p = Inl (Exception BitcodeNotRegistered)"
  by (simp add: findFunctionAndLinkModules_def registry.not_has_name)

text \<open>
  A call through an address without bitcode ends the pass with the tracker's exception, whatever comes after it.
\<close>

lemma indirect_step_unregistered:
  assumes "body_of M F = Inr body" "k < length body" "host_callee (body ! k) = Some p" "\<not> hasGlobalMapping BT p"
  shows "foldR (indirect_step L BT F) (k # ks) M = Inl (Exception BitcodeNotRegistered)"
  using assms find_unregistered [OF assms(4)] by (simp add: indirect_step_def)

lemma host_callee_set: "host_callee I = Some a \<Longrightarrow> host_callee (setCalledFunction g I) = None"
  by (cases I rule: host_callee.cases) auto

lemma indirect_step_total:
  assumes "linked_code L BT code" "link_keeps L BT F" "body_of M F = Inr body" "k < length body"
    and "\<And>p. host_callee (body ! k) = Some p \<Longrightarrow> resolvable L BT p"
  shows "\<exists>M' I. indirect_step L BT F k M = Inr M' \<and> body_of M' F = Inr (body[k := I]) \<and> host_callee I = None \<and>
    (\<forall>args vals. effect code (eval_value code args vals) I = effect code (eval_value code args vals) (body ! k))"
proof (cases "host_callee (body ! k)")
  case None
  with assms(3,4) have "indirect_step L BT F k M = Inr M" by (simp add: indirect_step_def)
  with assms(3) None show ?thesis by (intro exI [of _ M] exI [of _ "body ! k"]) simp
next
  case (Some Addr)
  obtain M1 g where find: "findFunctionAndLinkModules L BT M Addr = Inr (M1, Some g)"
    using resolvable_find [OF assms(5) [OF Some]] by blast
  have g: "code g = Addr" using assms(1) find unfolding linked_code_def by blast
  have "body_of M1 F = Inr body" using find_keeps_body [OF assms(2) find] assms(3) by simp
  from body_of_set_instr [OF this assms(4)]
  have "body_of (set_instr F k (setCalledFunction g) M1) F = Inr (body[k := setCalledFunction g (body ! k)])" .
  moreover have "indirect_step L BT F k M = Inr (set_instr F k (setCalledFunction g) M1)"
    using assms(3,4) Some find by (simp add: indirect_step_def)
  moreover have "host_callee (setCalledFunction g (body ! k)) = None" by (rule host_callee_set [OF Some])
  ultimately show ?thesis using setCalledFunction_effect [OF Some, of code g] g by blast
qed

lemma indirect_loop:
  assumes "linked_code L BT code" "link_keeps L BT F" "body_of M F = Inr body"
    and "\<forall>I \<in> set body. \<forall>p. host_callee I = Some p \<longrightarrow> resolvable L BT p"
  shows "n \<le> length body \<Longrightarrow> \<exists>M' body'. foldR (indirect_step L BT F) [0..<n] M = Inr M' \<and> body_of M' F = Inr body' \<and>
    length body' = length body \<and> (\<forall>i < n. host_callee (body' ! i) = None) \<and>
    (\<forall>i < length body. n \<le> i \<longrightarrow> body' ! i = body ! i) \<and>
    (\<forall>args vals. map (effect code (eval_value code args vals)) body' = map (effect code (eval_value code args vals)) body)"
proof (induction n)
  case (Suc n)
  then obtain M1 b where b: "foldR (indirect_step L BT F) [0..<n] M = Inr M1" "body_of M1 F = Inr b" "length b = length body"
      "\<forall>i < n. host_callee (b ! i) = None" "\<forall>i < length body. n \<le> i \<longrightarrow> b ! i = body ! i"
      "\<forall>args vals. map (effect code (eval_value code args vals)) b = map (effect code (eval_value code args vals)) body"
    by auto
  have n: "n < length b" "b ! n = body ! n" "body ! n \<in> set body" using Suc.prems b(3,5) by auto
  have "resolvable L BT p" if "host_callee (b ! n) = Some p" for p using assms(4) n(3) that n(2) by metis
  from indirect_step_total [OF assms(1,2) b(2) n(1) this] obtain M' I where
    I: "indirect_step L BT F n M1 = Inr M'" "body_of M' F = Inr (b[n := I])" "host_callee I = None"
      "\<forall>args vals. effect code (eval_value code args vals) I = effect code (eval_value code args vals) (b ! n)" by blast
  have "map (effect code (eval_value code args vals)) (b[n := I]) = map (effect code (eval_value code args vals)) b" for args vals
    using I(4) n(1) by (simp add: map_update list_update_same_conv)
  moreover have "foldR (indirect_step L BT F) [0..<Suc n] M = Inr M'" using b(1) I(1) by (simp add: foldR_append)
  ultimately show ?case using b I(2,3) n(1)
    by (intro exI [of _ M'] exI [of _ "b[n := I]"]) (auto simp: nth_list_update less_Suc_eq)
qed (use assms(3) in auto)


definition sample_callback :: ir_function where
  "sample_callback = \<lparr>fun_name = ''cb'', fun_ret = VoidTy, fun_params = [], fn_attrs = [], param_attrs = (\<lambda>_. []),
     fun_linkage = ExternalLinkage, fun_cc = 0, fun_body = Some [RetVoid]\<rparr>"

definition sample_linker :: llvm_api where
  "sample_linker = sample_api\<lparr>parseBitcodeFile := (\<lambda>bs. Some empty_module),
     linkModules := (\<lambda>M LM. (M\<lparr>mod_funs := (8, sample_callback) # filter (\<lambda>(i, f). i \<noteq> 8) (mod_funs M)\<rparr>, False))\<rparr>"

definition sample_registry :: BitcodeTracker where
  "sample_registry = run_registrations [easy_register 64 ''cb'' None [1] 1] TheTracker"

definition sample_code :: "nat \<Rightarrow> ptr" where
  "sample_code g = (if g = 8 then 64 else 0)"

lemma sample_cb_registered:
  "getNameAndGlobalMapping sample_registry p = (if p = 64 then Inr (''cb'', None) else Inl (Exception BitcodeNotRegistered))"
  "getModuleWithContext (parseBitcodeFile sample_linker) sample_registry p =
     (if p = 64 then Inr empty_module else Inl (Exception BitcodeNotRegistered))"
  by (auto simp: sample_registry_def run_registrations_def sample_linker_def tracker_defs)

lemma sample_link:
  "linkModules sample_linker M LM = (M\<lparr>mod_funs := (8, sample_callback) # filter (\<lambda>(i, f). i \<noteq> 8) (mod_funs M)\<rparr>, False)"
  by (simp add: sample_linker_def)

lemma sample_link_found:
  "getNamedValue (fst (linkModules sample_linker M LM)) ''cb'' = Some 8"
  "function_at (fst (linkModules sample_linker M LM)) 8 = Some sample_callback"
  "i \<noteq> 8 \<Longrightarrow> function_at (fst (linkModules sample_linker M LM)) i = function_at M i"
proof -
  have "map_of (filter (\<lambda>(i, f). i \<noteq> 8) xs) i = map_of xs i" if "i \<noteq> 8" for xs :: "(nat \<times> ir_function) list"
    using that by (induction xs) auto
  then show "i \<noteq> 8 \<Longrightarrow> function_at (fst (linkModules sample_linker M LM)) i = function_at M i"
    by (simp add: sample_link function_at_def)
qed (simp_all add: sample_link getNamedValue_def getFunction_named_def find_by_def function_at_def sample_callback_def)

lemma sample_link_laws:
  "linked_code sample_linker sample_registry sample_code" "F \<noteq> 8 \<Longrightarrow> link_keeps sample_linker sample_registry F"
  "resolvable sample_linker sample_registry 64"
proof -
  show "linked_code sample_linker sample_registry sample_code"
    using sample_link_found(1,2)
    by (auto simp: linked_code_def findFunctionAndLinkModules_def sample_cb_registered sample_code_def bindR_eq_Inr
        split: if_splits prod.splits option.splits) (metis fst_conv option.inject)
  show "F \<noteq> 8 \<Longrightarrow> link_keeps sample_linker sample_registry F"
    using sample_link_found(3) by (simp add: link_keeps_def)
  show "resolvable sample_linker sample_registry 64"
    using sample_link_found(1,2) by (auto simp: resolvable_def sample_cb_registered sample_link)
qed

definition sample_caller :: ir_module where
  "sample_caller = empty_module\<lparr>mod_funs := [(0, sample_callback\<lparr>fun_name := ''f'', fun_body := Some
     [OtherInst 0, CallInst (IndirectCall (ConstVal (PointerCast (IntToPtr (ConstantInt (IntegerTy 64) 64 False)
        (PointerTy (IntegerTy 8))) (PointerTy (FunctionTy VoidTy [] False))))) [ArgVal 0], RetVoid]\<rparr>)], mod_next := 1\<rparr>"


subsection \<open>Virtual tables\<close>

lemma subst_value_eval:
  assumes "\<And>j c. r j = Some c \<Longrightarrow> eval_constant code c = vals j"
  shows "eval_value code args vals (subst_value r v) = eval_value code args vals v"
  using assms by (induction r v rule: subst_value.induct) (auto split: option.split)

lemma subst_instr_effect:
  assumes "\<And>j c. r j = Some c \<Longrightarrow> eval_constant code c = vals j"
  shows "effect code (eval_value code args vals) (subst_instr r I) = effect code (eval_value code args vals) I"
proof -
  note [simp] = subst_value_eval [OF assms]
  show ?thesis
  proof (cases I)
    case (CallInst c args')
    then show ?thesis by (cases c) simp_all
  qed simp_all
qed

lemma loads_ok_effect:
  assumes "map (effect code ev) body' = map (effect code ev) body" "loads_ok mem ev body"
  shows "loads_ok mem ev body'"
  unfolding loads_ok_def
proof (intro allI impI)
  fix i p T vt assume i: "i < length body'" "body' ! i = LoadInst p T vt"
  have len: "length body' = length body" using assms(1) map_eq_imp_length_eq by blast
  with i assms(1) have "effect code ev (body ! i) = Loads (ev p) T"
    using nth_map [of i body' "effect code ev"] nth_map [of i body "effect code ev"] by simp
  then obtain q vt' where "body ! i = LoadInst q T vt'" "ev q = ev p"
    by (cases "(code, ev, body ! i)" rule: effect.cases) auto
  with assms(2) i(1) len show "ev (InstVal i) = Option.bind (ev p) mem"
    unfolding loads_ok_def by metis
qed

lemma table_loadsD: "(i, T) \<in> set (table_loads K body) \<Longrightarrow> i < length body \<and> loads_from K (body ! i) = Some T"
  by (auto simp: table_loads_def List.map_filter_def in_set_enumerate_eq)

lemma loads_from_load:
  "loads_from (KT, v) I = Some T \<Longrightarrow> \<exists>s P vt. I = LoadInst (ConstVal (IntToPtr (ConstantInt KT v s) P)) T vt"
  by (cases "((KT, v), I)" rule: loads_from.cases) (auto split: if_splits)

lemma replace_entry_loads_effect:
  assumes "replace_entry_loads g (i, T) body = Inr body'" "loads_ok mem (eval_value code args vals) body"
    and "vals i = mem v" "Option.bind (mem v) mem = Some (code g)"
  shows "map (effect code (eval_value code args vals)) body' = map (effect code (eval_value code args vals)) body"
proof -
  obtain E where E: "T = PointerTy E" "body' = map (subst_instr (\<lambda>j. if j \<in> set (map fst (filter (\<lambda>(j, I). entry_load i I)
      (enumerate 0 body))) then Some (PointerCast (GlobalRef g) E) else None)) body" (is "_ = map (subst_instr ?r) body")
    using assms(1) by (auto simp: replace_entry_loads_def Let_def split: llvm_type.splits if_splits)
  have "eval_constant code c = vals j" if r: "?r j = Some c" for j c
  proof -
    from r have c: "c = PointerCast (GlobalRef g) E" by (auto split: if_splits)
    from r have "j < length body" "entry_load i (body ! j)"
      by (auto simp: in_set_enumerate_eq split: if_splits)
    then obtain T' vt where "body ! j = LoadInst (InstVal i) T' vt"
      by (cases "(i, body ! j)" rule: entry_load.cases) auto
    with assms(2) \<open>j < length body\<close> have "vals j = Option.bind (vals i) mem" by (auto simp: loads_ok_def)
    with assms(3,4) c show ?thesis by simp
  qed
  then show ?thesis unfolding E(2) by (simp add: subst_instr_effect)
qed

lemma devirtualize_body_effect:
  assumes "devirtualize_body (KT, v) g body = Inr body'" "loads_ok mem (eval_value code args vals) body"
    and "Option.bind (mem v) mem = Some (code g)"
  shows "map (effect code (eval_value code args vals)) body' = map (effect code (eval_value code args vals)) body"
proof -
  let ?ev = "eval_value code args vals"
  show ?thesis
  proof (rule foldR_invariant [where P = "\<lambda>b. map (effect code ?ev) b = map (effect code ?ev) body",
        OF assms(1) [unfolded devirtualize_body_def]])
    fix x b b' assume x: "x \<in> set (table_loads (KT, v) body)" and b: "map (effect code ?ev) b = map (effect code ?ev) body"
      and step: "replace_entry_loads g x b = Inr b'"
    obtain i T where xi: "x = (i, T)" by (cases x)
    from table_loadsD [OF x [unfolded xi]] loads_from_load obtain s P vt where
      "i < length body" "body ! i = LoadInst (ConstVal (IntToPtr (ConstantInt KT v s) P)) T vt" by blast
    with assms(2) have "vals i = mem v" by (auto simp: loads_ok_def)
    from replace_entry_loads_effect [OF step [unfolded xi] loads_ok_effect [OF b assms(2)] this assms(3)] b
    show "map (effect code ?ev) b' = map (effect code ?ev) body" by simp
  qed simp
qed

lemma mapR_devirtualize_at:
  "mapR (devirtualize_function K g) xs = Inr fs \<Longrightarrow> map_of xs F = Some f \<Longrightarrow>
   \<exists>f'. map_of fs F = Some f' \<and> devirtualize_function K g (F, f) = Inr (F, f')"
proof (induction xs arbitrary: fs)
  case (Cons x xs)
  obtain i h where x: "x = (i, h)" by (cases x)
  from Cons.prems(1) obtain y ys where y: "devirtualize_function K g x = Inr y" "mapR (devirtualize_function K g) xs = Inr ys"
      "fs = y # ys" by (auto simp: result_simps)
  then obtain h' where "y = (i, h')"
    by (auto simp: x devirtualize_function_def bindR_eq_Inr split: option.splits)
  with Cons x y show ?case by (auto split: if_splits)
qed simp

lemma devirtualize_step_effect:
  assumes "linked_code L BT code" "link_keeps L BT F" "devirtualize_step L BT mem F k (ch, M) = Inr (ch', M')"
    and "body_of M F = Inr body" "loads_ok mem (eval_value code args vals) body"
  shows "\<exists>body'. body_of M' F = Inr body' \<and>
    map (effect code (eval_value code args vals)) body' = map (effect code (eval_value code args vals)) body"
proof -
  let ?e = "effect code (eval_value code args vals)"
  have k: "k < length body" using assms(3,4) by (auto simp: devirtualize_step_def bindR_eq_Inr nth_checked_eq_Inr)
  show ?thesis
  proof (cases "getVTableHostAddress (body ! k)")
    case None
    with assms(3,4) k have "M' = M" by (simp add: devirtualize_step_def)
    with assms(4) show ?thesis by simp
  next
    case (Some K)
    obtain KT v where K: "K = (KT, v)" by (cases K)
    with assms(3,4) k Some obtain p where p: "Option.bind (mem v) mem = Some p"
      by (cases "Option.bind (mem v) mem") (simp_all add: devirtualize_step_def)
    with assms(3,4) k Some K obtain M1 NewF where find: "findFunctionAndLinkModules L BT M p = Inr (M1, NewF)"
      and M': "(case NewF of None \<Rightarrow> Inr (ch, M1) | Some g \<Rightarrow> bindR (mapR (devirtualize_function K g) (mod_funs M1)) (\<lambda>fs.
          Inr (True, M1\<lparr>mod_funs := fs\<rparr>))) = Inr (ch', M')"
      by (auto simp: devirtualize_step_def bindR_eq_Inr)
    have body: "body_of M1 F = Inr body" using find_keeps_body [OF assms(2) find] assms(4) by simp
    show ?thesis
    proof (cases NewF)
      case None
      with M' body show ?thesis by simp
    next
      case (Some g)
      with M' obtain fs where fs: "mapR (devirtualize_function K g) (mod_funs M1) = Inr fs" "M' = M1\<lparr>mod_funs := fs\<rparr>"
        by (auto simp: bindR_eq_Inr)
      have g: "code g = p" using assms(1) find Some unfolding linked_code_def by blast
      obtain f where f: "map_of (mod_funs M1) F = Some f" "(case fun_body f of None \<Rightarrow> [] | Some b \<Rightarrow> b) = body"
        using body by (auto simp: body_of_def function_at_def split: option.splits)
      obtain f' where f': "map_of fs F = Some f'" "devirtualize_function K g (F, f) = Inr (F, f')"
        using mapR_devirtualize_at [OF fs(1) f(1)] by blast
      show ?thesis
      proof (cases "fun_body f")
        case None
        with f f' fs(2) show ?thesis by (auto simp: devirtualize_function_def body_of_def function_at_def)
      next
        case (Some b)
        with f(2) f'(2) obtain body' where "devirtualize_body K g body = Inr body'" "fun_body f' = Some body'"
          by (auto simp: devirtualize_function_def bindR_eq_Inr)
        moreover from this devirtualize_body_effect [of KT v g body body' mem code args vals] assms(5) p g K
        have "map ?e body' = map ?e body" by simp
        ultimately show ?thesis using f'(1) fs(2) by (simp add: body_of_def function_at_def)
      qed
    qed
  qed
qed

lemma Devirtualize_effect:
  assumes "linked_code L BT code" "link_keeps L BT F" "Devirtualize L BT mem F M = Inr (ch, M')"
    and "body_of M F = Inr body" "loads_ok mem (eval_value code args vals) body"
  shows "\<exists>body'. body_of M' F = Inr body' \<and>
    map (effect code (eval_value code args vals)) body' = map (effect code (eval_value code args vals)) body"
proof -
  let ?e = "effect code (eval_value code args vals)"
  let ?P = "\<lambda>(ch, M). \<exists>b. body_of M F = Inr b \<and> map ?e b = map ?e body"
  have "foldR (devirtualize_step L BT mem F) [0..<length body] (False, M) = Inr (ch, M')"
    using assms(3,4) by (simp add: Devirtualize_def)
  then have "?P (ch, M')"
  proof (rule foldR_invariant [where P = ?P])
    show "?P (False, M)" using assms(4) by simp
    fix k u v assume u: "?P u" and step: "devirtualize_step L BT mem F k u = Inr v"
    obtain c N c' N' where uv: "u = (c, N)" "v = (c', N')" by (cases u, cases v)
    from u uv obtain b where b: "body_of N F = Inr b" "map ?e b = map ?e body" by auto
    from devirtualize_step_effect [OF assms(1,2) step [unfolded uv] b(1) loads_ok_effect [OF b(2) assms(5)]] b(2) uv
    show "?P v" by auto
  qed
  then show ?thesis by simp
qed

lemma recast_argument_eval:
  "recast_argument ty UParams (i, Arg) = Inr v \<Longrightarrow> eval_value code args vals v = eval_value code args vals Arg"
  by (cases Arg) (auto simp: recast_argument_def bindR_eq_Inr split: if_splits)

lemma recast_arguments_eval:
  "mapR (recast_argument ty UParams) (enumerate n as) = Inr as' \<Longrightarrow>
   map (eval_value code args vals) as' = map (eval_value code args vals) as"
proof (induction as arbitrary: n as')
  case (Cons a as)
  then obtain v vs where "recast_argument ty UParams (n, a) = Inr v"
      "mapR (recast_argument ty UParams) (enumerate (Suc n) as) = Inr vs" "as' = v # vs"
    by (auto simp: bindR_eq_Inr)
  with Cons.IH recast_argument_eval show ?case by simp
qed simp

lemma callee_of_effect: "effect code (eval_value code args vals) (CallInst (callee_of v) as) =
    Calls (eval_value code args vals v) (map (eval_value code args vals) as)"
  by (auto simp: callee_of_def split: ir_value.split ir_constant.split)

lemma recast_call_effect:
  assumes "recast_call ty I = Inr I'"
  shows "effect code (eval_value code args vals) I' = effect code (eval_value code args vals) I"
proof (cases "(ty, I)" rule: recast_call.cases)
  case (1 t Called as)
  show ?thesis
  proof (cases "I' = I")
    case False
    with assms 1 obtain UParams as' where
      "mapR (recast_argument ty UParams) (enumerate 0 as) = Inr as'" "I' = CallInst (callee_of (stripPointerCasts Called)) as'"
      by (auto simp: Let_def bindR_eq_Inr split: if_splits llvm_type.splits)
    with 1 recast_arguments_eval [OF this(1)] show ?thesis by (simp add: callee_of_effect)
  qed simp
qed (use assms in auto)

lemma RecastCalls_effect:
  assumes "RecastCalls ty F M = Inr M'" "body_of M F = Inr body"
  shows "\<exists>body'. body_of M' F = Inr body' \<and>
    map (effect code (eval_value code args vals)) body' = map (effect code (eval_value code args vals)) body"
proof -
  from assms obtain body' where b: "mapR (recast_call (ty M)) body = Inr body'"
      "M' = update_function F (\<lambda>f. f\<lparr>fun_body := map_option (\<lambda>_. body') (fun_body f)\<rparr>) M"
    by (auto simp: RecastCalls_def bindR_eq_Inr)
  have "map (effect code (eval_value code args vals)) body' = map (effect code (eval_value code args vals)) body"
    using mapR_length [OF b(1)] mapR_nth [OF b(1)] by (intro nth_equalityI) (auto intro: recast_call_effect)
  moreover have "body_of M' F = Inr body'"
    using assms(2) b by (auto simp: body_of_def split: option.splits)
  ultimately show ?thesis by blast
qed


definition sample_memory :: "ptr \<Rightarrow> ptr option" where
  "sample_memory a = (if a = 16 then Some 32 else if a = 32 then Some 64 else None)"

definition sample_method_ty :: llvm_type where
  "sample_method_ty = PointerTy (FunctionTy VoidTy [] False)"

definition sample_ty :: "ir_module \<Rightarrow> ir_value \<Rightarrow> llvm_type" where
  "sample_ty M v = (case v of ConstVal (PointerCast c T) \<Rightarrow> T | ConstVal (GlobalRef g) \<Rightarrow> sample_method_ty | _ \<Rightarrow> IntegerTy 64)"

definition sample_virtual_call :: "instr list" where
  "sample_virtual_call =
     [LoadInst (ConstVal (IntToPtr (ConstantInt (IntegerTy 64) 16 False) (PointerTy (PointerTy sample_method_ty))))
        (PointerTy sample_method_ty) True,
      LoadInst (InstVal 0) sample_method_ty False,
      CallInst (IndirectCall (InstVal 1)) [], RetVoid]"

definition sample_virtual :: ir_module where
  "sample_virtual = empty_module\<lparr>mod_funs := [(0, sample_callback\<lparr>fun_name := ''f'', fun_body := Some sample_virtual_call\<rparr>)],
     mod_next := 1\<rparr>"

lemma sample_find:
  "findFunctionAndLinkModules sample_linker sample_registry M 64 =
     Inr (M\<lparr>mod_funs := (8, sample_callback\<lparr>fun_linkage := PrivateLinkage\<rparr>) # filter (\<lambda>(i, f). i \<noteq> 8) (mod_funs M)\<rparr>, Some 8)"
proof -
  have "map (\<lambda>(j, x). (j, if j = (8 :: nat) then h x else x)) (filter (\<lambda>(i, f). i \<noteq> 8) xs) = filter (\<lambda>(i, f). i \<noteq> 8) xs"
    for h :: "ir_function \<Rightarrow> ir_function" and xs by (induction xs) auto
  then show ?thesis
    using sample_link_found(1,2) [of M empty_module]
    by (simp add: findFunctionAndLinkModules_def sample_cb_registered sample_link update_function_def)
qed

lemma sample_devirtualized:
  "\<exists>M'. DevirtualizeConstant_runOnFunction sample_linker sample_registry sample_memory sample_ty ''f'' 0 sample_virtual =
     Inr (True, M') \<and> (\<exists>body'. body_of M' 0 = Inr body' \<and> body' ! 2 = CallInst (DirectCall 8) [])"
  by (simp add: DevirtualizeConstant_runOnFunction_def Devirtualize_def devirtualize_step_def sample_find body_of_def
      function_at_def sample_virtual_def empty_module_def sample_virtual_call_def sample_memory_def upt_rec
      devirtualize_function_def devirtualize_body_def table_loads_def List.map_filter_simps
      replace_entry_loads_def sample_method_ty_def sample_callback_def RecastCalls_def sample_ty_def Let_def
      callee_of_def update_function_def)

definition sample_vals :: "nat \<Rightarrow> ptr option" where
  "sample_vals i = (if i = 0 then Some 32 else if i = 1 then Some 64 else None)"


end
