(* ===== verification/Easy_Pipeline.thy ===== *)
theory Easy_Pipeline
  imports Easy_Function Easy_Devirt
begin

text \<open>
  The passes of the run time as objects (\<open>include/easy/runtime/RuntimePasses.h\<close>, \<open>runtime/pass/ContextAnalysis.cpp\<close>) and the
  list of passes that \<open>Optimize\<close> builds. A pass is given its target name, or the context, by its constructor;
  a default-constructed \<open>ContextAnalysis\<close> has a null pointer. LLVM's pass manager runs the passes in the order in which they
  were added and hands a pass the analysis it requires; an analysis that was not added is default-constructed.
  \<open>populate\<close> is what \<open>populateModulePassManager\<close> adds, which \<open>Optimize\<close> calls twice. \<open>Easy_Function\<close> defines \<open>Optimize\<close> without
  this machinery; \<open>Optimize_runs_passes\<close> shows that it is the run of the list.
\<close>

subsection \<open>The passes\<close>

datatype runtime_pass =
    ContextAnalysisPass "ir_module Context option"
  | InlineParametersPass string
  | DevirtualizeConstantPass string
  | EmitCodesPass string
  | IndirectcallConstantPass string
  | StandardPasses

definition ContextAnalysis_default :: runtime_pass where
  "ContextAnalysis_default = ContextAnalysisPass None"

definition createContextAnalysisPass :: "ir_module Context \<Rightarrow> runtime_pass" where
  "createContextAnalysisPass C = ContextAnalysisPass (Some C)"

definition createInlineParametersPass :: "string \<Rightarrow> runtime_pass" where
  "createInlineParametersPass Name = InlineParametersPass Name"

definition createDevirtualizeConstantPass :: "string \<Rightarrow> runtime_pass" where
  "createDevirtualizeConstantPass Name = DevirtualizeConstantPass Name"

definition createEmitCodesPass :: "string \<Rightarrow> runtime_pass" where
  "createEmitCodesPass Name = EmitCodesPass Name"

definition createIndirectcallConstantPass :: "string \<Rightarrow> runtime_pass" where
  "createIndirectcallConstantPass Name = IndirectcallConstantPass Name"

definition InlineParameters_default :: runtime_pass where
  "InlineParameters_default = InlineParametersPass []"

definition DevirtualizeConstant_default :: runtime_pass where
  "DevirtualizeConstant_default = DevirtualizeConstantPass []"

definition EmitCodes_default :: runtime_pass where
  "EmitCodes_default = EmitCodesPass []"

definition IndirectcallConstant_default :: runtime_pass where
  "IndirectcallConstant_default = IndirectcallConstantPass []"

fun is_context :: "runtime_pass \<Rightarrow> bool" where
  "is_context (ContextAnalysisPass C) \<longleftrightarrow> True"
| "is_context _ \<longleftrightarrow> False"

fun getAnalysisUsage :: "runtime_pass \<Rightarrow> bool" where
  "getAnalysisUsage (ContextAnalysisPass C) \<longleftrightarrow> False"
| "getAnalysisUsage StandardPasses \<longleftrightarrow> False"
| "getAnalysisUsage _ \<longleftrightarrow> True"

fun getContext :: "runtime_pass \<Rightarrow> ir_module Context result" where
  "getContext (ContextAnalysisPass (Some C)) = Inr C"
| "getContext _ = Inl UndefinedBehaviour"

definition getAnalysis :: "runtime_pass list \<Rightarrow> runtime_pass" where
  "getAnalysis added = (case find is_context added of Some A \<Rightarrow> A | None \<Rightarrow> ContextAnalysis_default)"

record pass_env =
  pe_api :: llvm_api
  pe_tracker :: BitcodeTracker
  pe_mem :: "ptr \<Rightarrow> ptr option"
  pe_type :: "ir_module \<Rightarrow> ir_value \<Rightarrow> llvm_type"
  populate :: "ir_module \<Rightarrow> ir_module"

definition on_target :: "string \<Rightarrow> (ir_module Context \<Rightarrow> ir_function \<Rightarrow> ir_function) \<Rightarrow> runtime_pass \<Rightarrow> ir_module \<Rightarrow> ir_module result" where
  "on_target Name h A M =
     bindR (mapR (\<lambda>(i, f). if fun_name f \<noteq> Name then Inr (i, f) else bindR (getContext A) (\<lambda>C. Inr (i, h C f))) (mod_funs M)) (\<lambda>fs.
       Inr (M\<lparr>mod_funs := fs\<rparr>))"

fun run_pass :: "pass_env \<Rightarrow> runtime_pass \<Rightarrow> runtime_pass \<Rightarrow> ir_module \<Rightarrow> ir_module result" where
  "run_pass G A (ContextAnalysisPass C) M = Inr M"
| "run_pass G A (EmitCodesPass Name) M = on_target Name (\<lambda>C f. snd (EmitCodes_runOnFunction Name C f)) A M"
| "run_pass G A (InlineParametersPass Name) M =
     bindR (getContext A) (\<lambda>C.
     bindR (InlineParameters_runOnModule (pe_api G) (pe_tracker G) Name C M) (\<lambda>(changed, M'). Inr M'))"
| "run_pass G A (DevirtualizeConstantPass Name) M =
     foldR (\<lambda>F M. bindR (DevirtualizeConstant_runOnFunction (pe_api G) (pe_tracker G) (pe_mem G) (pe_type G) Name F M)
       (\<lambda>(changed, M'). Inr M')) (map fst (mod_funs M)) M"
| "run_pass G A (IndirectcallConstantPass Name) M =
     foldR (\<lambda>F M. bindR (IndirectcallConstant_runOnFunction (pe_api G) (pe_tracker G) Name F M)
       (\<lambda>(changed, M'). Inr M')) (map fst (mod_funs M)) M"
| "run_pass G A StandardPasses M = Inr (populate G M)"

definition run_passes :: "pass_env \<Rightarrow> runtime_pass list \<Rightarrow> ir_module \<Rightarrow> ir_module result" where
  "run_passes G added M = foldR (run_pass G (getAnalysis added)) added M"

definition Optimize_passes :: "string \<Rightarrow> ir_module Context \<Rightarrow> runtime_pass list" where
  "Optimize_passes Name C =
     [createContextAnalysisPass C, createEmitCodesPass Name, createInlineParametersPass Name, StandardPasses, StandardPasses]"

definition ReserveReg_runOnMachineFunction :: "jit_host \<Rightarrow> runtime \<Rightarrow> bool result \<times> runtime" where
  "ReserveReg_runOnMachineFunction J rt =
     (case getReservedRegs J rt of (r, rt') \<Rightarrow> (bindR r (\<lambda>ReservedRegs. Inr False), rt'))"

subsection \<open>What \<open>Optimize\<close> runs\<close>

lemma on_target_context:
  "getContext A = Inr C \<Longrightarrow> on_target Name h A M =
     Inr (M\<lparr>mod_funs := map (\<lambda>(i, f). (i, if fun_name f \<noteq> Name then f else h C f)) (mod_funs M)\<rparr>)"
proof -
  assume C: "getContext A = Inr C"
  have *: "mapR (\<lambda>(i, f). if fun_name f \<noteq> Name then Inr (i, f) else bindR (getContext A) (\<lambda>C. Inr (i, h C f))) fs =
      Inr (map (\<lambda>(i, f). (i, if fun_name f \<noteq> Name then f else h C f)) fs)" for fs
    using C by (induction fs) auto
  show ?thesis unfolding on_target_def * by simp
qed

lemma emit_pass: "getContext A = Inr C \<Longrightarrow> run_pass G A (EmitCodesPass Name) M = Inr (run_EmitCodes Name C M)"
proof -
  assume "getContext A = Inr C"
  moreover have "(if fun_name f \<noteq> Name then f else snd (EmitCodes_runOnFunction Name C f)) = snd (EmitCodes_runOnFunction Name C f)" for f
    by (simp add: EmitCodes_runOnFunction_def)
  ultimately show ?thesis by (simp only: run_pass.simps on_target_context run_EmitCodes_def)
qed

lemma Optimize_context: "getContext (getAnalysis (Optimize_passes Name C)) = Inr C"
  by (simp add: getAnalysis_def Optimize_passes_def createContextAnalysisPass_def)

text \<open>
  The list that \<open>Optimize\<close> adds to the pass manager, run in order over a module, is the body of \<open>Optimize\<close>: every pass gets the
  context of the call, the raw bytes are emitted before the function is renamed and made private, and the
  standard passes see the specialized module.
\<close>
lemma Optimize_runs_passes:
  assumes "has_target J" and "standard_passes J OptLvl OptSz = populate G \<circ> populate G"
  shows "Optimize (pe_api G) J (pe_tracker G) Name C OptLvl OptSz M rt =
      (case Hook_getReservedRegs M Name rt of
         (Inl e, rt') \<Rightarrow> (Inl e, rt')
       | (Inr u, rt') \<Rightarrow> (run_passes G (Optimize_passes Name C) M, rt')) \<and>
    (\<forall>i < length (Optimize_passes Name C). getAnalysisUsage (Optimize_passes Name C ! i) \<longrightarrow>
       (\<exists>j<i. Optimize_passes Name C ! j = createContextAnalysisPass C))"
proof
  have "run_passes G (Optimize_passes Name C) M =
      bindR (InlineParameters_runOnModule (pe_api G) (pe_tracker G) Name C (run_EmitCodes Name C M)) (\<lambda>(changed, M').
        Inr (standard_passes J OptLvl OptSz M'))"
    using emit_pass [OF Optimize_context [of Name C], of G Name M] Optimize_context [of Name C] assms(2)
    by (cases "InlineParameters_runOnModule (pe_api G) (pe_tracker G) Name C (run_EmitCodes Name C M)")
      (auto simp: run_passes_def Optimize_passes_def createContextAnalysisPass_def createEmitCodesPass_def
        createInlineParametersPass_def simp del: run_pass.simps(2))
  with assms(1) show "Optimize (pe_api G) J (pe_tracker G) Name C OptLvl OptSz M rt =
      (case Hook_getReservedRegs M Name rt of
         (Inl e, rt') \<Rightarrow> (Inl e, rt')
       | (Inr u, rt') \<Rightarrow> (run_passes G (Optimize_passes Name C) M, rt'))"
    by (simp add: Optimize_def split: prod.split sum.split)
  show "\<forall>i < length (Optimize_passes Name C). getAnalysisUsage (Optimize_passes Name C ! i) \<longrightarrow>
       (\<exists>j<i. Optimize_passes Name C ! j = createContextAnalysisPass C)"
    by (auto simp: Optimize_passes_def createContextAnalysisPass_def less_Suc_eq numeral_eq_Suc)
qed

text \<open>Without the analysis the passes that read the context are undefined.\<close>

lemma missing_context:
  assumes "\<forall>p \<in> set added. \<not> is_context p" and "added = InlineParametersPass Name # rest"
  shows "run_passes G added M = Inl UndefinedBehaviour"
proof -
  have "find is_context added = None" using assms(1) by (simp add: find_None_iff)
  then show ?thesis
    unfolding run_passes_def getAnalysis_def assms(2) by (simp add: ContextAnalysis_default_def)
qed

text \<open>
  A pass that the registry of LLVM constructs by default has an empty target name: over a module without unnamed functions
  the function passes do nothing, and the module pass fails its assertion.
\<close>
lemma default_passes:
  assumes "\<forall>(i, f) \<in> set (mod_funs M). fun_name f \<noteq> []" and "getContext A = Inr C"
  shows "run_pass G A EmitCodes_default M = Inr M" and "run_pass G A DevirtualizeConstant_default M = Inr M"
    and "run_pass G A IndirectcallConstant_default M = Inr M"
    and "run_pass G A InlineParameters_default M = Inl AssertionFailure"
proof -
  have "map (\<lambda>(i, f). (i, if fun_name f \<noteq> [] then f else h f)) (mod_funs M) = mod_funs M" for h
    using assms(1) by (auto intro!: map_idI)
  then show "run_pass G A EmitCodes_default M = Inr M"
    by (simp add: EmitCodes_default_def on_target_context [OF assms(2)])
  have skip: "foldR (\<lambda>F M. bindR (run F M) (\<lambda>(changed, M'). Inr M')) is M = Inr M"
    if "\<And>F. F \<in> set is \<Longrightarrow> run F M = Inr (False, M)" for run :: "nat \<Rightarrow> ir_module \<Rightarrow> (bool \<times> ir_module) result" and "is"
    using that by (induction "is") auto
  have named: "\<exists>f. function_at M F = Some f \<and> fun_name f \<noteq> []" if "F \<in> set (map fst (mod_funs M))" for F
  proof -
    from that obtain f where "map_of (mod_funs M) F = Some f" by (auto simp: map_of_eq_None_iff dest: weak_map_of_SomeI)
    with assms(1) show ?thesis by (auto simp: function_at_def dest: map_of_SomeD)
  qed
  have "DevirtualizeConstant_runOnFunction (pe_api G) (pe_tracker G) (pe_mem G) (pe_type G) [] F M = Inr (False, M) \<and>
      IndirectcallConstant_runOnFunction (pe_api G) (pe_tracker G) [] F M = Inr (False, M)"
    if "F \<in> set (map fst (mod_funs M))" for F
    using named [OF that] by (auto simp: DevirtualizeConstant_runOnFunction_def IndirectcallConstant_runOnFunction_def)
  then show "run_pass G A DevirtualizeConstant_default M = Inr M" "run_pass G A IndirectcallConstant_default M = Inr M"
    unfolding DevirtualizeConstant_default_def IndirectcallConstant_default_def run_pass.simps
    by (intro skip; blast)+
  have "getFunction_named M [] = None"
    using assms(1) by (auto simp: getFunction_named_def find_by_def find_None_iff)
  then show "run_pass G A InlineParameters_default M = Inl AssertionFailure"
    using assms(2) by (simp add: InlineParameters_default_def InlineParameters_runOnModule_def)
qed

end
