(* ===== verification/Easy_Deindirect.thy ===== *)
theory Easy_Deindirect
  imports Easy_Devirt
begin

text \<open>
  \<open>DeindirectCall\<close> of \<open>runtime/pass/IndirectcallConstant.cpp\<close>, an earlier way to make calls through function pointers in memory
  direct, which nothing calls any more. It is the loop of \<open>Devirtualize\<close> with one dereference less: the pointer at the constant
  address is the function itself, and any load counts, not only those marked as virtual table accesses. The rest of the loop
  was kept, so it still replaces the loads through that pointer and not the pointer.
\<close>

fun getHostAddress :: "instr \<Rightarrow> (llvm_type \<times> 64 word) option" where
  "getHostAddress (LoadInst p T is_vtable) =
     (case stripPointerCasts p of
        ConstVal (IntToPtr (ConstantInt KT v s) P) \<Rightarrow> Some (KT, v)
      | ConstVal (ConstantInt KT v s) \<Rightarrow> Some (KT, v)
      | _ \<Rightarrow> None)"
| "getHostAddress _ = None"

definition deindirect_step ::
    "llvm_api \<Rightarrow> BitcodeTracker \<Rightarrow> (ptr \<Rightarrow> ptr option) \<Rightarrow> nat \<Rightarrow> nat \<Rightarrow> bool \<times> ir_module \<Rightarrow> (bool \<times> ir_module) result" where
  "deindirect_step L BT mem F k st = (case st of (Changed, M) \<Rightarrow>
     bindR (body_of M F) (\<lambda>body.
     bindR (nth_checked body k) (\<lambda>I.
       (case getHostAddress I of
          None \<Rightarrow> Inr (Changed, M)
        | Some K \<Rightarrow>
            (case mem (snd K) of
               None \<Rightarrow> Inl UndefinedBehaviour
             | Some CalledPtrHostValue \<Rightarrow>
                 bindR (findFunctionAndLinkModules L BT M CalledPtrHostValue) (\<lambda>(M', NewF).
                   (case NewF of
                      None \<Rightarrow> Inr (Changed, M')
                    | Some g \<Rightarrow> bindR (mapR (devirtualize_function K g) (mod_funs M')) (\<lambda>fs.
                        Inr (True, M'\<lparr>mod_funs := fs\<rparr>)))))))))"

definition DeindirectCall ::
    "llvm_api \<Rightarrow> BitcodeTracker \<Rightarrow> (ptr \<Rightarrow> ptr option) \<Rightarrow> nat \<Rightarrow> ir_module \<Rightarrow> (bool \<times> ir_module) result" where
  "DeindirectCall L BT mem F M =
     bindR (body_of M F) (\<lambda>body. foldR (deindirect_step L BT mem F) [0..<length body] (False, M))"

subsection \<open>Calls through a loaded function pointer stay\<close>

lemma subst_value_none [simp]: "subst_value (\<lambda>j. None) v = v"
  by (induction v) simp_all

lemma subst_instr_none [simp]: "subst_instr (\<lambda>j. None) I = I"
proof -
  have "subst_callee (\<lambda>j. None) c = c" for c by (cases c) simp_all
  then show ?thesis by (cases I) (simp_all add: map_idI)
qed

definition no_entry_loads :: "instr list \<Rightarrow> bool" where
  "no_entry_loads body \<longleftrightarrow> (\<forall>I \<in> set body. \<forall>i. \<not> entry_load i I)"

lemma replace_entry_loads_none:
  assumes "no_entry_loads body" and "replace_entry_loads g e body = Inr body'"
  shows "body' = body"
proof -
  have "filter (\<lambda>(j, I). entry_load i I) (enumerate 0 body) = []" for i
    using assms(1) by (auto simp: filter_empty_conv no_entry_loads_def in_set_enumerate_eq)
  with assms(2) show ?thesis
    by (auto simp: replace_entry_loads_def map_idI split: prod.splits llvm_type.splits if_splits)
qed

lemma devirtualize_body_none:
  "no_entry_loads body \<Longrightarrow> devirtualize_body K g body = Inr body' \<Longrightarrow> body' = body"
  unfolding devirtualize_body_def
  by (rule foldR_invariant [where P = "\<lambda>b. b = body"]) (auto dest: replace_entry_loads_none)

lemma deindirect_step_keeps:
  assumes "link_keeps L BT F" and "body_of M F = Inr body" and "no_entry_loads body"
    and "deindirect_step L BT mem F k (ch, M) = Inr (ch', M')"
  shows "body_of M' F = Inr body"
proof (cases "getHostAddress (body ! k)")
  case None
  with assms(2,4) show ?thesis by (auto simp: deindirect_step_def bindR_eq_Inr nth_checked_eq_Inr)
next
  case (Some K)
  with assms(2,4) obtain p M1 NewF where p: "findFunctionAndLinkModules L BT M p = Inr (M1, NewF)"
      "(case NewF of None \<Rightarrow> Inr (ch, M1) | Some g \<Rightarrow> bindR (mapR (devirtualize_function K g) (mod_funs M1)) (\<lambda>fs.
         Inr (True, M1\<lparr>mod_funs := fs\<rparr>))) = Inr (ch', M')"
    by (auto simp: deindirect_step_def bindR_eq_Inr nth_checked_eq_Inr split: option.splits)
  have body: "body_of M1 F = Inr body" using find_keeps_body [OF assms(1) p(1)] assms(2) by simp
  show ?thesis
  proof (cases NewF)
    case (Some g)
    with p(2) obtain fs where fs: "mapR (devirtualize_function K g) (mod_funs M1) = Inr fs" "M' = M1\<lparr>mod_funs := fs\<rparr>"
      by (auto simp: bindR_eq_Inr)
    obtain f where f: "map_of (mod_funs M1) F = Some f" "(case fun_body f of None \<Rightarrow> [] | Some b \<Rightarrow> b) = body"
      using body by (auto simp: body_of_def function_at_def split: option.splits)
    obtain f' where f': "map_of fs F = Some f'" "devirtualize_function K g (F, f) = Inr (F, f')"
      using mapR_devirtualize_at [OF fs(1) f(1)] by blast
    have "fun_body f' = fun_body f"
      using f'(2) f(2) assms(3)
      by (auto simp: devirtualize_function_def bindR_eq_Inr split: option.splits dest: devirtualize_body_none)
    with f f'(1) fs(2) show ?thesis by (simp add: body_of_def function_at_def)
  qed (use p(2) body in simp)
qed

text \<open>
  What the loop was written for does not happen: in a function that loads function pointers from constant addresses and loads
  nothing through a loaded pointer, no instruction changes, so every call through such a pointer stays indirect,
  whatever the loop reports.
\<close>
lemma DeindirectCall_keeps:
  assumes "link_keeps L BT F" and "body_of M F = Inr body" and "no_entry_loads body"
    and "DeindirectCall L BT mem F M = Inr (ch, M')"
  shows "body_of M' F = Inr body"
proof -
  have "foldR (deindirect_step L BT mem F) [0..<length body] (False, M) = Inr (ch, M')"
    using assms(2,4) by (simp add: DeindirectCall_def)
  then have "body_of (snd (ch, M')) F = Inr body"
  proof (rule foldR_invariant)
    fix k u v assume "body_of (snd u) F = Inr body" "deindirect_step L BT mem F k u = Inr v"
    then show "body_of (snd v) F = Inr body"
      using deindirect_step_keeps [OF assms(1) _ assms(3)] by (cases u; cases v) simp
  qed (simp add: assms(2))
  then show ?thesis by simp
qed

definition sample_indirect_call :: "instr list" where
  "sample_indirect_call =
     [LoadInst (ConstVal (IntToPtr (ConstantInt (IntegerTy 64) 32 False) (PointerTy (PointerTy sample_method_ty))))
        (PointerTy sample_method_ty) False,
      CallInst (IndirectCall (InstVal 0)) [], RetVoid]"

definition sample_indirect :: ir_module where
  "sample_indirect = empty_module\<lparr>mod_funs := [(0, sample_callback\<lparr>fun_name := ''f'', fun_body := Some sample_indirect_call\<rparr>)],
     mod_next := 1\<rparr>"

lemma DeindirectCall_example:
  "\<exists>M'. DeindirectCall sample_linker sample_registry sample_memory 0 sample_indirect = Inr (True, M') \<and>
     body_of M' 0 = Inr sample_indirect_call"
  by (simp add: DeindirectCall_def deindirect_step_def sample_find body_of_def
      function_at_def sample_indirect_def empty_module_def sample_indirect_call_def sample_memory_def upt_rec
      devirtualize_function_def devirtualize_body_def table_loads_def List.map_filter_simps
      replace_entry_loads_def sample_method_ty_def sample_callback_def Let_def)

end
