(* ===== verification/Easy_Virtual.thy ===== *)
theory Easy_Virtual
  imports Easy_Register
begin

text \<open>
  The collection of virtual methods in \<open>pass/Easy.cpp\<close>: \<open>mayBeOverload\<close> and \<open>deduceVirtualMethodsToJIT\<close>,
  whose call in \<open>collectObjectsToJIT\<close> is commented out. Types of methods are collected from the loads of virtual
  tables in the exported functions; functions of those types found in tables, and what may override
  them, are put in the section of exported functions.

  A \<open>virtual_module\<close> adds to a module what these functions read: the type of a function, the loads among its
  instructions with their type and whether they are tagged as accesses to a virtual table, and the kind of a
  constant. Its operands and users are those of \<open>Easy_Register\<close> and \<open>Easy_Alias\<close>.
\<close>

datatype constant_kind =
    CastExpr nat
  | OtherExpr
  | ConstStruct
  | OtherAggregate
  | AFunction
  | OtherConstant
  | NotConstant

record virtual_module = static_module +
  fun_type :: "nat \<Rightarrow> llvm_type \<times> llvm_type list \<times> bool"
  load_insts :: "nat \<Rightarrow> (llvm_type \<times> bool) list"
  vkind :: "nat \<Rightarrow> constant_kind"

definition is_cast :: "virtual_module \<Rightarrow> nat \<Rightarrow> bool" where
  "is_cast M v = (case vkind M v of CastExpr _ \<Rightarrow> True | _ \<Rightarrow> False)"

definition is_aggregate :: "virtual_module \<Rightarrow> nat \<Rightarrow> bool" where
  "is_aggregate M v = (vkind M v = ConstStruct \<or> vkind M v = OtherAggregate)"

definition in_table :: "virtual_module \<Rightarrow> nat \<Rightarrow> bool" where
  "in_table M F = list_ex (\<lambda>U. is_cast M U \<and> list_ex (is_aggregate M) (users (sm_values M) U)) (users (sm_values M) F)"

definition mayBeOverload :: "virtual_module \<Rightarrow> nat \<Rightarrow> nat \<Rightarrow> bool result" where
  "mayBeOverload M FOverload F =
     (case (fun_type M FOverload, fun_type M F) of ((ORet, OParams, OVarArg), (FRet, FParams, FVarArg)) \<Rightarrow>
        if FRet \<noteq> ORet then Inr False
        else if length FParams \<noteq> length OParams then Inr False
        else if OVarArg then Inr False
        else case OParams of
               [] \<Rightarrow> Inl UndefinedBehaviour
             | this # _ \<Rightarrow>
                 if \<not> isPointerTy this then Inr False
                 else if tl FParams \<noteq> tl OParams then Inr False
                 else Inr (in_table M F))"

subsection \<open>The types of virtual methods\<close>

definition loaded_method_type :: "llvm_type \<times> bool \<Rightarrow> llvm_type option result" where
  "loaded_method_type LI = (case LI of (T, isTBAAVtableAccess) \<Rightarrow>
     if \<not> isTBAAVtableAccess then Inr None
     else case T of PointerTy (PointerTy MethodTy) \<Rightarrow> Inr (Some MethodTy) | _ \<Rightarrow> Inl AssertionFailure)"

definition VirtualMethodTys :: "virtual_module \<Rightarrow> llvm_type set result" where
  "VirtualMethodTys M =
     bindR (mapR loaded_method_type (concat (map (\<lambda>(i, F).
         if ob_function F \<and> ob_section F = JIT_SECTION then load_insts M i else []) (gobjects M))))
       (\<lambda>tys. Inr (set (List.map_filter id tys)))"

subsection \<open>Tables and their methods\<close>

definition table_entries :: "virtual_module \<Rightarrow> nat \<times> global_object \<Rightarrow> nat list" where
  "table_entries M e =
     (case node (sm_values M) (fst e) of
        NGlobalVariable (Some CS) \<Rightarrow>
          if vkind M CS \<noteq> ConstStruct \<or> length (operands M CS) \<noteq> 1 then []
          else let CA = hd (operands M CS) in if is_aggregate M CA then operands M CA else []
      | _ \<Rightarrow> [])"

definition table_function :: "virtual_module \<Rightarrow> nat \<Rightarrow> nat option" where
  "table_function M U =
     (let C = (case vkind M U of CastExpr C \<Rightarrow> C | _ \<Rightarrow> U)
      in if vkind M C = AFunction then Some C else None)"

definition method_type :: "virtual_module \<Rightarrow> nat \<Rightarrow> llvm_type" where
  "method_type M F = (case fun_type M F of (r, ps, v) \<Rightarrow> FunctionTy r ps v)"

definition set_jit_section :: "nat \<Rightarrow> virtual_module \<Rightarrow> virtual_module" where
  "set_jit_section F M = M\<lparr>gobjects := map (\<lambda>(i, GO).
     (i, if i = F then GO\<lparr>ob_section := JIT_SECTION\<rparr> else GO)) (gobjects M)\<rparr>"

definition mark_overload :: "nat \<Rightarrow> nat \<times> global_object \<Rightarrow> virtual_module \<Rightarrow> virtual_module result" where
  "mark_overload F e M = (case e of (FOverload, GO) \<Rightarrow>
     if \<not> ob_function GO then Inr M
     else if FOverload = F then Inr M
     else bindR (mayBeOverload M FOverload F) (\<lambda>may. Inr (if may then set_jit_section FOverload M else M)))"

definition mark_method :: "llvm_type set \<Rightarrow> nat \<Rightarrow> virtual_module \<Rightarrow> virtual_module result" where
  "mark_method tys U M =
     (case table_function M U of
        None \<Rightarrow> Inr M
      | Some F \<Rightarrow>
          if method_type M F \<in> tys
          then foldR (mark_overload F) (gobjects M) (set_jit_section F M)
          else Inr M)"

definition deduceVirtualMethodsToJIT :: "virtual_module \<Rightarrow> virtual_module result" where
  "deduceVirtualMethodsToJIT M =
     bindR (VirtualMethodTys M) (\<lambda>tys.
       foldR (\<lambda>e M1. foldR (mark_method tys) (table_entries M1 e) M1) (gobjects M) M)"

subsection \<open>What is marked\<close>

definition mark_all :: "nat set \<Rightarrow> virtual_module \<Rightarrow> virtual_module" where
  "mark_all A M = M\<lparr>gobjects := map (\<lambda>(i, GO).
     (i, if i \<in> A then GO\<lparr>ob_section := JIT_SECTION\<rparr> else GO)) (gobjects M)\<rparr>"

lemma mark_all_empty [simp]: "mark_all {} M = M"
  by (simp add: mark_all_def)

lemma set_jit_section_mark: "set_jit_section F (mark_all A M) = mark_all (insert F A) M"
proof -
  have "map (\<lambda>(i, GO). (i, if i = F then GO\<lparr>ob_section := JIT_SECTION\<rparr> else GO))
      (map (\<lambda>(i, GO). (i, if i \<in> A then GO\<lparr>ob_section := JIT_SECTION\<rparr> else GO)) xs) =
    map (\<lambda>(i, GO). (i, if i \<in> insert F A then GO\<lparr>ob_section := JIT_SECTION\<rparr> else GO)) xs" for xs :: "(nat \<times> global_object) list"
    by (induction xs) auto
  then show ?thesis by (simp add: set_jit_section_def mark_all_def)
qed

lemma mark_all_simps [simp]:
  "sm_values (mark_all A M) = sm_values M" "operands (mark_all A M) = operands M"
  "vkind (mark_all A M) = vkind M" "fun_type (mark_all A M) = fun_type M"
  by (simp_all add: mark_all_def)

lemma mark_all_kinds [simp]:
  "is_cast (mark_all A M) = is_cast M" "is_aggregate (mark_all A M) = is_aggregate M"
  by (auto simp: fun_eq_iff is_cast_def is_aggregate_def)

lemma mark_all_in_table [simp]: "in_table (mark_all A M) F = in_table M F"
  by (simp add: in_table_def)

lemma mark_all_reads [simp]:
  "mayBeOverload (mark_all A M) i F = mayBeOverload M i F" "table_entries (mark_all A M) e = table_entries M e"
  "table_function (mark_all A M) U = table_function M U" "method_type (mark_all A M) F = method_type M F"
  by (simp_all add: mayBeOverload_def table_entries_def table_function_def method_type_def Let_def
      split: prod.split list.split value_node.split option.split)

lemma foldR_marks:
  assumes "\<And>x A. x \<in> set xs \<Longrightarrow> f x (mark_all A M) = Inr (mark_all (A \<union> g x) M)"
  shows "foldR f xs (mark_all A M) = Inr (mark_all (A \<union> (\<Union>x \<in> set xs. g x)) M)"
  using assms by (induction xs arbitrary: A) (simp_all add: Un_assoc)

definition overloads :: "virtual_module \<Rightarrow> nat \<Rightarrow> nat set" where
  "overloads M F = {i. i \<noteq> F \<and> (\<exists>GO. (i, GO) \<in> set (gobjects M) \<and> ob_function GO) \<and> mayBeOverload M i F = Inr True}"

definition table_methods :: "virtual_module \<Rightarrow> llvm_type set \<Rightarrow> nat set" where
  "table_methods M tys = {F. method_type M F \<in> tys \<and>
     (\<exists>e \<in> set (gobjects M). \<exists>U \<in> set (table_entries M e). table_function M U = Some F)}"

lemma mayBeOverload_defined:
  assumes "fun_type M F = (r, p # ps, v)"
  shows "\<exists>b. mayBeOverload M i F = Inr b"
  using assms by (auto simp: mayBeOverload_def split: prod.split list.split)

lemma function_ids:
  "(\<exists>GO. (i, GO) \<in> set xs \<and> ob_function GO) \<longleftrightarrow> (i, True) \<in> set (map (\<lambda>(i, GO). (i, ob_function GO)) xs)"
  by force

lemma mark_all_functions:
  "(\<exists>GO. (i, GO) \<in> set (gobjects (mark_all A M)) \<and> ob_function GO) \<longleftrightarrow>
   (\<exists>GO. (i, GO) \<in> set (gobjects M) \<and> ob_function GO)"
proof -
  have "map (\<lambda>(i, GO). (i, ob_function GO)) (gobjects (mark_all A M)) = map (\<lambda>(i, GO). (i, ob_function GO)) (gobjects M)"
    by (auto simp: mark_all_def split: if_splits)
  then show ?thesis unfolding function_ids by simp
qed

lemma mark_overloads_step:
  assumes "fun_type M F = (r, p # ps, v)"
  shows "foldR (mark_overload F) (gobjects (mark_all A M)) (mark_all B M) = Inr (mark_all (B \<union> overloads M F) M)"
proof -
  let ?g = "\<lambda>(i, GO). if ob_function GO \<and> i \<noteq> F \<and> mayBeOverload M i F = Inr True then {i} else {}"
  have "mark_overload F e (mark_all A' M) = Inr (mark_all (A' \<union> ?g e) M)" for e A'
    using mayBeOverload_defined [OF assms, of "fst e"]
    by (cases e) (auto simp: mark_overload_def set_jit_section_mark)
  from foldR_marks [OF this] have "foldR (mark_overload F) (gobjects (mark_all A M)) (mark_all B M) =
      Inr (mark_all (B \<union> (\<Union>e \<in> set (gobjects (mark_all A M)). ?g e)) M)" .
  moreover have "(\<Union>e \<in> set (gobjects (mark_all A M)). ?g e) = overloads M F"
    by (auto simp: overloads_def mark_all_functions [of _ A M, symmetric] split: if_splits)
  ultimately show ?thesis by simp
qed

definition methods_have_this :: "llvm_type set \<Rightarrow> bool" where
  "methods_have_this tys \<longleftrightarrow> (\<forall>r v. FunctionTy r [] v \<notin> tys)"

lemma mark_method_step:
  assumes "methods_have_this tys"
  shows "mark_method tys U (mark_all A M) = Inr (mark_all (A \<union>
    (case table_function M U of None \<Rightarrow> {}
     | Some F \<Rightarrow> if method_type M F \<in> tys then insert F (overloads M F) else {})) M)"
proof (cases "table_function M U")
  case (Some F)
  show ?thesis
  proof (cases "method_type M F \<in> tys")
    case True
    then obtain r p ps v where "fun_type M F = (r, p # ps, v)"
      using assms unfolding methods_have_this_def method_type_def by (cases "fun_type M F"; cases "fst (snd (fun_type M F))") auto
    from mark_overloads_step [OF this, of A "insert F A"] True Some show ?thesis
      by (simp add: mark_method_def set_jit_section_mark)
  qed (simp add: mark_method_def Some)
qed (simp add: mark_method_def)


definition sample_virtual :: virtual_module where
  "sample_virtual =
     \<lparr>gobjects = [(0, \<lparr>ob_name = ''user'', ob_function = True, ob_section = JIT_SECTION, ob_declaration = False,
          ob_constant = False, ob_local = False\<rparr>),
        (1, \<lparr>ob_name = ''method'', ob_function = True, ob_section = [], ob_declaration = False,
          ob_constant = False, ob_local = False\<rparr>),
        (2, \<lparr>ob_name = ''free'', ob_function = True, ob_section = [], ob_declaration = False,
          ob_constant = False, ob_local = False\<rparr>),
        (3, \<lparr>ob_name = ''vtable'', ob_function = False, ob_section = [], ob_declaration = False,
          ob_constant = True, ob_local = False\<rparr>)],
      sm_values = \<lparr>node = (\<lambda>v. if v < 3 then NFunction else if v = 3 then NGlobalVariable (Some 4) else NOther []),
        users = (\<lambda>v. if v = 1 then [6] else if v = 6 then [5] else [])\<rparr>,
      insts = (\<lambda>f. []), operands = (\<lambda>v. if v = 4 then [5] else if v = 5 then [6] else if v = 6 then [1] else []),
      is_user = (\<lambda>v. 3 < v),
      fun_type = (\<lambda>f. if f = 0 then (VoidTy, [], False) else (VoidTy, [PointerTy (IntegerTy 8), IntegerTy 32], False)),
      load_insts = (\<lambda>f. if f = 0
        then [(PointerTy (PointerTy (FunctionTy VoidTy [PointerTy (IntegerTy 8), IntegerTy 32] False)), True),
              (IntegerTy 32, False)] else []),
      vkind = (\<lambda>v. if v < 3 then AFunction else if v = 4 then ConstStruct else if v = 5 then OtherAggregate
        else if v = 6 then CastExpr 1 else NotConstant)\<rparr>"


text \<open>
  The check that an overload is registered in a virtual table looks at the method it overrides, which was found
  in a table, and not at the overload: what uses the overload makes no difference. And a pair of functions
  without parameters is read past the end of their parameter lists.
\<close>

lemma mayBeOverload_table_unchecked:
  assumes "FOverload \<noteq> F" and "vkind M FOverload = AFunction"
  shows "mayBeOverload (M\<lparr>sm_values := (sm_values M)\<lparr>users := (users (sm_values M))(FOverload := us)\<rparr>\<rparr>) FOverload F =
    mayBeOverload M FOverload F"
proof -
  let ?N = "M\<lparr>sm_values := (sm_values M)\<lparr>users := (users (sm_values M))(FOverload := us)\<rparr>\<rparr>"
  have "is_cast ?N = is_cast M" "is_aggregate ?N = is_aggregate M"
    by (auto simp: fun_eq_iff is_cast_def is_aggregate_def)
  moreover have "\<not> is_cast M FOverload" using assms(2) by (simp add: is_cast_def)
  ultimately have "in_table ?N F = in_table M F" using assms(1) by (auto simp: in_table_def list_ex_iff)
  then show ?thesis by (simp add: mayBeOverload_def split: prod.split list.split)
qed

lemma mayBeOverload_no_parameters:
  "fun_type M F = (r, [], v) \<Longrightarrow> fun_type M FOverload = (r, [], False) \<Longrightarrow>
     mayBeOverload M FOverload F = Inl UndefinedBehaviour"
  by (simp add: mayBeOverload_def)

end
