(* ===== verification/Easy_Alloca.thy ===== *)
theory Easy_Alloca
  imports Easy_Struct
begin

text \<open>
  The other translation of a struct in \<open>runtime/pass/InlineParametersHelper.cpp\<close>: \<open>GetStructAlloc\<close> makes a
  stack object and stores one constant per field (\<open>StoreStructField\<close>). A store is the list of the indices
  of its \<open>getelementptr\<close>, 32-bit words as \<open>getInt32\<close> makes them, with the stored constant; storing a null
  \<open>Constant*\<close> is undefined behaviour. The position in the argument's bytes advances by what each field
  consumed, not by the offsets of the data layout.
\<close>

type_synonym gep_path = "32 word list"

type_synonym store_state = "ir_module \<times> (gep_path \<times> ir_constant) list"

definition emit_store :: "gep_path \<Rightarrow> ir_constant option \<Rightarrow> store_state \<Rightarrow> store_state result" where
  "emit_store GEP c st =
     (case c of None \<Rightarrow> Inl UndefinedBehaviour | Some k \<Rightarrow> Inr (fst st, snd st @ [(GEP, k)]))"

definition store_raw ::
    "DataLayout \<Rightarrow> llvm_type \<Rightarrow> byte list \<Rightarrow> gep_path \<Rightarrow> store_state \<Rightarrow> (nat \<times> store_state) result" where
  "store_raw DL Ty Raw GEP st =
     bindR (GetConstantFromRaw DL Ty Raw) (\<lambda>(FieldValue, RawOffset).
     bindR (emit_store GEP FieldValue st) (\<lambda>st'. Inr (RawOffset, st')))"

function (sequential) StoreStructField ::
    "llvm_api \<Rightarrow> BitcodeTracker \<Rightarrow> llvm_type \<Rightarrow> byte list \<Rightarrow> gep_path \<Rightarrow> store_state \<Rightarrow>
     (nat \<times> store_state) result" where
  "StoreStructField L BT (StructTy Ts) Raw GEP st =
     foldR (\<lambda>(Field, T) (RawOffset, st).
         bindR (StoreStructField L BT T (drop RawOffset Raw) (GEP @ [of_nat Field]) st) (\<lambda>(Size, st').
           Inr (RawOffset + Size, st')))
       (enumerate 0 Ts) (0, st)"
| "StoreStructField L BT (ArrayTy Fields EleTy) Raw GEP st =
     foldR (\<lambda>Field (RawOffset, st).
         bindR (StoreStructField L BT EleTy (drop RawOffset Raw) (GEP @ [of_nat Field]) st) (\<lambda>(Size, st').
           Inr (RawOffset + Size, st')))
       [0..<Fields] (0, st)"
| "StoreStructField L BT (PointerTy PTy) Raw GEP st =
     (if isFunctionTy PTy then
        bindR (read_raw 8 Raw) (\<lambda>p.
          if (of_nat p :: ptr) \<noteq> 0 then
            bindR (LinkPointerIfPossible L BT (fst st) (of_nat p) (PointerTy PTy)) (\<lambda>(M', c).
            bindR (emit_store GEP c (M', snd st)) (\<lambda>st'. Inr (8, st')))
          else store_raw (data_layout L) (PointerTy PTy) Raw GEP st)
      else store_raw (data_layout L) (PointerTy PTy) Raw GEP st)"
| "StoreStructField L BT Ty Raw GEP st = store_raw (data_layout L) Ty Raw GEP st"
  by pat_completeness auto
termination
  by (relation "measure (\<lambda>(L, BT, T, Raw, GEP, st). size T)")
    (auto simp: in_set_enumerate_eq less_Suc_eq_le intro!: size_list_estimation' [OF nth_mem])

definition GetStructAlloc ::
    "llvm_api \<Rightarrow> BitcodeTracker \<Rightarrow> ir_module \<Rightarrow> byte list \<Rightarrow> llvm_type \<Rightarrow>
     (ir_module \<times> llvm_type \<times> (gep_path \<times> ir_constant) list) result" where
  "GetStructAlloc L BT M Struct StructPtrTy =
     (case StructPtrTy of
        PointerTy StructTy' \<Rightarrow>
          bindR (StoreStructField L BT StructTy' Struct [0] (M, [])) (\<lambda>(Size, M', stores).
            Inr (M', StructTy', stores))
      | _ \<Rightarrow> Inl UndefinedBehaviour)"

subsection \<open>Which bytes each field receives\<close>

text \<open>
  \<open>field_paths\<close> lists the leaves of a type with their index paths, \<open>at_offsets\<close> gives each the position right
  after the leaf before it.
\<close>

fun field_paths :: "gep_path \<Rightarrow> llvm_type \<Rightarrow> (gep_path \<times> llvm_type) list" where
  "field_paths GEP (StructTy Ts) = concat (map (\<lambda>(i, T). field_paths (GEP @ [of_nat i]) T) (enumerate 0 Ts))"
| "field_paths GEP (ArrayTy n T) = concat (map (\<lambda>i. field_paths (GEP @ [of_nat i]) T) [0..<n])"
| "field_paths GEP T = [(GEP, T)]"

fun at_offsets :: "DataLayout \<Rightarrow> nat \<Rightarrow> (gep_path \<times> llvm_type) list \<Rightarrow> (nat \<times> gep_path \<times> llvm_type) list" where
  "at_offsets DL k [] = []"
| "at_offsets DL k ((p, T) # ls) = (k, p, T) # at_offsets DL (k + leaf_size DL T) ls"

definition total_size :: "DataLayout \<Rightarrow> (gep_path \<times> llvm_type) list \<Rightarrow> nat" where
  "total_size DL ls = sum_list (map (\<lambda>(p, T). leaf_size DL T) ls)"

definition readable :: "DataLayout \<Rightarrow> byte list \<Rightarrow> (nat \<times> gep_path \<times> llvm_type) list \<Rightarrow> bool" where
  "readable DL Raw ls \<longleftrightarrow> (\<forall>(k, p, T) \<in> set ls. plain_leaf DL T (drop k Raw))"

definition stored_from ::
    "DataLayout \<Rightarrow> byte list \<Rightarrow> nat \<times> gep_path \<times> llvm_type \<Rightarrow> gep_path \<times> ir_constant \<Rightarrow> bool" where
  "stored_from DL Raw l s = (case l of (k, p, T) \<Rightarrow> case s of (q, c) \<Rightarrow>
     q = p \<and> GetConstantFromRaw DL T (drop k Raw) = Inr (Some c, leaf_size DL T))"

lemma total_size_simps [simp]:
  "total_size DL [] = 0"
  "total_size DL ((p, T) # ls) = leaf_size DL T + total_size DL ls"
  "total_size DL (ls @ ls') = total_size DL ls + total_size DL ls'"
  by (simp_all add: total_size_def)

lemma at_offsets_append: "at_offsets DL k (ls @ ls') = at_offsets DL k ls @ at_offsets DL (k + total_size DL ls) ls'"
  by (induction DL k ls rule: at_offsets.induct) (simp_all add: add.assoc)

lemma readable_simps [simp]:
  "readable DL Raw []"
  "readable DL Raw (l # ls) \<longleftrightarrow> plain_leaf DL (snd (snd l)) (drop (fst l) Raw) \<and> readable DL Raw ls"
  "readable DL Raw (ls @ ls') \<longleftrightarrow> readable DL Raw ls \<and> readable DL Raw ls'"
  by (simp_all add: readable_def ball_Un case_prod_unfold)

lemma plain_leaf_constant:
  assumes "plain_leaf DL T Raw"
  shows "\<exists>c. GetConstantFromRaw DL T Raw = Inr (Some c, leaf_size DL T)"
  using assms by (cases T) (auto simp: plain_leaf_def leaf_ok_def read_raw_def Let_def)

lemma store_plain_leaf:
  assumes "plain_leaf DL T (drop k Raw)"
  shows "\<exists>ss. store_raw DL T (drop k Raw) GEP (M, stores) = Inr (total_size DL [(GEP, T)], (M, stores @ ss)) \<and>
    list_all2 (stored_from DL Raw) (at_offsets DL k [(GEP, T)]) ss"
proof -
  from plain_leaf_constant [OF assms] obtain c where
    "GetConstantFromRaw DL T (drop k Raw) = Inr (Some c, leaf_size DL T)" by blast
  then show ?thesis
    by (intro exI [of _ "[(GEP, c)]"]) (simp add: store_raw_def emit_store_def stored_from_def)
qed

lemma foldR_packed:
  assumes "\<And>x k stores. x \<in> set xs \<Longrightarrow> readable DL Raw (at_offsets DL k (lv x)) \<Longrightarrow>
      \<exists>ss. f x (drop k Raw) (M, stores) = Inr (total_size DL (lv x), (M, stores @ ss)) \<and>
        list_all2 (stored_from DL Raw) (at_offsets DL k (lv x)) ss"
  shows "readable DL Raw (at_offsets DL (k + off) (concat (map lv xs))) \<Longrightarrow>
    \<exists>ss. foldR (\<lambda>x (RawOffset, st). bindR (f x (drop RawOffset (drop k Raw)) st) (\<lambda>(Size, st').
          Inr (RawOffset + Size, st'))) xs (off, (M, stores)) =
        Inr (off + total_size DL (concat (map lv xs)), (M, stores @ ss)) \<and>
      list_all2 (stored_from DL Raw) (at_offsets DL (k + off) (concat (map lv xs))) ss"
  using assms
proof (induction xs arbitrary: off stores)
  case (Cons x xs)
  from Cons.prems(1) have ok: "readable DL Raw (at_offsets DL (k + off) (lv x))"
      "readable DL Raw (at_offsets DL (k + (off + total_size DL (lv x))) (concat (map lv xs)))"
    by (simp_all add: at_offsets_append add.assoc)
  obtain s1 where s1: "f x (drop (k + off) Raw) (M, stores) = Inr (total_size DL (lv x), (M, stores @ s1))"
      "list_all2 (stored_from DL Raw) (at_offsets DL (k + off) (lv x)) s1"
    using Cons.prems(2) [OF _ ok(1)] by auto
  obtain s2 where s2: "foldR (\<lambda>x (RawOffset, st). bindR (f x (drop RawOffset (drop k Raw)) st) (\<lambda>(Size, st').
          Inr (RawOffset + Size, st'))) xs (off + total_size DL (lv x), (M, stores @ s1)) =
        Inr (off + total_size DL (lv x) + total_size DL (concat (map lv xs)), (M, (stores @ s1) @ s2))"
      "list_all2 (stored_from DL Raw) (at_offsets DL (k + (off + total_size DL (lv x))) (concat (map lv xs))) s2"
    using Cons.IH [OF ok(2), of "stores @ s1"] Cons.prems(2) by auto
  show ?case
  proof (intro exI conjI)
    show "list_all2 (stored_from DL Raw) (at_offsets DL (k + off) (concat (map lv (x # xs)))) (s1 @ s2)"
      using s1(2) s2(2) by (simp add: at_offsets_append list_all2_appendI add.assoc)
    show "foldR (\<lambda>x (RawOffset, st). bindR (f x (drop RawOffset (drop k Raw)) st) (\<lambda>(Size, st').
          Inr (RawOffset + Size, st'))) (x # xs) (off, (M, stores)) =
        Inr (off + total_size DL (concat (map lv (x # xs))), (M, stores @ s1 @ s2))"
      using s1(1) s2(1) by (simp add: add.commute add.left_commute)
  qed
qed simp

lemma plain_leaf_scalar: "plain_leaf DL T Raw \<Longrightarrow> \<not> isAggregateTy T \<and> \<not> isPointerTy T"
  by (cases T) (auto simp: plain_leaf_def leaf_ok_def)

lemma StoreStructField_scalar:
  "\<not> isAggregateTy T \<Longrightarrow> \<not> isPointerTy T \<Longrightarrow>
   StoreStructField L BT T Raw GEP st = store_raw (data_layout L) T Raw GEP st"
  by (cases T) simp_all

lemma AsGlobal_scalar:
  "\<not> isAggregateTy T \<Longrightarrow> \<not> isPointerTy T \<Longrightarrow>
   StoreStructFieldAsGlobal DL Funcs T Raw = bindR (GetConstantFromRaw DL T Raw) (\<lambda>(FieldValue, dummy). Inr FieldValue)"
  by (cases T) simp_all

lemma StoreStructField_leaf:
  assumes "\<not> isAggregateTy T" and "readable (data_layout L) Raw (at_offsets (data_layout L) k (field_paths GEP T))"
  shows "\<exists>ss. StoreStructField L BT T (drop k Raw) GEP (M, stores) =
       Inr (total_size (data_layout L) (field_paths GEP T), (M, stores @ ss)) \<and>
     list_all2 (stored_from (data_layout L) Raw) (at_offsets (data_layout L) k (field_paths GEP T)) ss"
proof -
  have paths: "field_paths GEP T = [(GEP, T)]" using assms(1) by (cases T) auto
  with assms(2) have plain: "plain_leaf (data_layout L) T (drop k Raw)" by simp
  then have "StoreStructField L BT T (drop k Raw) GEP (M, stores) =
      store_raw (data_layout L) T (drop k Raw) GEP (M, stores)"
    using plain_leaf_scalar by (simp add: StoreStructField_scalar)
  with store_plain_leaf [OF plain] show ?thesis unfolding paths by simp
qed

lemma StoreStructField_packed:
  "readable (data_layout L) Raw (at_offsets (data_layout L) k (field_paths GEP T)) \<Longrightarrow>
   \<exists>ss. StoreStructField L BT T (drop k Raw) GEP (M, stores) =
       Inr (total_size (data_layout L) (field_paths GEP T), (M, stores @ ss)) \<and>
     list_all2 (stored_from (data_layout L) Raw) (at_offsets (data_layout L) k (field_paths GEP T)) ss"
proof (induction GEP T arbitrary: k stores rule: field_paths.induct)
  case (1 GEP Ts)
  have "\<exists>ss. foldR (\<lambda>x (RawOffset, st). bindR (StoreStructField L BT (snd x) (drop RawOffset (drop k Raw))
          (GEP @ [of_nat (fst x)]) st) (\<lambda>(Size, st'). Inr (RawOffset + Size, st'))) (enumerate 0 Ts) (0, (M, stores)) =
      Inr (0 + total_size (data_layout L) (field_paths GEP (StructTy Ts)), (M, stores @ ss)) \<and>
      list_all2 (stored_from (data_layout L) Raw) (at_offsets (data_layout L) (k + 0) (field_paths GEP (StructTy Ts))) ss"
    unfolding field_paths.simps
    by (rule foldR_packed [where f = "\<lambda>x Raw st. StoreStructField L BT (snd x) Raw (GEP @ [of_nat (fst x)]) st"])
      (use 1 in auto)
  then show ?case by (simp add: case_prod_unfold)
next
  case (2 GEP n T)
  have "\<exists>ss. foldR (\<lambda>x (RawOffset, st). bindR (StoreStructField L BT T (drop RawOffset (drop k Raw))
          (GEP @ [of_nat x]) st) (\<lambda>(Size, st'). Inr (RawOffset + Size, st'))) [0..<n] (0, (M, stores)) =
      Inr (0 + total_size (data_layout L) (field_paths GEP (ArrayTy n T)), (M, stores @ ss)) \<and>
      list_all2 (stored_from (data_layout L) Raw) (at_offsets (data_layout L) (k + 0) (field_paths GEP (ArrayTy n T))) ss"
    unfolding field_paths.simps
    by (rule foldR_packed [where f = "\<lambda>x Raw st. StoreStructField L BT T Raw (GEP @ [of_nat x]) st"])
      (use 2 in auto)
  then show ?case by (simp add: case_prod_unfold)
qed (rule StoreStructField_leaf, simp, assumption)+

lemma stored_from_bytes:
  assumes "stored_from DL Raw (k, p, T) (q, c)" "plain_leaf DL T (drop k Raw)"
  shows "encode_leaf c = take (leaf_size DL T) (drop k Raw)"
proof -
  note scalar = plain_leaf_scalar [OF assms(2)]
  with assms(1) have "StoreStructFieldAsGlobal DL Map.empty T (drop k Raw) = Inr (Some c)"
    by (simp add: AsGlobal_scalar stored_from_def)
  from leaf_constant [OF this] scalar show ?thesis by (simp add: leaf_value_def)
qed

lemma packed_bytes:
  "list_all2 (stored_from DL Raw) (at_offsets DL k ls) ss \<Longrightarrow> readable DL Raw (at_offsets DL k ls) \<Longrightarrow>
   map fst ss = map fst ls \<and> concat (map (encode_leaf \<circ> snd) ss) = take (total_size DL ls) (drop k Raw)"
proof (induction DL k ls arbitrary: ss rule: at_offsets.induct)
  case (2 DL k p T ls)
  then obtain s0 ss' where ss: "ss = s0 # ss'" "stored_from DL Raw (k, p, T) s0"
      "list_all2 (stored_from DL Raw) (at_offsets DL (k + leaf_size DL T) ls) ss'"
    by (auto simp: list_all2_Cons1)
  moreover obtain c where "s0 = (p, c)" using ss(2) by (cases s0) (auto simp: stored_from_def)
  ultimately show ?case using 2 stored_from_bytes [of DL Raw k p T p c] by (auto simp: take_add add.commute [of k])
qed simp

text \<open>
  C24. \<open>GetStructAlloc\<close> on a type of plain scalars, arrays and structs of them, for which the argument has
  enough bytes: the module is not changed, there is one store for each leaf of the type, under its index
  path and in order, and the stored constants taken together encode the argument's bytes from the
  first on, one leaf right after the other.
\<close>
theorem GetStructAlloc_packed:
  assumes "readable (data_layout L) Struct (at_offsets (data_layout L) 0 (field_paths [0] T))"
  shows "\<exists>stores. GetStructAlloc L BT M Struct (PointerTy T) = Inr (M, T, stores) \<and>
    map fst stores = map fst (field_paths [0] T) \<and>
    concat (map (encode_leaf \<circ> snd) stores) = take (total_size (data_layout L) (field_paths [0] T)) Struct"
proof -
  from StoreStructField_packed [OF assms, of BT M "[]"] obtain ss where
    ss: "StoreStructField L BT T Struct [0] (M, []) = Inr (total_size (data_layout L) (field_paths [0] T), (M, ss))"
      "list_all2 (stored_from (data_layout L) Struct) (at_offsets (data_layout L) 0 (field_paths [0] T)) ss"
    by auto
  with packed_bytes [OF ss(2) assms] show ?thesis by (simp add: GetStructAlloc_def)
qed

theorem GetStructAlloc_packed_witness:
  "\<exists>stores. GetStructAlloc sample_api TheTracker empty_module [1, 2, 3, 4]
      (PointerTy (StructTy [IntegerTy 16, ArrayTy 2 (IntegerTy 8)])) =
    Inr (empty_module, StructTy [IntegerTy 16, ArrayTy 2 (IntegerTy 8)], stores) \<and>
    map fst stores = [[0, 0], [0, 1, 0], [0, 1, 1]] \<and>
    concat (map (encode_leaf \<circ> snd) stores) = [1, 2, 3, 4]"
proof -
  let ?T = "StructTy [IntegerTy 16, ArrayTy 2 (IntegerTy 8)]"
  have paths: "field_paths [0] ?T = [([0, 0], IntegerTy 16), ([0, 1, 0], IntegerTy 8), ([0, 1, 1], IntegerTy 8)]"
    by (simp add: upt_rec)
  have "readable (data_layout sample_api) [1, 2, 3, 4] (at_offsets (data_layout sample_api) 0 (field_paths [0] ?T))"
    unfolding paths by (simp add: plain_leaf_def leaf_ok_def)
  from GetStructAlloc_packed [OF this, of TheTracker empty_module] show ?thesis
    unfolding paths by (simp add: total_size_def)
qed

text \<open>
  The padding of a struct is not skipped: whenever the data layout places a scalar field after a hole, the
  value stored for it is read from the bytes right after the field before it. Two arguments that differ only
  in padding then give different field values, while the global made for them (\<open>GetGlobalStruct\<close>) has the bytes at the
  offset of the layout.
\<close>
lemma GetStructAlloc_ignores_padding:
  assumes "plain_leaf (data_layout L) T0 Struct" and "plain_leaf (data_layout L) T1 (drop (leaf_size (data_layout L) T0) Struct)"
    and "plain_leaf (data_layout L) T1 (drop (getElementOffset (data_layout L) [T0, T1] 1) Struct)"
    and "getElementOffset (data_layout L) [T0, T1] 0 = 0"
  shows "\<exists>c0 c1 g1. GetStructAlloc L BT M Struct (PointerTy (StructTy [T0, T1])) =
      Inr (M, StructTy [T0, T1], [([0, 0], c0), ([0, 1], c1)]) \<and>
    encode_leaf c1 = take (leaf_size (data_layout L) T1) (drop (leaf_size (data_layout L) T0) Struct) \<and>
    StoreStructFieldAsGlobal (data_layout L) Map.empty (StructTy [T0, T1]) Struct =
      Inr (Some (ConstantStruct (StructTy [T0, T1]) [c0, g1])) \<and>
    encode_leaf g1 = take (leaf_size (data_layout L) T1) (drop (getElementOffset (data_layout L) [T0, T1] 1) Struct)"
proof -
  let ?DL = "data_layout L"
  note scalars = plain_leaf_scalar [OF assms(1)] plain_leaf_scalar [OF assms(2)]
  obtain c0 c1 g1 where c: "GetConstantFromRaw ?DL T0 Struct = Inr (Some c0, leaf_size ?DL T0)"
      "GetConstantFromRaw ?DL T1 (drop (leaf_size ?DL T0) Struct) = Inr (Some c1, leaf_size ?DL T1)"
      "GetConstantFromRaw ?DL T1 (drop (getElementOffset ?DL [T0, T1] 1) Struct) = Inr (Some g1, leaf_size ?DL T1)"
    using assms(1-3) plain_leaf_constant by meson
  have "StoreStructField L BT T0 Struct [0, 0] (M, []) = Inr (leaf_size ?DL T0, (M, [([0, 0], c0)]))"
    using c(1) scalars by (simp add: StoreStructField_scalar store_raw_def emit_store_def)
  moreover have "StoreStructField L BT T1 (drop (leaf_size ?DL T0) Struct) [0, 1] (M, [([0, 0], c0)]) =
      Inr (leaf_size ?DL T1, (M, [([0, 0], c0), ([0, 1], c1)]))"
    using c(2) scalars by (simp add: StoreStructField_scalar store_raw_def emit_store_def)
  ultimately have "GetStructAlloc L BT M Struct (PointerTy (StructTy [T0, T1])) =
      Inr (M, StructTy [T0, T1], [([0, 0], c0), ([0, 1], c1)])"
    by (simp add: GetStructAlloc_def)
  moreover have "StoreStructFieldAsGlobal ?DL Map.empty (StructTy [T0, T1]) Struct =
      Inr (Some (ConstantStruct (StructTy [T0, T1]) [c0, g1]))"
    using c(1,3) scalars assms(4) by (simp add: AsGlobal_scalar)
  moreover have "encode_leaf c1 = take (leaf_size ?DL T1) (drop (leaf_size ?DL T0) Struct)"
    using c(2) assms(2) stored_from_bytes [of ?DL Struct "leaf_size ?DL T0" "[]" T1 "[]" c1] by (simp add: stored_from_def)
  moreover have "encode_leaf g1 = take (leaf_size ?DL T1) (drop (getElementOffset ?DL [T0, T1] 1) Struct)"
    using c(3) assms(3) stored_from_bytes [of ?DL Struct "getElementOffset ?DL [T0, T1] 1" "[]" T1 "[]" g1]
    by (simp add: stored_from_def)
  ultimately show ?thesis by blast
qed

end
