(* ===== verification/Spec2Isabelle.thy ===== *)
theory Spec2Isabelle
  imports Easy_LayoutCtor Easy_Cached Easy_Compose Easy_Vtable Easy_Pipeline Easy_Deindirect Easy_Virtual Easy_Alloca Easy_Layout Easy_Devirt
begin

text \<open>
  Easy::jit, a library for run-time specialization of C++ functions.

  \<^bold>\<open>The program.\<close> A call \<open>easy::jit(f, args...)\<close> binds some parameters of \<open>f\<close> to values and leaves the
  others to placeholders \<open>_1\<close>, \<open>_2\<close>, ... At compile time the templates of \<open>include/easy\<close> compute the
  signature of the specialized function and turn the arguments into a \<open>Context\<close>. At run time the bitcode
  of \<open>f\<close>, which a compiler plugin has embedded in the program and a static constructor has registered with
  the \<open>BitcodeTracker\<close>, is parsed, specialized for the context by a pass, optimized and compiled; the
  result is a \<open>FunctionWrapper\<close> of the new signature. A \<open>Cache\<close> keeps wrappers by function and context.
  Wrappers can be written to a stream and read back.

  \<^bold>\<open>The theories\<close>, each with the definitions of one part first and its lemmas after them:
  \<^item> \<open>Easy_Prelude\<close>: machine types, the faults (exceptions, assertions, undefined behaviour, refused
    programs), sequencing of results, and \<open>unordered_map\<close> behind the locale \<open>key_equality\<close>.
  \<^item> \<open>Easy_Meta\<close> (\<open>include/easy/meta.h\<close>): C++ types, type lists, \<open>map_placeholder_to_type\<close>. The signature
    that results is characterised completely.
  \<^item> \<open>Easy_Context\<close> (\<open>runtime/Context.h\<close>, \<open>Context.cpp\<close>): arguments, the context, its comparison and hash.
    The comparison is a partial equivalence, compatible with the hash; it is not reflexive on NaN.
  \<^item> \<open>Easy_Param\<close> (\<open>param.h\<close>, \<open>options.h\<close>, \<open>jit.h\<close>): the \<open>set_param\<close> overloads, options, \<open>get_context_for\<close>.
    One argument per parameter; context and signature of one call agree.
  \<^item> \<open>Easy_Cache\<close> (\<open>function_wrapper.h\<close>, \<open>jit.h\<close>, \<open>code_cache.h\<close>): wrappers, \<open>jit\<close> and both caches, over the
    locale \<open>code_cache\<close>. A specialization is compiled once and the cache is transparent; what a thrown
    exception and floating-point keys do to it is proved as well.
  \<^item> \<open>Easy_Tracker\<close> (\<open>BitcodeTracker.h\<close>, \<open>BitcodeTracker.cpp\<close>): the registry, with its interface as the locale
    \<open>function_registry\<close>.
  \<^item> \<open>Easy_IR\<close>: the LLVM objects as data, and \<open>runtime/Utils.cpp\<close> (the entry mark).
  \<^item> \<open>Easy_Struct\<close> and \<open>Easy_Inline\<close> (\<open>runtime/pass/InlineParametersHelper.cpp\<close>, \<open>InlineParameters.cpp\<close>): the
    constants that stand for bound arguments and the pass that builds the wrapper. The pass is computed in
    full for contexts of scalars, its operands are characterised for every context, and the inputs on
    which it does not work are identified.
  \<^item> \<open>Easy_Emit\<close> (\<open>runtime/pass/EmitCodes.cpp\<close>): the pass that writes raw machine code.
  \<^item> \<open>Easy_Function\<close> (\<open>runtime/Function.cpp\<close>): compilation, reserved registers, serialization.
  \<^item> \<open>Easy_Pipeline\<close> (\<open>runtime/RuntimePasses.h\<close>): the passes as objects and the list that \<open>Optimize\<close> hands to the pass manager,
    shown to be the \<open>Optimize\<close> of \<open>Easy_Function\<close>.
  \<^item> \<open>Easy_Alloca\<close> (\<open>runtime/pass/InlineParametersHelper.cpp\<close>): the stack copy of a struct, with the bytes each of
    its fields receives and the padding it does not skip.
  \<^item> \<open>Easy_Devirt\<close> (\<open>runtime/pass/DevirtualizeConstant.cpp\<close>, \<open>IndirectcallConstant.cpp\<close>): calls through constant
    function pointers and virtual tables. Both passes are shown to keep the target and the operands of every call.
    \<open>Easy_Deindirect\<close> is the loop of \<open>IndirectcallConstant.cpp\<close> that nothing calls, and that changes no call.
  \<^item> \<open>Easy_Alias\<close> (\<open>pass/MayAliasTracer.cpp\<close>) and \<open>Easy_Register\<close> (\<open>pass/Easy.cpp\<close>): the compiler plugin. What it
    exports, what each embedded module contains and which calls of \<open>easy_register\<close> it emits are characterised,
    down to what the tracker answers when the program's constructors have run. \<open>Easy_Ctor\<close> (\<open>pass/Easy.cpp\<close>,
    \<open>pass/Utils.cpp\<close>) is the code the plugin writes, variables and constructor, and its run in the loaded program.
  \<^item> \<open>Easy_Layout\<close> (\<open>pass/Layout.cpp\<close>): the generated serializers of arguments, related to their reader in
    \<open>Context.h\<close>, and the registration of layouts; \<open>Easy_LayoutCtor\<close>: the constructor it writes.
  \<^item> \<open>Easy_Virtual\<close> (\<open>pass/Easy.cpp\<close>): the collection of virtual methods, whose call the plugin leaves out: what it
    would mark, and where the test for overloads goes wrong.
  \<^item> \<open>Easy_Process\<close>: the threads of one process over the run-time theories, as the step relation \<open>process_step\<close>. Every
    call meets the contract of the locale \<open>process_call\<close>; from it come the invariant of reachable states, that a
    specialization is compiled once in the process, that a cached wrapper is read at its own type, and
    when a function can be read from a stream.
  \<^item> \<open>Easy_Semantics\<close>, \<open>Easy_Cached\<close> and \<open>Easy_Shipped\<close>: what specialized functions compute. A call of the wrapper is the C++
    call with the placeholders replaced, for \<open>easy::jit\<close>, for \<open>Cache::jit\<close> in any process, and for a function that
    another process has written to a stream.
  \<^item> \<open>Easy_Linker\<close> and \<open>Easy_Compose\<close> (the case \<open>AK_Module\<close> of \<open>InlineParameters.cpp\<close>): compiled functions as arguments of another
    \<open>easy::jit\<close>. The first theory says what is assumed of LLVM's linker and has a linker that meets it; the second
    computes the pass for such contexts, from the call of \<open>easy::jit\<close> on, and shows that a function cannot be bound to its own specialization.
  \<^item> \<open>Easy_Hook\<close> (\<open>runtime/Function.cpp\<close>): the patch of LLVM's virtual table, one memory access at a time. For
    calls that do not overlap it implements the flag \<open>hooked\<close> of \<open>Easy_Function\<close>; for calls that overlap it does not. \<open>Easy_Vtable\<close> refines the entry
    to the addresses that the code computes, on a memory with pages, and shows for which tables the store succeeds.
  \<^item> this theory: the properties that span the front end and the pass.

  \<^bold>\<open>Conventions.\<close> A C++ object that is changed is a record that is passed on; a function that can throw, fail
  an assertion or rely on a precondition returns \<open>'a result\<close>, and an access that the language or LLVM does
  not define is the value \<open>Inl UndefinedBehaviour\<close>. An object whose state outlives an exception (the cache,
  the run-time state of a thread) is returned beside the result. Every definition is total; the recursions
  over types and strings have termination proofs. Fuel is used in the compiler plugin only, where LLVM's graphs
  of values have cycles: the alias tracer and the loop over references return \<open>None\<close> when their count is
  exhausted, \<open>tracer_total\<close> shows that a depth above twice the number of reachable values is enough for the one,
  \<open>reference_loop_exact\<close> that one round per pushed operand is enough for the other, and \<open>enough_fuel\<close> is both. In
  \<open>Easy_Hook\<close> four steps are enough for a call that runs alone and two nested calls for the virtual call; that
  no fuel is enough after an unlucky interleaving is a theorem. Integers keep their widths: placeholder
  indices are 32-bit words, bound integers 64-bit words, and the increment in \<open>GetNewLayout\<close> wraps.

  \<^bold>\<open>What is a parameter.\<close> LLVM is not part of the repository: the data layout, the bitcode reader and writer and
  the linker are the fields of \<open>llvm_api\<close>; the standard passes, the execution engine, the target description
  and the file system are the fields of \<open>jit_host\<close>; hashes of the standard library and user-defined
  conversions are parameters likewise. No definition says what they do; where a property relies on one of
  them the reliance is a hypothesis of its statement (equal doubles have equal hashes, the reader reads what
  the writer wrote, the engine accepts the module). What the other functions of the program compute, what an
  optimized module means and what the machine code does are the parameters \<open>sem\<close>, \<open>behaviour\<close> and \<open>run\<close> of \<open>Easy_Semantics\<close>;
  the properties there assume that the standard passes keep meanings (\<open>passes_preserve\<close>) and that the code of a compiled
  function does what its module says (\<open>code_implements\<close>).

  \<^bold>\<open>What is not modelled.\<close> The ownership of the LLVM objects behind a compiled function, and the code of \<open>Optimize\<close> under \<open>#if 0\<close>. Calls of the library that overlap in time
  (\<open>Easy_Process\<close> takes each call as one step; the code has no locks, and overlapping calls that share a cache or the
  register table are data races; only the patch of the virtual table is modelled with its interleavings). The
  initialization of the native target and the benchmark and example programs are left out.
\<close>

subsection \<open>From the call to the specialized function\<close>

lemma layout_accepted: "HighLevelLayout_new Fn = Inr HLL \<Longrightarrow> HLL = layout_of Fn"
  by (auto simp: HighLevelLayout_new_eq split: if_splits)

text \<open>
  C4. One call of \<open>easy::jit\<close>, from the C++ types to the call in the wrapper: when the front end accepts
  it (with no option among the arguments of the parameters) and the pass builds the wrapper, there is
  one selection of the parameters of the original function that gives both the C++ signature of the
  returned wrapper and the LLVM parameters of the compiled function, and each parameter of the
  compiled function is passed on to exactly the parameter it was selected from.
\<close>
theorem jit_signature:
  fixes C :: "ir_module Context"
  assumes "FunOriginalTy T = TFun r PL" and "get_context_for E T args = Inr C"
    and "FuncType T (map arg_type args) = Inr (TWrapper r' Q)"
    and "\<forall>a \<in> set (take (length PL) args). \<not> is_option (decay (arg_type a)) \<and> is_ph (arg_type a) < 2 ^ 32"
    and "HighLevelLayout_new Fn = Inr HLL" and "GetNewLayout C HLL = Inr New"
    and "CreateWrapperFun L BT F HLL C M = Inr (W, M')"
  shows "\<exists>js w ops ret. length js = length Q \<and> distinct js \<and> set js \<subseteq> {0..<length PL} \<and>
    Q = map ((!) PL) js \<and> GetWrapperTy New = (map ((!) (fun_params Fn)) js, fun_ret Fn) \<and>
    function_at M' W = Some w \<and> fun_body w = Some [CallInst (DirectCall F) ops, ret] \<and>
    length ops = length PL \<and> (\<forall>p<length Q. ops ! (js ! p) = ArgVal p)"
proof -
  let ?C = "ArgumentMapping C" and ?n = "length Q"
  note HLL = layout_accepted [OF assms(5)]
  note fwd = forwards_agree [OF assms(1-4)]
  note new = GetNewLayout_success [OF assms(6)]
  have gap: "gapless ?C" and N: "NNewArgs ?C = ?n"
    using accepted_call_forwards [of ?C ?n] fwd new by auto
  note ops = create_wrapper_operands [OF assms(7) [unfolded HLL] gap]
  have len: "length ?C = length PL"
    using get_context_for_unfold [OF assms(1,2)] list_all2_lengthD by fastforce
  let ?js = "map (\<lambda>p. the (first_forward ?C p)) [0..<?n]"
  have first: "\<exists>k. first_forward ?C p = Some (?js ! p) \<and> ?js ! p < length PL \<and> Q ! p = PL ! (?js ! p) \<and>
      ?C ! (?js ! p) = ForwardArgument k \<and> unat k = p" if p: "p < ?n" for p
  proof -
    from fwd p obtain j where j: "j < length PL" "?C ! j = ForwardArgument (of_nat p)" "Q ! p = PL ! j" by blast
    from p fwd have "p \<in> unat ` {k. ForwardArgument k \<in> set ?C}" by simp
    then have "unat (of_nat p :: uint) = p" by auto
    moreover from this j ops len have "first_forward ?C p = Some j" by (metis forwards_once_def)
    ultimately show ?thesis using j p by simp
  qed
  obtain w args ret where w: "function_at M' W = Some w" "fun_body w = Some [CallInst (DirectCall F) args, ret]"
      "length args = length (fun_params Fn)"
      "\<forall>i<length args. operand_spec (data_layout L) BT (fun_params Fn ! i) (?C ! i) (args ! i)"
    using ops by blast
  have size: "length args = length PL" using ops len w(3) by (simp add: Context_size_def)
  have passed: "args ! (?js ! p) = ArgVal p" if p: "p < ?n" for p
    using first [OF p] w(4) size by fastforce
  have "distinct ?js"
  proof (simp add: distinct_map, rule inj_onI)
    fix p q assume pq: "p \<in> {0..<?n}" "q \<in> {0..<?n}" "the (first_forward ?C p) = the (first_forward ?C q)"
    then show "p = q" using passed [of p] passed [of q] by simp
  qed
  moreover have "set ?js \<subseteq> {0..<length PL}" using first by (fastforce simp: set_conv_nth)
  moreover have "Q = map ((!) PL) ?js" using first by (intro nth_equalityI) auto
  moreover have "GetWrapperTy New = (map ((!) (fun_params Fn)) ?js, fun_ret Fn)"
    using new_layout_plain [OF assms(6) [unfolded HLL] gap] by (simp add: wrapper_type_plain N comp_def)
  ultimately show ?thesis using w(1,2) size passed by (intro exI [of _ ?js]) auto
qed

lemma sample_compiled:
  "\<exists>New M'. GetNewLayout sample_context (layout_of sample_fun) = Inr New \<and>
     CreateWrapperFun sample_api TheTracker 0 (layout_of sample_fun) sample_context sample_module = Inr (1, M')"
  using create_wrapper_scalar [OF sample_scalar_context [of TheTracker] sample_module_facts(1,4), of sample_api]
  by (auto simp: sample_module_def CreateWrapperFun_def bindR_eq_Inr)

theorem jit_signature_witness:
  "\<exists>New M' js w ops ret.
     GetNewLayout sample_context (layout_of sample_fun) = Inr New \<and>
     CreateWrapperFun sample_api TheTracker 0 (layout_of sample_fun) sample_context sample_module = Inr (1, M') \<and>
     length js = 2 \<and> fst (GetWrapperTy New) = map ((!) (fun_params sample_fun)) js \<and>
     function_at M' 1 = Some w \<and> fun_body w = Some [CallInst (DirectCall 0) ops, ret] \<and>
     ops ! (js ! 0) = ArgVal 0 \<and> ops ! (js ! 1) = ArgVal 1"
proof -
  obtain New M' where c: "GetNewLayout sample_context (layout_of sample_fun) = Inr New"
      "CreateWrapperFun sample_api TheTracker 0 (layout_of sample_fun) sample_context sample_module = Inr (1, M')"
    using sample_compiled by blast
  have ok: "\<forall>a \<in> set (take (length [TInt 32 True, TInt 8 True, TFloating 64]) sample_args).
      \<not> is_option (decay (arg_type a)) \<and> is_ph (arg_type a) < 2 ^ 32"
    by (simp add: sample_args_def easy_simps)
  from jit_signature [OF sample_call(1-3) ok sample_call(4) c] obtain js w ops ret where
      "length js = length [TFloating 64, TInt 32 True]" "GetWrapperTy New = (map ((!) (fun_params sample_fun)) js, fun_ret sample_fun)"
      "function_at M' 1 = Some w" "fun_body w = Some [CallInst (DirectCall 0) ops, ret]"
      "\<forall>p<length [TFloating 64, TInt 32 True]. ops ! (js ! p) = ArgVal p" by blast
  with c show ?thesis
    by (intro exI [of _ New] exI [of _ M'] exI [of _ js] exI [of _ w] exI [of _ ops] exI [of _ ret]) simp
qed

text \<open>
  An integer bound to an integer parameter arrives with its bits: if the argument of a parameter of
  \<open>w\<close> bits, 0 < \<open>w\<close> \<open>\<le>\<close> 64, is an integer value, then the context holds a 64-bit integer that agrees
  with it modulo 2 ^ \<open>w\<close>, and the operand of the call is the constant of the parameter's type made of
  that integer. When the value is in the range of the parameter's type, the 64-bit integer is the
  value itself as a two's complement number.
\<close>
lemma bound_integer_bits:
  fixes C :: "ir_module Context"
  assumes "FunOriginalTy T = TFun r PL" and "get_context_for E T args = Inr C"
    and "i < length PL" and "PL ! i = TInt w s" and "0 < w" and "w \<le> 64"
    and "arg_val (args ! i) = VInt n" and "is_ph (arg_type (args ! i)) = 0"
    and "\<not> is_function_wrapper (arg_type (args ! i))"
    and "HighLevelLayout_new Fn = Inr HLL" and "CreateWrapperFun L BT F HLL C M = Inr (W, M')"
    and "gapless (ArgumentMapping C)"
  shows "\<exists>v f ops ret. ArgumentMapping C ! i = IntArgument v \<and> take_bit w (uint v) = take_bit w n \<and>
    (wrap_int w s n = n \<longrightarrow> v = word_of_int n) \<and>
    function_at M' W = Some f \<and> fun_body f = Some [CallInst (DirectCall F) ops, ret] \<and>
    ops ! i = ConstVal (ConstantInt (fun_params Fn ! i) v True)"
proof -
  let ?v = "word_of_int (wrap_int w s n) :: 64 word"
  note parts = get_context_for_unfold [OF assms(1,2)]
  have "argument_for E (PL ! i) (args ! i) = Inr (ArgumentMapping C ! i)" and len: "length (ArgumentMapping C) = length PL"
    using parts(1,2) assms(3) by (auto simp: list_all2_conv_all_nth)
  then have arg: "ArgumentMapping C ! i = IntArgument ?v"
    using argument_for_int [OF assms(8,9,7), of E w s] assms(4) by simp
  have bits: "take_bit w (uint ?v) = take_bit w n"
    using take_bit_word64 [OF assms(6)] take_bit_wrap_int [OF assms(5)] by simp
  note ops = create_wrapper_operands [OF assms(11) [unfolded layout_accepted [OF assms(10)]] assms(12)]
  then obtain f args' ret where f: "function_at M' W = Some f" "fun_body f = Some [CallInst (DirectCall F) args', ret]"
      "length args' = length (fun_params Fn)"
      "\<forall>i<length args'. operand_spec (data_layout L) BT (fun_params Fn ! i) (ArgumentMapping C ! i) (args' ! i)"
    by blast
  have "i < length args'" using f(3) ops len assms(3) by (simp add: Context_size_def)
  with f(4) arg have "args' ! i = ConstVal (ConstantInt (fun_params Fn ! i) ?v True)" by fastforce
  with arg bits f(1,2) show ?thesis by auto
qed

end
